(* ===== verification/Prelude.thy ===== *)
theory Prelude
  imports Main "HOL-Library.Word" "HOL-Library.Code_Target_Nat"
begin

text \<open>
  Shared vocabulary of the development: the widths of the machine integers, the byte-string
  operations of Rust's standard library that the modelled sources call (\<open>str::strip_prefix\<close>,
  \<open>split\<close>, \<open>split_once\<close>, \<open>lines\<close>, \<open>trim\<close>, \<open>to_ascii_lowercase\<close>, \<open>parse::<u8>\<close>,
  \<open>str::from_utf8\<close>), big-endian integers, and the facts about them every component uses.

  A Rust \<open>&str\<close> is its UTF-8 encoding, a \<^typ>\<open>string\<close> whose characters are bytes, so \<open>length\<close> is
  \<open>str::len\<close>. A \<open>[u8]\<close> is a list of \<open>8 word\<close>s. Instants and durations are natural numbers
  of nanoseconds. Fallible code returns \<open>'a option\<close> or \<open>error + 'a\<close> with \<^term>\<open>Inl\<close> the error.
\<close>

named_theorems str_simps \<open>characterisations of the string operations\<close>
named_theorems be_simps \<open>big-endian integers\<close>

type_synonym u8 = "8 word"
type_synonym u16 = "16 word"
type_synonym u32 = "32 word"
type_synonym u64 = "64 word"
type_synonym u128 = "128 word"
type_synonym bytes = "8 word list"

type_synonym instant = nat

definition secs :: "nat \<Rightarrow> nat" where
  "secs n = n * 1000000000"

lemma secs_mono [simp]: "secs a \<le> secs b \<longleftrightarrow> a \<le> b"
  by (simp add: secs_def)

lemma secs_strict_mono [simp]: "secs a < secs b \<longleftrightarrow> a < b"
  by (simp add: secs_def)

section \<open>Prefixes and suffixes\<close>

definition strip_prefix :: "'a list \<Rightarrow> 'a list \<Rightarrow> 'a list option" where
  "strip_prefix p s = (if take (length p) s = p then Some (drop (length p) s) else None)"

definition strip_suffix :: "'a list \<Rightarrow> 'a list \<Rightarrow> 'a list option" where
  "strip_suffix p s =
     (if length p \<le> length s \<and> drop (length s - length p) s = p
      then Some (take (length s - length p) s) else None)"

definition starts_with :: "'a list \<Rightarrow> 'a list \<Rightarrow> bool" where
  "starts_with s p \<longleftrightarrow> take (length p) s = p"

definition ends_with_char :: "'a list \<Rightarrow> 'a \<Rightarrow> bool" where
  "ends_with_char s c \<longleftrightarrow> s \<noteq> [] \<and> last s = c"

lemma strip_prefix_Some_iff [str_simps]: "strip_prefix p s = Some r \<longleftrightarrow> s = p @ r"
  by (auto simp: strip_prefix_def) (metis append_take_drop_id)

lemma strip_prefix_None_iff: "strip_prefix p s = None \<longleftrightarrow> (\<nexists>r. s = p @ r)"
  by (metis strip_prefix_Some_iff not_None_eq)

lemma strip_prefix_append [simp]: "strip_prefix p (p @ r) = Some r"
  by (simp add: strip_prefix_Some_iff)

lemma strip_suffix_Some_iff [str_simps]: "strip_suffix p s = Some r \<longleftrightarrow> s = r @ p"
  by (auto simp: strip_suffix_def) (metis append_take_drop_id)

lemma strip_suffix_None_iff: "strip_suffix p s = None \<longleftrightarrow> (\<nexists>r. s = r @ p)"
  by (metis strip_suffix_Some_iff not_None_eq)

lemma starts_with_iff [str_simps]: "starts_with s p \<longleftrightarrow> (\<exists>r. s = p @ r)"
  by (auto simp: starts_with_def) (metis append_take_drop_id)

lemma ends_with_char_iff [str_simps]: "ends_with_char s c \<longleftrightarrow> (\<exists>r. s = r @ [c])"
  by (auto simp: ends_with_char_def) (metis append_butlast_last_id)

section \<open>ASCII case\<close>

definition ascii_lower :: "char \<Rightarrow> char" where
  "ascii_lower c =
     (if 65 \<le> (of_char c :: nat) \<and> (of_char c :: nat) \<le> 90 then char_of (of_char c + 32 :: nat) else c)"

definition to_ascii_lowercase :: "string \<Rightarrow> string" where
  "to_ascii_lowercase s = map ascii_lower s"

definition is_ascii_digit :: "char \<Rightarrow> bool" where
  "is_ascii_digit c \<longleftrightarrow> 48 \<le> (of_char c :: nat) \<and> (of_char c :: nat) \<le> 57"

definition is_ascii_alphanumeric :: "char \<Rightarrow> bool" where
  "is_ascii_alphanumeric c \<longleftrightarrow>
     is_ascii_digit c \<or>
     65 \<le> (of_char c :: nat) \<and> (of_char c :: nat) \<le> 90 \<or>
     97 \<le> (of_char c :: nat) \<and> (of_char c :: nat) \<le> 122"

lemma of_char_lt_256: "(of_char c :: nat) < 256"
  by (metis nat_of_char_less_256)

lemma of_char_ascii_lower:
  "(of_char (ascii_lower c) :: nat) =
     (if 65 \<le> (of_char c :: nat) \<and> (of_char c :: nat) \<le> 90 then of_char c + 32 else of_char c)"
  using of_char_lt_256 [of c] by (auto simp: ascii_lower_def)

lemma ascii_lower_idem [simp]: "ascii_lower (ascii_lower c) = ascii_lower c"
  using of_char_ascii_lower [of c] by (subst ascii_lower_def) (auto split: if_splits)

lemma to_ascii_lowercase_idem [simp]: "to_ascii_lowercase (to_ascii_lowercase s) = to_ascii_lowercase s"
  by (simp add: to_ascii_lowercase_def)

lemma to_ascii_lowercase_append [simp]:
  "to_ascii_lowercase (a @ b) = to_ascii_lowercase a @ to_ascii_lowercase b"
  by (simp add: to_ascii_lowercase_def)

lemma length_to_ascii_lowercase [simp]: "length (to_ascii_lowercase s) = length s"
  by (simp add: to_ascii_lowercase_def)

lemma to_ascii_lowercase_Nil_iff [simp]: "to_ascii_lowercase s = [] \<longleftrightarrow> s = []"
  by (simp add: to_ascii_lowercase_def)

lemma ascii_lower_eq_non_letter:
  assumes "(of_char d :: nat) < 65 \<or> 122 < (of_char d :: nat)"
  shows "ascii_lower c = d \<longleftrightarrow> c = d"
proof
  assume "ascii_lower c = d"
  then have "(of_char (ascii_lower c) :: nat) = of_char d" by simp
  with assms show "c = d"
    using \<open>ascii_lower c = d\<close> by (auto simp: of_char_ascii_lower ascii_lower_def split: if_splits)
next
  assume "c = d"
  with assms show "ascii_lower c = d" by (auto simp: ascii_lower_def)
qed

section \<open>Splitting and trimming\<close>

definition trim_end_matches :: "'a \<Rightarrow> 'a list \<Rightarrow> 'a list" where
  "trim_end_matches c s = rev (dropWhile (\<lambda>x. x = c) (rev s))"

fun split_char :: "'a \<Rightarrow> 'a list \<Rightarrow> 'a list list" where
  "split_char c [] = [[]]"
| "split_char c (x # xs) =
     (if x = c then [] # split_char c xs
      else (case split_char c xs of [] \<Rightarrow> [[x]] | w # ws \<Rightarrow> (x # w) # ws))"

definition split_once :: "('a \<Rightarrow> bool) \<Rightarrow> 'a list \<Rightarrow> ('a list \<times> 'a list) option" where
  "split_once p s =
     (case dropWhile (\<lambda>x. \<not> p x) s of
        [] \<Rightarrow> None
      | _ # rest \<Rightarrow> Some (takeWhile (\<lambda>x. \<not> p x) s, rest))"

lemma split_char_not_Nil [simp]: "split_char c s \<noteq> []"
  by (cases s) (auto split: list.splits)

lemma split_char_no_sep: "w \<in> set (split_char c s) \<Longrightarrow> c \<notin> set w"
proof (induction s arbitrary: w)
  case Nil
  then show ?case by simp
next
  case (Cons x xs)
  then show ?case by (fastforce split: if_splits list.splits)
qed

lemma split_char_single [simp]: "c \<notin> set s \<Longrightarrow> split_char c s = [s]"
  by (induction s) auto

lemma split_char_append_sep:
  "c \<notin> set a \<Longrightarrow> split_char c (a @ c # b) = a # split_char c b"
  by (induction a) auto

lemma trim_end_matches_decomp:
  obtains n where "s = trim_end_matches c s @ replicate n c"
proof -
  have "rev s = takeWhile (\<lambda>x. x = c) (rev s) @ dropWhile (\<lambda>x. x = c) (rev s)" by simp
  moreover have "takeWhile (\<lambda>x. x = c) (rev s) = replicate (length (takeWhile (\<lambda>x. x = c) (rev s))) c"
    by (metis (mono_tags, lifting) replicate_length_same set_takeWhileD)
  ultimately have "s = trim_end_matches c s @ rev (replicate (length (takeWhile (\<lambda>x. x = c) (rev s))) c)"
    unfolding trim_end_matches_def by (metis rev_append rev_rev_ident)
  then show thesis using that by simp
qed

lemma trim_end_matches_last: "trim_end_matches c s \<noteq> [] \<Longrightarrow> last (trim_end_matches c s) \<noteq> c"
  unfolding trim_end_matches_def by (metis (full_types) hd_dropWhile last_rev rev.simps(1) rev_rev_ident)

lemma trim_end_matches_id: "s = [] \<or> last s \<noteq> c \<Longrightarrow> trim_end_matches c s = s"
proof -
  assume "s = [] \<or> last s \<noteq> c"
  then have "dropWhile (\<lambda>x. x = c) (rev s) = rev s"
    by (cases s rule: rev_cases) auto
  then show ?thesis by (simp add: trim_end_matches_def)
qed

lemma trim_end_matches_idem [simp]: "trim_end_matches c (trim_end_matches c s) = trim_end_matches c s"
  by (metis trim_end_matches_id trim_end_matches_last)

lemma trim_end_matches_snoc [simp]: "trim_end_matches c (s @ [c]) = trim_end_matches c s"
  by (simp add: trim_end_matches_def)

lemma split_once_Some_iff [str_simps]:
  "split_once p s = Some (a, b) \<longleftrightarrow> (\<exists>x. s = a @ x # b \<and> p x \<and> (\<forall>y\<in>set a. \<not> p y))"
proof
  assume "split_once p s = Some (a, b)"
  then obtain x where d: "dropWhile (\<lambda>x. \<not> p x) s = x # b" and a: "a = takeWhile (\<lambda>x. \<not> p x) s"
    by (auto simp: split_once_def split: list.splits)
  have "s = a @ x # b" by (metis a d takeWhile_dropWhile_id)
  moreover have "p x" using d by (metis (mono_tags, lifting) hd_dropWhile list.distinct(1) list.sel(1))
  moreover have "\<forall>y\<in>set a. \<not> p y" using a by (metis set_takeWhileD)
  ultimately show "\<exists>x. s = a @ x # b \<and> p x \<and> (\<forall>y\<in>set a. \<not> p y)" by blast
next
  assume "\<exists>x. s = a @ x # b \<and> p x \<and> (\<forall>y\<in>set a. \<not> p y)"
  then obtain x where "s = a @ x # b" "p x" "\<forall>y\<in>set a. \<not> p y" by blast
  then show "split_once p s = Some (a, b)"
    by (auto simp: split_once_def)
qed

section \<open>Whitespace\<close>

text \<open>
  The UTF-8 encodings of the code points with the Unicode property \<open>White_Space\<close>, which
  \<open>char::is_whitespace\<close> tests. No encoding is a prefix or a suffix of another, and UTF-8 is
  self-synchronising, so matching encodings at either end of a valid string is matching its
  characters.
\<close>

definition ws_encodings :: "string list" where
  "ws_encodings =
     [[CHR 0x09], [CHR 0x0A], [CHR 0x0B], [CHR 0x0C], [CHR 0x0D], [CHR 0x20],
      [CHR 0xC2, CHR 0x85], [CHR 0xC2, CHR 0xA0], [CHR 0xE1, CHR 0x9A, CHR 0x80],
      [CHR 0xE2, CHR 0x80, CHR 0x80], [CHR 0xE2, CHR 0x80, CHR 0x81], [CHR 0xE2, CHR 0x80, CHR 0x82],
      [CHR 0xE2, CHR 0x80, CHR 0x83], [CHR 0xE2, CHR 0x80, CHR 0x84], [CHR 0xE2, CHR 0x80, CHR 0x85],
      [CHR 0xE2, CHR 0x80, CHR 0x86], [CHR 0xE2, CHR 0x80, CHR 0x87], [CHR 0xE2, CHR 0x80, CHR 0x88],
      [CHR 0xE2, CHR 0x80, CHR 0x89], [CHR 0xE2, CHR 0x80, CHR 0x8A],
      [CHR 0xE2, CHR 0x80, CHR 0xA8], [CHR 0xE2, CHR 0x80, CHR 0xA9], [CHR 0xE2, CHR 0x80, CHR 0xAF],
      [CHR 0xE2, CHR 0x81, CHR 0x9F], [CHR 0xE3, CHR 0x80, CHR 0x80]]"

definition ws_head :: "string \<Rightarrow> nat option" where
  "ws_head s = map_option length (find (starts_with s) ws_encodings)"

definition ws_tail :: "string \<Rightarrow> nat option" where
  "ws_tail s = map_option length (find (\<lambda>w. starts_with (rev s) (rev w)) ws_encodings)"

lemma ws_encodings_nonempty: "[] \<notin> set ws_encodings"
  by (simp add: ws_encodings_def)

lemma ws_head_pos: "ws_head s = Some n \<Longrightarrow> 0 < n \<and> n \<le> length s"
  using ws_encodings_nonempty
  by (auto simp: ws_head_def find_Some_iff starts_with_iff) (metis nth_mem)

lemma ws_tail_pos: "ws_tail s = Some n \<Longrightarrow> 0 < n \<and> n \<le> length s"
proof -
  assume "ws_tail s = Some n"
  then obtain w r where w: "w \<in> set ws_encodings" and r: "rev s = rev w @ r" and n: "n = length w"
    by (auto simp: ws_tail_def find_Some_iff starts_with_iff) (metis nth_mem)
  from r have "length s = length w + length r" by (metis length_append length_rev)
  with w n ws_encodings_nonempty show ?thesis by auto
qed

function trim_start :: "string \<Rightarrow> string" where
  "trim_start s = (case ws_head s of None \<Rightarrow> s | Some n \<Rightarrow> trim_start (drop n s))"
  by pat_completeness auto
termination
  by (relation "measure length") (auto dest: ws_head_pos)

function trim_end :: "string \<Rightarrow> string" where
  "trim_end s = (case ws_tail s of None \<Rightarrow> s | Some n \<Rightarrow> trim_end (take (length s - n) s))"
  by pat_completeness auto
termination
  by (relation "measure length") (auto dest: ws_tail_pos)

declare trim_start.simps [simp del] trim_end.simps [simp del]

definition trim :: "string \<Rightarrow> string" where
  "trim s = trim_end (trim_start s)"

text \<open>\<open>split_once(char::is_whitespace)\<close>: at the first whitespace character.\<close>

fun split_once_ws :: "string \<Rightarrow> (string \<times> string) option" where
  "split_once_ws [] = None"
| "split_once_ws (c # s) =
     (case ws_head (c # s) of
        Some n \<Rightarrow> Some ([], drop n (c # s))
      | None \<Rightarrow> map_option (\<lambda>(a, b). (c # a, b)) (split_once_ws s))"

text \<open>\<open>str::lines\<close>: a final line feed ends the last line, and a carriage return before a line
  feed belongs to the line break.\<close>

definition strip_cr :: "string \<Rightarrow> string" where
  "strip_cr s = (case strip_suffix [CHR 0x0D] s of Some t \<Rightarrow> t | None \<Rightarrow> s)"

definition lines :: "string \<Rightarrow> string list" where
  "lines s =
     (let ls = split_char (CHR 0x0A) s
      in map strip_cr (butlast ls) @ (if last ls = [] then [] else [last ls]))"

text \<open>A string with no byte that begins a whitespace encoding: what the printable ASCII range
  guarantees.\<close>

definition plain_char :: "char \<Rightarrow> bool" where
  "plain_char c \<longleftrightarrow> 32 < (of_char c :: nat) \<and> (of_char c :: nat) < 128"

definition plain :: "string \<Rightarrow> bool" where
  "plain s \<longleftrightarrow> list_all plain_char s"

lemma plain_simps [simp]:
  "plain []" "plain (c # s) \<longleftrightarrow> plain_char c \<and> plain s" "plain (s @ t) \<longleftrightarrow> plain s \<and> plain t"
  by (auto simp: plain_def)

lemma ws_encoding_head_not_plain: "w \<in> set ws_encodings \<Longrightarrow> w = c # r \<Longrightarrow> \<not> plain_char c"
  by (auto simp: ws_encodings_def plain_char_def)

lemma ws_encoding_last_not_plain: "w \<in> set ws_encodings \<Longrightarrow> w = r @ [c] \<Longrightarrow> \<not> plain_char c"
  by (auto simp: ws_encodings_def plain_char_def append_eq_Cons_conv)

lemma ws_head_plain: "plain_char c \<Longrightarrow> ws_head (c # s) = None"
proof -
  assume c: "plain_char c"
  have "\<not> starts_with (c # s) w" if w: "w \<in> set ws_encodings" for w
  proof -
    obtain d r where "w = d # r" using w ws_encodings_nonempty by (metis neq_Nil_conv)
    with c ws_encoding_head_not_plain [OF w] show ?thesis by (auto simp: starts_with_iff)
  qed
  then show ?thesis by (auto simp: ws_head_def find_None_iff)
qed

lemma ws_tail_plain: "plain_char c \<Longrightarrow> ws_tail (s @ [c]) = None"
proof -
  assume c: "plain_char c"
  have "\<not> starts_with (rev (s @ [c])) (rev w)" if w: "w \<in> set ws_encodings" for w
  proof -
    obtain d r where "w = r @ [d]" using w ws_encodings_nonempty by (metis append_butlast_last_id)
    with c ws_encoding_last_not_plain [OF w] show ?thesis by (auto simp: starts_with_iff)
  qed
  then show ?thesis by (auto simp: ws_tail_def find_None_iff)
qed

lemma ws_head_Nil [simp]: "ws_head [] = None"
  using ws_encodings_nonempty by (auto simp: ws_head_def find_None_iff starts_with_iff)

lemma ws_tail_Nil [simp]: "ws_tail [] = None"
  using ws_encodings_nonempty by (auto simp: ws_tail_def find_None_iff starts_with_iff)

lemma trim_start_plain: "s = [] \<or> plain_char (hd s) \<Longrightarrow> trim_start s = s"
  by (subst trim_start.simps) (cases s; auto simp: ws_head_plain)

lemma trim_end_plain: "s = [] \<or> plain_char (last s) \<Longrightarrow> trim_end s = s"
  by (subst trim_end.simps) (cases s rule: rev_cases; auto simp: ws_tail_plain)

lemma trim_plain: "s = [] \<or> plain_char (hd s) \<and> plain_char (last s) \<Longrightarrow> trim s = s"
  by (auto simp: trim_def trim_start_plain trim_end_plain)

lemma plain_hd_last: "plain s \<Longrightarrow> s = [] \<or> plain_char (hd s) \<and> plain_char (last s)"
  by (auto simp: plain_def list_all_iff)

lemma trim_of_plain [simp]: "plain s \<Longrightarrow> trim s = s"
  by (rule trim_plain) (rule plain_hd_last)

lemma ws_head_space [simp]: "ws_head (CHR 0x20 # s) = Some 1"
  by (simp add: ws_head_def ws_encodings_def starts_with_def)

lemma split_once_ws_plain: "plain a \<Longrightarrow> split_once_ws (a @ CHR 0x20 # b) = Some (a, b)"
  by (induction a) (auto simp: ws_head_plain)

lemma split_once_ws_length: "split_once_ws s = Some (a, b) \<Longrightarrow> length b < length s"
proof (induction s arbitrary: a b)
  case Nil
  then show ?case by simp
next
  case (Cons c s)
  then show ?case
    by (auto split: option.splits dest: ws_head_pos less_SucI)
qed

function split_whitespace :: "string \<Rightarrow> string list" where
  "split_whitespace s =
     (case split_once_ws s of
        None \<Rightarrow> if s = [] then [] else [s]
      | Some (a, b) \<Rightarrow> (if a = [] then [] else [a]) @ split_whitespace b)"
  by pat_completeness auto
termination
  by (relation "measure length") (auto dest: split_once_ws_length)

declare split_whitespace.simps [simp del]

lemma plain_char_lt: "plain_char c \<Longrightarrow> (of_char c :: nat) < 128"
  by (simp add: plain_char_def)

lemma split_char_terminated:
  "\<forall>l\<in>set ls. c \<notin> set l \<Longrightarrow> split_char c (concat (map (\<lambda>l. l @ [c]) ls)) = ls @ [[]]"
  by (induction ls) (auto simp: split_char_append_sep)

lemma strip_cr_id: "l = [] \<or> last l \<noteq> CHR 0x0D \<Longrightarrow> strip_cr l = l"
  by (auto simp: strip_cr_def str_simps split: option.splits)

lemma lines_terminated:
  assumes "\<forall>l\<in>set ls. CHR 0x0A \<notin> set l \<and> (l = [] \<or> last l \<noteq> CHR 0x0D)"
  shows "lines (concat (map (\<lambda>l. l @ [CHR 0x0A]) ls)) = ls"
proof -
  from assms have "split_char (CHR 0x0A) (concat (map (\<lambda>l. l @ [CHR 0x0A]) ls)) = ls @ [[]]"
    by (intro split_char_terminated) auto
  moreover from assms have "map strip_cr ls = ls" by (intro map_idI strip_cr_id) auto
  ultimately show ?thesis by (simp add: lines_def Let_def)
qed

lemma plain_not_break: "plain s \<Longrightarrow> CHR 0x0A \<notin> set s \<and> CHR 0x0D \<notin> set s"
  by (induction s) (auto simp: plain_char_def)

section \<open>Environment variables\<close>

text \<open>\<open>std::env::var\<close> on an environment given as a map of raw values.\<close>

type_synonym environment = "string \<Rightarrow> string option"

definition env_flag :: "(string \<Rightarrow> bool) \<Rightarrow> environment \<Rightarrow> string \<Rightarrow> bool" where
  "env_flag utf8 env k =
     (case env k of
        Some v \<Rightarrow> utf8 v \<and> (v = ''1'' \<or> to_ascii_lowercase v = ''true'')
      | None \<Rightarrow> False)"

section \<open>Hash maps with a size\<close>

text \<open>A \<open>HashMap\<close> whose \<open>len\<close> the code reads is an association list with distinct keys;
  \<open>hm_insert\<close> replaces in place, \<open>map_of\<close> looks up.\<close>

fun hm_insert :: "'k \<Rightarrow> 'v \<Rightarrow> ('k \<times> 'v) list \<Rightarrow> ('k \<times> 'v) list" where
  "hm_insert k v [] = [(k, v)]"
| "hm_insert k v ((k', v') # m) = (if k = k' then (k, v) # m else (k', v') # hm_insert k v m)"

lemma hm_insert_lookup [simp]: "map_of (hm_insert k v m) = (map_of m)(k \<mapsto> v)"
  by (induction k v m rule: hm_insert.induct) auto

lemma hm_insert_keys [simp]: "fst ` set (hm_insert k v m) = insert k (fst ` set m)"
  by (induction k v m rule: hm_insert.induct) auto

lemma hm_insert_distinct: "distinct (map fst m) \<Longrightarrow> distinct (map fst (hm_insert k v m))"
proof (induction k v m rule: hm_insert.induct)
  case (2 k v k' v' m)
  have "set (map fst (hm_insert k v m)) = insert k (set (map fst m))" by simp
  with 2 show ?case by auto
qed simp

lemma hm_insert_mem: "(k', v') \<in> set (hm_insert k v m) \<Longrightarrow> (k' = k \<and> v' = v) \<or> (k', v') \<in> set m"
  by (induction k v m rule: hm_insert.induct) (auto split: if_splits)

lemma hm_insert_length: "length m \<le> length (hm_insert k v m) \<and> length (hm_insert k v m) \<le> Suc (length m)"
  by (induction k v m rule: hm_insert.induct) auto

end
