(* ===== verification/Bytes.thy ===== *)
theory Bytes
  imports Prelude
begin

text \<open>
  Byte strings on the wire: big- and little-endian integers of any width, checked slices
  (\<open>slice::get\<close>), UTF-8 validity (\<open>str::from_utf8\<close>), and the contract of a self-delimiting
  wire format as a locale. Every message of the protocol crates that is written with
  \<open>write_all\<close> and read with \<open>read_exact\<close> is an instance of \<open>wire_format\<close>, which gives it
  injectivity, unique parsing and the decoding of a whole stream.
\<close>

section \<open>Integers\<close>

definition be_nat :: "bytes \<Rightarrow> nat" where
  "be_nat bs = foldl (\<lambda>acc b. acc * 256 + unat b) 0 bs"

fun nat_be :: "nat \<Rightarrow> nat \<Rightarrow> bytes" where
  "nat_be 0 v = []"
| "nat_be (Suc n) v = nat_be n (v div 256) @ [of_nat (v mod 256)]"

definition le_nat :: "bytes \<Rightarrow> nat" where
  "le_nat bs = be_nat (rev bs)"

definition nat_le :: "nat \<Rightarrow> nat \<Rightarrow> bytes" where
  "nat_le n v = rev (nat_be n v)"

lemma be_nat_Nil [simp]: "be_nat [] = 0"
  by (simp add: be_nat_def)

lemma be_nat_snoc [simp]: "be_nat (bs @ [b]) = be_nat bs * 256 + unat b"
  by (simp add: be_nat_def)

lemma length_nat_be [be_simps, simp]: "length (nat_be n v) = n"
  by (induction n arbitrary: v) auto

lemma length_nat_le [be_simps, simp]: "length (nat_le n v) = n"
  by (simp add: nat_le_def)

lemma unat_u8_lt: "unat (b :: u8) < 256"
  using unsigned_less [of b, where ?'a = nat] by simp

lemma unat_of_nat_u8: "unat (of_nat v :: u8) = v mod 256"
  by (simp add: unat_of_nat)

lemma be_nat_nat_be: "be_nat (nat_be n v) = v mod 256 ^ n"
proof (induction n arbitrary: v)
  case 0
  then show ?case by simp
next
  case (Suc n)
  have "be_nat (nat_be (Suc n) v) = (v div 256 mod 256 ^ n) * 256 + v mod 256"
    by (simp add: Suc unat_of_nat_u8)
  also have "\<dots> = v mod 256 ^ Suc n"
    using mod_mult2_eq [of v 256 "256 ^ n"] by (simp add: mult.commute)
  finally show ?case .
qed

lemma be_nat_nat_be_id [be_simps]: "v < 256 ^ n \<Longrightarrow> be_nat (nat_be n v) = v"
  by (simp add: be_nat_nat_be)

lemma le_nat_nat_le_id [be_simps]: "v < 256 ^ n \<Longrightarrow> le_nat (nat_le n v) = v"
  by (simp add: le_nat_def nat_le_def be_nat_nat_be)

lemma be_nat_bound: "be_nat bs < 256 ^ length bs"
proof (induction bs rule: rev_induct)
  case Nil
  then show ?case by simp
next
  case (snoc b bs)
  then have "be_nat bs * 256 + 256 \<le> 256 ^ length bs * 256" by linarith
  with unat_u8_lt [of b] show ?case by simp
qed

lemma nat_be_be_nat [be_simps]: "length bs = n \<Longrightarrow> nat_be n (be_nat bs) = bs"
proof (induction bs arbitrary: n rule: rev_induct)
  case Nil
  then show ?case by simp
next
  case (snoc b bs)
  then show ?case using unat_u8_lt [of b] by auto
qed

lemma nat_be_inject: "v < 256 ^ n \<Longrightarrow> w < 256 ^ n \<Longrightarrow> nat_be n v = nat_be n w \<longleftrightarrow> v = w"
  by (metis be_nat_nat_be_id)

lemma list_two: "length xs = 2 \<longleftrightarrow> xs = [xs ! 0, xs ! 1]"
  by (cases xs; cases "tl xs") auto

lemma be_two: "v < 65536 \<Longrightarrow> be_nat [nat_be 2 v ! 0, nat_be 2 v ! 1] = v"
proof -
  assume "v < 65536"
  then have "be_nat (nat_be 2 v) = v" by (simp add: be_nat_nat_be_id)
  moreover have "nat_be 2 v = [nat_be 2 v ! 0, nat_be 2 v ! 1]" using list_two [of "nat_be 2 v"] by simp
  ultimately show ?thesis by simp
qed

section \<open>Slices\<close>

text \<open>\<open>buf.get(i)\<close>, \<open>buf.get(i..j)\<close> and \<open>buf.get(i..)\<close>.\<close>

definition get_at :: "'a list \<Rightarrow> nat \<Rightarrow> 'a option" where
  "get_at buf i = (if i < length buf then Some (buf ! i) else None)"

definition get_range :: "'a list \<Rightarrow> nat \<Rightarrow> nat \<Rightarrow> 'a list option" where
  "get_range buf i j = (if i \<le> j \<and> j \<le> length buf then Some (take (j - i) (drop i buf)) else None)"

definition get_from :: "'a list \<Rightarrow> nat \<Rightarrow> 'a list option" where
  "get_from buf i = (if i \<le> length buf then Some (drop i buf) else None)"

lemma get_range_append [simp]:
  "i = length a \<Longrightarrow> j = length a + length b \<Longrightarrow> get_range (a @ b @ c) i j = Some b"
  by (simp add: get_range_def)

lemma get_at_append [simp]: "get_at (a @ x # b) (length a) = Some x"
  by (simp add: get_at_def)

lemma length_get_range: "get_range buf i j = Some s \<Longrightarrow> length s = j - i"
  by (auto simp: get_range_def split: if_splits)

text \<open>\<open>read_exact\<close> on a stream of known contents: the next \<open>n\<close> bytes and the rest.\<close>

definition read_exact :: "nat \<Rightarrow> bytes \<Rightarrow> (bytes \<times> bytes) option" where
  "read_exact n s = (if n \<le> length s then Some (take n s, drop n s) else None)"

lemma read_exact_append [simp]: "length a = n \<Longrightarrow> read_exact n (a @ b) = Some (a, b)"
  by (auto simp: read_exact_def)

lemma read_exact_Some_iff:
  "read_exact n s = Some (a, b) \<longleftrightarrow> s = a @ b \<and> length a = n"
  by (auto simp: read_exact_def)

section \<open>Text in byte strings\<close>

definition bytes_str :: "bytes \<Rightarrow> string" where
  "bytes_str bs = map (\<lambda>b. char_of (unat b)) bs"

definition str_bytes :: "string \<Rightarrow> bytes" where
  "str_bytes s = map (\<lambda>c. of_nat (of_char c)) s"

lemma str_bytes_str [simp]: "bytes_str (str_bytes s) = s"
proof -
  have "char_of (unat (of_nat (of_char c) :: u8)) = c" for c :: char
    using of_char_lt_256 [of c] by (simp add: unat_of_nat_u8)
  then show ?thesis by (simp add: bytes_str_def str_bytes_def comp_def map_idI)
qed

lemma length_str_bytes [simp]: "length (str_bytes s) = length s"
  by (simp add: str_bytes_def)

lemma str_bytes_append [simp]: "str_bytes (a @ b) = str_bytes a @ str_bytes b"
  by (simp add: str_bytes_def)

definition utf8_cont :: "u8 \<Rightarrow> bool" where
  "utf8_cont b \<longleftrightarrow> 0x80 \<le> b \<and> b \<le> 0xBF"

fun valid_utf8 :: "bytes \<Rightarrow> bool" where
  "valid_utf8 [] = True"
| "valid_utf8 (b # r) =
     (if b \<le> 0x7F then valid_utf8 r
      else if 0xC2 \<le> b \<and> b \<le> 0xDF then
        (case r of c1 # r1 \<Rightarrow> utf8_cont c1 \<and> valid_utf8 r1 | _ \<Rightarrow> False)
      else if 0xE0 \<le> b \<and> b \<le> 0xEF then
        (case r of c1 # c2 # r2 \<Rightarrow>
           utf8_cont c1 \<and> (b = 0xE0 \<longrightarrow> 0xA0 \<le> c1) \<and> (b = 0xED \<longrightarrow> c1 \<le> 0x9F) \<and>
           utf8_cont c2 \<and> valid_utf8 r2
         | _ \<Rightarrow> False)
      else if 0xF0 \<le> b \<and> b \<le> 0xF4 then
        (case r of c1 # c2 # c3 # r3 \<Rightarrow>
           utf8_cont c1 \<and> (b = 0xF0 \<longrightarrow> 0x90 \<le> c1) \<and> (b = 0xF4 \<longrightarrow> c1 \<le> 0x8F) \<and>
           utf8_cont c2 \<and> utf8_cont c3 \<and> valid_utf8 r3
         | _ \<Rightarrow> False)
      else False)"

lemma valid_utf8_ascii: "\<forall>b\<in>set bs. b \<le> 0x7F \<Longrightarrow> valid_utf8 bs"
  by (induction bs) auto

definition from_utf8 :: "bytes \<Rightarrow> string option" where
  "from_utf8 bs = (if valid_utf8 bs then Some (bytes_str bs) else None)"

definition ascii :: "string \<Rightarrow> bool" where
  "ascii s \<longleftrightarrow> list_all (\<lambda>c. (of_char c :: nat) < 128) s"

lemma ascii_simps [simp]:
  "ascii []" "ascii (c # s) \<longleftrightarrow> (of_char c :: nat) < 128 \<and> ascii s" "ascii (s @ t) \<longleftrightarrow> ascii s \<and> ascii t"
  by (auto simp: ascii_def)

lemma ascii_concat [simp]: "ascii (concat ss) \<longleftrightarrow> list_all ascii ss"
  by (induction ss) auto

lemma plain_ascii: "plain s \<Longrightarrow> ascii s"
  by (induction s) (auto dest: plain_char_lt)

lemma from_utf8_ascii: "ascii s \<Longrightarrow> from_utf8 (str_bytes s) = Some s"
proof -
  assume "ascii s"
  then have "\<forall>b\<in>set (str_bytes s). b \<le> 0x7F"
    by (induction s) (auto simp: str_bytes_def word_le_nat_alt unat_of_nat)
  then show ?thesis by (simp add: from_utf8_def valid_utf8_ascii)
qed

section \<open>The contract of a wire format\<close>

locale wire_format =
  fixes enc :: "'a \<Rightarrow> bytes"
    and dec :: "bytes \<Rightarrow> ('a \<times> bytes) option"
    and ok :: "'a \<Rightarrow> bool"
  assumes dec_enc: "ok x \<Longrightarrow> dec (enc x @ rest) = Some (x, rest)"
begin

lemma unique_parse: "ok x \<Longrightarrow> ok y \<Longrightarrow> enc x @ r = enc y @ s \<Longrightarrow> x = y \<and> r = s"
  by (metis dec_enc option.inject prod.inject)

lemma enc_inj: "inj_on enc (Collect ok)"
proof (rule inj_onI)
  fix x y assume "x \<in> Collect ok" "y \<in> Collect ok" "enc x = enc y"
  then show "x = y" using unique_parse [of x y "[]" "[]"] by simp
qed

lemma no_proper_prefix: "ok x \<Longrightarrow> ok y \<Longrightarrow> enc y = enc x @ r \<Longrightarrow> r = []"
  using unique_parse [of x y r "[]"] by simp

primrec dec_many :: "nat \<Rightarrow> bytes \<Rightarrow> ('a list \<times> bytes) option" where
  "dec_many 0 s = Some ([], s)"
| "dec_many (Suc n) s =
     (case dec s of
        None \<Rightarrow> None
      | Some (x, r) \<Rightarrow> map_option (\<lambda>(xs, r'). (x # xs, r')) (dec_many n r))"

lemma dec_many_stream:
  "list_all ok xs \<Longrightarrow> dec_many (length xs) (concat (map enc xs) @ rest) = Some (xs, rest)"
  by (induction xs) (auto simp: dec_enc)

lemma stream_inj:
  assumes "list_all ok xs" "list_all ok ys" "\<And>x. enc x \<noteq> []" "concat (map enc xs) = concat (map enc ys)"
  shows "xs = ys"
  using assms(1,2,4)
proof (induction xs arbitrary: ys)
  case Nil
  then show ?case using assms(3) by (cases ys) simp_all
next
  case (Cons x xs)
  show ?case
  proof (cases ys)
    case Nil
    with Cons.prems(3) assms(3) show ?thesis by simp
  next
    case ys: (Cons y zs)
    with Cons.prems unique_parse [of x y "concat (map enc xs)" "concat (map enc zs)"]
    have "x = y" "concat (map enc xs) = concat (map enc zs)" by simp_all
    with Cons.IH [of zs] Cons.prems(1,2) ys show ?thesis by simp
  qed
qed

end

text \<open>A format whose decoder accepts nothing but encodings.\<close>

locale canonical_format = wire_format enc dec ok
  for enc :: "'a \<Rightarrow> bytes" and dec :: "bytes \<Rightarrow> ('a \<times> bytes) option" and ok :: "'a \<Rightarrow> bool" +
  assumes dec_canonical: "dec s = Some (x, rest) \<Longrightarrow> ok x \<and> s = enc x @ rest"
begin

lemma dec_iff: "dec s = Some (x, rest) \<longleftrightarrow> ok x \<and> s = enc x @ rest"
  using dec_enc dec_canonical by blast

lemma dec_extend: "dec s = Some (x, rest) \<Longrightarrow> dec (s @ tail) = Some (x, rest @ tail)"
  by (simp add: dec_iff)

end

definition dec_uint :: "nat \<Rightarrow> bytes \<Rightarrow> (nat \<times> bytes) option" where
  "dec_uint n s = map_option (\<lambda>(a, r). (be_nat a, r)) (read_exact n s)"

interpretation be_uint: wire_format "nat_be n" "dec_uint n" "\<lambda>v. v < 256 ^ n" for n
  by unfold_locales (simp add: dec_uint_def be_simps)

end
