(* ===== verification/Ip_Addr.thy ===== *)
theory Ip_Addr
  imports Prelude
begin

text \<open>
  IP addresses as Rust's \<open>std::net\<close> has them: \<open>IpAddr\<close>, the classification predicates of
  \<open>Ipv4Addr\<close> and \<open>Ipv6Addr\<close> the egress policy calls, and the text parser behind
  \<open>parse::<IpAddr>()\<close> (dotted quads without leading zeros; hexadecimal groups with at most one
  \<open>::\<close> and an optional trailing dotted quad).
\<close>

unbundle bit_operations_syntax

datatype ip_addr = V4 u32 | V6 u128

section \<open>Classification\<close>

definition v4_octets :: "u32 \<Rightarrow> u8 \<times> u8 \<times> u8 \<times> u8" where
  "v4_octets ip = (ucast (drop_bit 24 ip), ucast (drop_bit 16 ip), ucast (drop_bit 8 ip), ucast ip)"

definition ipv4 :: "u8 \<Rightarrow> u8 \<Rightarrow> u8 \<Rightarrow> u8 \<Rightarrow> u32" where
  "ipv4 a b c d =
     push_bit 24 (ucast a) OR push_bit 16 (ucast b) OR push_bit 8 (ucast c) OR ucast d"

definition v4_is_loopback :: "u32 \<Rightarrow> bool" where
  "v4_is_loopback ip \<longleftrightarrow> (case v4_octets ip of (a, _, _, _) \<Rightarrow> a = 127)"

definition v4_is_link_local :: "u32 \<Rightarrow> bool" where
  "v4_is_link_local ip \<longleftrightarrow> (case v4_octets ip of (a, b, _, _) \<Rightarrow> a = 169 \<and> b = 254)"

definition v4_is_private :: "u32 \<Rightarrow> bool" where
  "v4_is_private ip \<longleftrightarrow>
     (case v4_octets ip of (a, b, _, _) \<Rightarrow>
        a = 10 \<or> a = 172 \<and> 16 \<le> b \<and> b \<le> 31 \<or> a = 192 \<and> b = 168)"

definition v4_is_unspecified :: "u32 \<Rightarrow> bool" where
  "v4_is_unspecified ip \<longleftrightarrow> ip = 0"

definition v4_is_broadcast :: "u32 \<Rightarrow> bool" where
  "v4_is_broadcast ip \<longleftrightarrow> ip = 0xFFFFFFFF"

definition v6_segment0 :: "u128 \<Rightarrow> u16" where
  "v6_segment0 ip = ucast (drop_bit 112 ip)"

definition v6_is_loopback :: "u128 \<Rightarrow> bool" where
  "v6_is_loopback ip \<longleftrightarrow> ip = 1"

definition v6_is_unspecified :: "u128 \<Rightarrow> bool" where
  "v6_is_unspecified ip \<longleftrightarrow> ip = 0"

definition to_ipv4_mapped :: "u128 \<Rightarrow> u32 option" where
  "to_ipv4_mapped ip = (if drop_bit 32 ip = 0xFFFF then Some (ucast ip) else None)"

definition to_ipv6_mapped :: "u32 \<Rightarrow> u128" where
  "to_ipv6_mapped ip = push_bit 32 0xFFFF OR ucast ip"

lemma to_ipv4_mapped_of_mapped [simp]: "to_ipv4_mapped (to_ipv6_mapped ip) = Some ip"
proof -
  have d: "drop_bit 32 (ucast ip :: u128) = 0"
    by (rule bit_word_eqI) (auto simp: bit_drop_bit_eq bit_ucast_iff dest: bit_imp_le_length)
  have zero_ne: "(281470681743360 :: u32) = 0" by simp
  have "drop_bit 32 (to_ipv6_mapped ip) = 0xFFFF"
    by (simp add: to_ipv6_mapped_def drop_bit_or d)
  moreover have "(ucast (ucast ip :: u128) :: u32) = ip"
    by (rule bit_word_eqI) (auto simp: bit_ucast_iff)
  then have "(ucast (to_ipv6_mapped ip) :: u32) = ip"
    by (simp add: to_ipv6_mapped_def unsigned_or_eq, simp only: zero_ne or.left_neutral)
  ultimately show ?thesis by (simp add: to_ipv4_mapped_def)
qed

section \<open>Parsing\<close>

definition to_digit :: "nat \<Rightarrow> char \<Rightarrow> nat option" where
  "to_digit radix c =
     (let n = of_char c :: nat;
          d = (if 48 \<le> n \<and> n \<le> 57 then Some (n - 48)
               else if 97 \<le> n \<and> n \<le> 122 then Some (n - 97 + 10)
               else if 65 \<le> n \<and> n \<le> 90 then Some (n - 65 + 10)
               else None)
      in case d of Some v \<Rightarrow> if v < radix then Some v else None | None \<Rightarrow> None)"

definition digits_value :: "nat \<Rightarrow> string \<Rightarrow> nat" where
  "digits_value radix ds =
     foldl (\<lambda>acc c. acc * radix + (case to_digit radix c of Some d \<Rightarrow> d | None \<Rightarrow> 0)) 0 ds"

definition is_digit_of :: "nat \<Rightarrow> char \<Rightarrow> bool" where
  "is_digit_of radix c \<longleftrightarrow> to_digit radix c \<noteq> None"

text \<open>\<open>Parser::read_number\<close>: the longest run of digits, refused when it is empty, longer than
  \<open>max_digits\<close>, padded with zeros where that is not allowed, or out of the type's range.\<close>

definition read_number :: "nat \<Rightarrow> nat \<Rightarrow> bool \<Rightarrow> nat \<Rightarrow> string \<Rightarrow> (nat \<times> string) option" where
  "read_number radix max_digits allow_zero_prefix bound s =
     (let ds = takeWhile (is_digit_of radix) s
      in if ds = [] \<or> max_digits < length ds \<or>
            \<not> allow_zero_prefix \<and> hd ds = CHR ''0'' \<and> 1 < length ds \<or>
            bound \<le> digits_value radix ds
         then None else Some (digits_value radix ds, drop (length ds) s))"

definition read_separator ::
  "char \<Rightarrow> nat \<Rightarrow> (string \<Rightarrow> ('a \<times> string) option) \<Rightarrow> string \<Rightarrow> ('a \<times> string) option" where
  "read_separator sep i inner s =
     (if i = 0 then inner s
      else case s of [] \<Rightarrow> None | c # r \<Rightarrow> if c = sep then inner r else None)"

fun read_ipv4_octets :: "nat \<Rightarrow> nat \<Rightarrow> string \<Rightarrow> (nat list \<times> string) option" where
  "read_ipv4_octets 0 i s = Some ([], s)"
| "read_ipv4_octets (Suc n) i s =
     (case read_separator (CHR ''.'') i (read_number 10 3 False 256) s of
        None \<Rightarrow> None
      | Some (g, r) \<Rightarrow> map_option (\<lambda>(gs, r'). (g # gs, r')) (read_ipv4_octets n (Suc i) r))"

definition read_ipv4_addr :: "string \<Rightarrow> (u32 \<times> string) option" where
  "read_ipv4_addr s =
     map_option (\<lambda>(gs, r). (of_nat (foldl (\<lambda>acc g. acc * 256 + g) 0 gs), r)) (read_ipv4_octets 4 0 s)"

fun read_groups :: "nat \<Rightarrow> nat \<Rightarrow> string \<Rightarrow> nat list \<times> bool \<times> string" where
  "read_groups 0 i s = ([], False, s)"
| "read_groups (Suc n) i s =
     (case (if 1 \<le> n then read_separator (CHR '':'') i read_ipv4_addr s else None) of
        Some (ip, r) \<Rightarrow> ([unat ip div 65536, unat ip mod 65536], True, r)
      | None \<Rightarrow>
          (case read_separator (CHR '':'') i (read_number 16 4 True 65536) s of
             None \<Rightarrow> ([], False, s)
           | Some (g, r) \<Rightarrow> (case read_groups n (Suc i) r of (gs, v4, r') \<Rightarrow> (g # gs, v4, r'))))"

definition ipv6_of_groups :: "nat list \<Rightarrow> u128" where
  "ipv6_of_groups gs = of_nat (foldl (\<lambda>acc g. acc * 65536 + g) 0 gs)"

definition read_ipv6_addr :: "string \<Rightarrow> (u128 \<times> string) option" where
  "read_ipv6_addr s =
     (case read_groups 8 0 s of (head, v4, r) \<Rightarrow>
        if length head = 8 then Some (ipv6_of_groups head, r)
        else if v4 then None
        else (case strip_prefix ''::'' r of
                None \<Rightarrow> None
              | Some r2 \<Rightarrow>
                  (case read_groups (8 - (length head + 1)) 0 r2 of (tail, _, r3) \<Rightarrow>
                     Some (ipv6_of_groups (head @ replicate (8 - length head - length tail) 0 @ tail), r3))))"

definition parse_ip :: "string \<Rightarrow> ip_addr option" where
  "parse_ip s =
     (case read_ipv4_addr s of
        Some (ip, r) \<Rightarrow> if r = [] then Some (V4 ip) else None
      | None \<Rightarrow>
          (case read_ipv6_addr s of
             Some (ip, r) \<Rightarrow> if r = [] then Some (V6 ip) else None
           | None \<Rightarrow> None))"

text \<open>\<open>str::parse\<close> at an unsigned type of \<open>bound\<close> values: an optional plus sign and at least
  one decimal digit.\<close>

definition parse_uint :: "nat \<Rightarrow> string \<Rightarrow> nat option" where
  "parse_uint bound s =
     (let ds = (case s of c # r \<Rightarrow> if c = CHR ''+'' then r else s | [] \<Rightarrow> [])
      in if ds = [] \<or> \<not> list_all (is_digit_of 10) ds \<or> bound \<le> digits_value 10 ds
         then None else Some (digits_value 10 ds))"

lemma parse_uint_bound: "parse_uint bound s = Some n \<Longrightarrow> n < bound"
  by (auto simp: parse_uint_def Let_def split: if_splits list.splits)

section \<open>Printing\<close>

text \<open>\<open>Display\<close> of the address types: decimal octets; lower-case hexadecimal groups with the first
  longest run of at least two zero groups compressed, and the dotted form for mapped addresses.\<close>

fun digit_char :: "nat \<Rightarrow> char" where
  "digit_char n = (if n < 10 then char_of (48 + n) else char_of (87 + n))"

fun show_radix :: "nat \<Rightarrow> nat \<Rightarrow> string" where
  "show_radix radix n =
     (if n < radix \<or> radix < 2 then [digit_char n]
      else show_radix radix (n div radix) @ [digit_char (n mod radix)])"

declare show_radix.simps [simp del]

fun join_with :: "string \<Rightarrow> string list \<Rightarrow> string" where
  "join_with sep [] = []"
| "join_with sep [w] = w"
| "join_with sep (w # v # ws) = w @ sep @ join_with sep (v # ws)"

definition v4_to_string :: "u32 \<Rightarrow> string" where
  "v4_to_string a =
     (case v4_octets a of (o1, o2, o3, o4) \<Rightarrow>
        join_with ''.'' (map (\<lambda>b. show_radix 10 (unat b)) [o1, o2, o3, o4]))"

definition v6_segments :: "u128 \<Rightarrow> nat list" where
  "v6_segments a = map (\<lambda>k. unat a div 65536 ^ k mod 65536) [7, 6, 5, 4, 3, 2, 1, 0]"

fun longest_zeros :: "nat list \<Rightarrow> nat \<Rightarrow> nat \<times> nat \<Rightarrow> nat \<times> nat \<Rightarrow> nat \<times> nat" where
  "longest_zeros [] i cur best = best"
| "longest_zeros (s # ss) i (cstart, clen) best =
     (if s = 0 then
        (let cur = (if clen = 0 then (i, 1) else (cstart, clen + 1))
         in longest_zeros ss (Suc i) cur (if snd best < snd cur then cur else best))
      else longest_zeros ss (Suc i) (0, 0) best)"

definition v6_to_string :: "u128 \<Rightarrow> string" where
  "v6_to_string a =
     (case to_ipv4_mapped a of
        Some v4 \<Rightarrow> ''::ffff:'' @ v4_to_string v4
      | None \<Rightarrow>
          let segs = v6_segments a;
              (start, len) = longest_zeros segs 0 (0, 0) (0, 0);
              hex = (\<lambda>ss. join_with '':'' (map (show_radix 16) ss))
          in if 1 < len then hex (take start segs) @ ''::'' @ hex (drop (start + len) segs)
             else hex segs)"

definition ip_to_string :: "ip_addr \<Rightarrow> string" where
  "ip_to_string a = (case a of V4 v \<Rightarrow> v4_to_string v | V6 v \<Rightarrow> v6_to_string v)"

section \<open>Prefix masks\<close>

lemma and_prefix_mask_eq_iff:
  fixes a b :: "'a::len word"
  shows "a AND push_bit k (- 1) = b AND push_bit k (- 1) \<longleftrightarrow> drop_bit k a = drop_bit k b"
proof
  assume "a AND push_bit k (- 1) = b AND push_bit k (- 1)"
  then have *: "bit (a AND push_bit k (- 1)) n = bit (b AND push_bit k (- 1)) n" for n by simp
  show "drop_bit k a = drop_bit k b"
  proof (rule bit_word_eqI)
    fix n assume "n < LENGTH('a)"
    then show "bit (drop_bit k a) n \<longleftrightarrow> bit (drop_bit k b) n"
      using * [of "k + n"] by (auto simp: bit_simps dest: bit_imp_le_length)
  qed
next
  assume "drop_bit k a = drop_bit k b"
  then have *: "bit (drop_bit k a) n = bit (drop_bit k b) n" for n by simp
  show "a AND push_bit k (- 1) = b AND push_bit k (- 1)"
  proof (rule bit_word_eqI)
    fix n assume "n < LENGTH('a)"
    then show "bit (a AND push_bit k (- 1)) n \<longleftrightarrow> bit (b AND push_bit k (- 1)) n"
      using * [of "n - k"] by (auto simp: bit_simps)
  qed
qed

end
