(* ===== verification/Host_Pattern.thy ===== *)
theory Host_Pattern
  imports Ip_Addr
begin

text \<open>
  Persisted network host entries (\<open>crates/smolvm-protocol/src/host_pattern.rs\<close>): the encoder of
  opt-in strict patterns and the matcher. A bare entry admits the name and its subdomains, \<open>=host\<close>
  the name alone, \<open>*.host\<close> its subdomains alone. The abstract specification is a predicate on
  sequences of DNS labels; the byte-level matcher is shown to refine it.
\<close>

section \<open>The code\<close>

datatype host_pattern_error = InvalidHostPattern string

definition invalid_label :: "string \<Rightarrow> bool" where
  "invalid_label label \<longleftrightarrow>
     label = [] \<or> 63 < length label \<or>
     starts_with label ''-'' \<or> ends_with_char label (CHR ''-'') \<or>
     \<not> list_all (\<lambda>b. is_ascii_alphanumeric b \<or> b = CHR ''-'') label"

definition encode_strict :: "string \<Rightarrow> host_pattern_error + string" where
  "encode_strict pattern0 =
     (let pattern = (case strip_suffix ''.'' pattern0 of Some p \<Rightarrow> p | None \<Rightarrow> pattern0);
          (host, wildcard) =
            (case strip_prefix ''*.'' pattern of Some h \<Rightarrow> (h, True) | None \<Rightarrow> (pattern, False));
          empty_host = (host = []);
          name_too_long = (253 < length host);
          extra_wildcard = (CHR ''*'' \<in> set host);
          ip_literal = (\<not> wildcard \<and> parse_ip host \<noteq> None);
          any_invalid = list_ex invalid_label (split_char (CHR ''.'') host)
      in if empty_host \<or> name_too_long \<or> extra_wildcard \<or> ip_literal \<or> any_invalid
         then Inl (InvalidHostPattern pattern)
         else Inr (if wildcard then ''*.'' @ to_ascii_lowercase host
                   else ''='' @ to_ascii_lowercase host))"

definition host_matches :: "string \<Rightarrow> string \<Rightarrow> bool" where
  "host_matches host0 entry0 =
     (let host = to_ascii_lowercase (trim_end_matches (CHR ''.'') host0);
          entry = to_ascii_lowercase (trim_end_matches (CHR ''.'') entry0)
      in case strip_prefix ''='' entry of
           Some exact \<Rightarrow> exact \<noteq> [] \<and> host = exact
         | None \<Rightarrow>
             (case strip_prefix ''*.'' entry of
                Some suffix \<Rightarrow>
                  suffix \<noteq> [] \<and>
                  (case strip_suffix suffix host of
                     Some prefix \<Rightarrow> ends_with_char prefix (CHR ''.'') \<and> 1 < length prefix
                   | None \<Rightarrow> False)
              | None \<Rightarrow>
                  entry \<noteq> [] \<and>
                  (host = entry \<or>
                   (case strip_suffix entry host of
                      Some prefix \<Rightarrow> ends_with_char prefix (CHR ''.'')
                    | None \<Rightarrow> False))))"

definition static_resolution_host :: "string \<Rightarrow> string option" where
  "static_resolution_host entry =
     (if starts_with entry ''*.'' then None
      else Some (case strip_prefix ''='' entry of Some h \<Rightarrow> h | None \<Rightarrow> entry))"

section \<open>Abstract specification: patterns over label sequences\<close>

datatype host_rule = Exact "string list" | Subdomains "string list" | Apex_and_subdomains "string list"

text \<open>A name is the list of its labels, most specific first; \<open>rule_admits\<close> never looks inside a
  label, so no admitted name merely ends in the same characters as the entry.\<close>

fun rule_admits :: "host_rule \<Rightarrow> string list \<Rightarrow> bool" where
  "rule_admits (Exact ls) ns \<longleftrightarrow> ns = ls"
| "rule_admits (Subdomains ls) ns \<longleftrightarrow> (\<exists>sub. sub \<noteq> [] \<and> ns = sub @ ls)"
| "rule_admits (Apex_and_subdomains ls) ns \<longleftrightarrow> (\<exists>sub. ns = sub @ ls)"

abbreviation labels :: "string \<Rightarrow> string list" where
  "labels s \<equiv> split_char (CHR ''.'') s"

definition normal_name :: "string \<Rightarrow> string" where
  "normal_name s = to_ascii_lowercase (trim_end_matches (CHR ''.'') s)"

text \<open>A DNS name proper: at least one label and none of them empty.\<close>

definition dns_name :: "string \<Rightarrow> bool" where
  "dns_name s \<longleftrightarrow> [] \<notin> set (labels s)"

section \<open>Splitting names at dots\<close>

lemma split_char_append_sep_gen:
  "split_char c (a @ c # b) = split_char c a @ split_char c b"
proof (induction a)
  case Nil
  then show ?case by simp
next
  case (Cons x a)
  then show ?case by (cases "split_char c a") auto
qed

fun join_char :: "'a \<Rightarrow> 'a list list \<Rightarrow> 'a list" where
  "join_char c [] = []"
| "join_char c [w] = w"
| "join_char c (w # v # ws) = w @ c # join_char c (v # ws)"

lemma join_split [simp]: "join_char c (split_char c s) = s"
proof (induction s)
  case Nil
  then show ?case by simp
next
  case (Cons x xs)
  then show ?case by (cases "split_char c xs"; cases "tl (split_char c xs)") auto
qed

lemma split_join: "ws \<noteq> [] \<Longrightarrow> \<forall>w\<in>set ws. c \<notin> set w \<Longrightarrow> split_char c (join_char c ws) = ws"
  by (induction c ws rule: join_char.induct) (auto simp: split_char_append_sep)

lemma join_append: "us \<noteq> [] \<Longrightarrow> vs \<noteq> [] \<Longrightarrow>
  join_char c (us @ vs) = join_char c us @ c # join_char c vs"
proof (induction c us rule: join_char.induct)
  case (2 c w)
  then show ?case by (cases vs) auto
qed auto

lemma labels_inject: "labels s = labels t \<longleftrightarrow> s = t"
  by (metis join_split)

lemma dns_name_nonempty: "dns_name s \<Longrightarrow> s \<noteq> []"
  by (auto simp: dns_name_def)

text \<open>The heart of the matter: a dot-bounded suffix of the text is a suffix of the labels.\<close>

lemma labels_suffix_iff:
  "(\<exists>sub. sub \<noteq> [] \<and> labels host = sub @ labels e) \<longleftrightarrow> (\<exists>p. host = p @ CHR ''.'' # e)"
proof
  assume "\<exists>sub. sub \<noteq> [] \<and> labels host = sub @ labels e"
  then obtain sub where "sub \<noteq> []" "labels host = sub @ labels e" by blast
  then have "host = join_char (CHR ''.'') sub @ CHR ''.'' # e"
    by (metis join_append join_split split_char_not_Nil)
  then show "\<exists>p. host = p @ CHR ''.'' # e" by blast
next
  assume "\<exists>p. host = p @ CHR ''.'' # e"
  then obtain p where "host = p @ CHR ''.'' # e" by blast
  then have "labels host = labels p @ labels e" by (simp add: split_char_append_sep_gen)
  then show "\<exists>sub. sub \<noteq> [] \<and> labels host = sub @ labels e" by (metis split_char_not_Nil)
qed

lemma strip_suffix_dot_iff:
  "(case strip_suffix e host of Some p \<Rightarrow> ends_with_char p (CHR ''.'') \<and> P p | None \<Rightarrow> False) \<longleftrightarrow>
     (\<exists>p. host = p @ CHR ''.'' # e \<and> P (p @ ''.''))"
proof (cases "strip_suffix e host")
  case None
  then have "\<nexists>p. host = p @ CHR ''.'' # e"
    by (auto simp: strip_suffix_None_iff)
  with None show ?thesis by simp
next
  case (Some q)
  then have "host = q @ e" by (simp add: str_simps)
  with Some show ?thesis by (auto simp: ends_with_char_iff)
qed

lemma strip_suffix_dot_iff':
  "(case strip_suffix e host of Some p \<Rightarrow> ends_with_char p (CHR ''.'') | None \<Rightarrow> False) \<longleftrightarrow>
     (\<exists>p. host = p @ CHR ''.'' # e)"
  using strip_suffix_dot_iff [where e = e and host = host and P = "\<lambda>_. True"]
  by (simp cong: option.case_cong)

section \<open>The matcher refines the specification\<close>

lemma lower_not_letter:
  "ascii_lower c = CHR ''='' \<longleftrightarrow> c = CHR ''=''" "ascii_lower c = CHR ''*'' \<longleftrightarrow> c = CHR ''*''"
  "ascii_lower c = CHR ''.'' \<longleftrightarrow> c = CHR ''.''" "ascii_lower c = CHR ''-'' \<longleftrightarrow> c = CHR ''-''"
  by (rule ascii_lower_eq_non_letter; simp)+

lemma labels_lower: "labels (to_ascii_lowercase s) = map to_ascii_lowercase (labels s)"
proof (induction s)
  case Nil
  then show ?case by (simp add: to_ascii_lowercase_def)
next
  case (Cons c s)
  then show ?case
    by (cases "labels s") (auto simp: to_ascii_lowercase_def lower_not_letter)
qed

lemma dns_name_lower [simp]: "dns_name (to_ascii_lowercase s) = dns_name s"
  by (auto simp: dns_name_def labels_lower) (metis image_eqI to_ascii_lowercase_Nil_iff)+

lemma dns_name_last: "dns_name s \<Longrightarrow> last s \<noteq> CHR ''.''"
proof
  assume "dns_name s" "last s = CHR ''.''"
  then obtain p where "s = p @ CHR ''.'' # []"
    by (metis append_butlast_last_id dns_name_nonempty)
  then have "[] \<in> set (labels s)" by (simp add: split_char_append_sep_gen)
  with \<open>dns_name s\<close> show False by (simp add: dns_name_def)
qed

lemma dns_name_hd: "dns_name s \<Longrightarrow> hd s \<noteq> CHR ''.''"
  by (cases s) (auto simp: dns_name_def)

lemma normal_name_dns: "dns_name s \<Longrightarrow> normal_name s = to_ascii_lowercase s"
  using dns_name_last by (simp add: normal_name_def trim_end_matches_id)

lemma normal_name_prefixed: "dns_name e \<Longrightarrow> normal_name (p @ e) = to_ascii_lowercase (p @ e)"
  using dns_name_last dns_name_nonempty by (simp add: normal_name_def trim_end_matches_id)

text \<open>What an entry of each syntactic form admits, in terms of labels.\<close>

lemma host_matches_exact_iff:
  assumes "dns_name e"
  shows "host_matches h (CHR ''='' # e) \<longleftrightarrow>
    rule_admits (Exact (labels (to_ascii_lowercase e))) (labels (normal_name h))"
proof -
  have "normal_name (CHR ''='' # e) = CHR ''='' # to_ascii_lowercase e"
    using normal_name_prefixed [OF assms, of "''=''"] by (simp add: to_ascii_lowercase_def ascii_lower_def)
  with assms dns_name_nonempty show ?thesis
    by (auto simp: host_matches_def Let_def normal_name_def labels_inject strip_prefix_def)
qed

lemma host_matches_wildcard_iff:
  assumes e: "dns_name e" and h: "dns_name h"
  shows "host_matches h (''*.'' @ e) \<longleftrightarrow>
    rule_admits (Subdomains (labels (to_ascii_lowercase e))) (labels (normal_name h))"
proof -
  let ?e = "to_ascii_lowercase e" and ?h = "to_ascii_lowercase h"
  have entry: "to_ascii_lowercase (trim_end_matches (CHR ''.'') (CHR ''*'' # CHR ''.'' # e)) = ''*.'' @ ?e"
    using normal_name_prefixed [OF e, of "''*.''"] by (simp add: normal_name_def to_ascii_lowercase_def ascii_lower_def)
  have "hd ?h \<noteq> CHR ''.''" using h dns_name_hd [of ?h] by simp
  then have ne: "p \<noteq> []" if "?h = p @ CHR ''.'' # ?e" for p using that by auto
  have "host_matches h (''*.'' @ e) \<longleftrightarrow> (\<exists>p. ?h = p @ CHR ''.'' # ?e \<and> 1 < length (p @ ''.''))"
    using entry e dns_name_nonempty [of e] strip_suffix_dot_iff [where e = ?e and host = ?h and P = "\<lambda>p. 1 < length p"]
    by (simp add: host_matches_def Let_def normal_name_dns [OF h, unfolded normal_name_def] strip_prefix_def)
  also have "\<dots> \<longleftrightarrow> (\<exists>p. ?h = p @ CHR ''.'' # ?e)" using ne by auto
  also have "\<dots> \<longleftrightarrow> (\<exists>sub. sub \<noteq> [] \<and> labels ?h = sub @ labels ?e)" by (simp only: labels_suffix_iff)
  finally show ?thesis by (simp add: normal_name_dns [OF h])
qed

lemma host_matches_bare_iff:
  assumes e: "dns_name e" and mark: "hd e \<noteq> CHR ''=''" "hd e \<noteq> CHR ''*''"
  shows "host_matches h e \<longleftrightarrow>
    rule_admits (Apex_and_subdomains (labels (to_ascii_lowercase e))) (labels (normal_name h))"
proof -
  let ?e = "to_ascii_lowercase e" and ?h = "normal_name h"
  have hd: "hd ?e \<noteq> CHR ''=''" "hd ?e \<noteq> CHR ''*''" and ne: "?e \<noteq> []"
    using mark dns_name_nonempty [OF e] by (simp_all add: to_ascii_lowercase_def hd_map lower_not_letter)
  then have "strip_prefix ''='' ?e = None" "strip_prefix ''*.'' ?e = None"
    by (auto simp: strip_prefix_None_iff)
  then have "host_matches h e \<longleftrightarrow> ?h = ?e \<or> (\<exists>p. ?h = p @ CHR ''.'' # ?e)"
    using ne strip_suffix_dot_iff' [of ?e ?h]
    by (simp add: host_matches_def Let_def normal_name_dns [OF e, unfolded normal_name_def] normal_name_def)
  also have "\<dots> \<longleftrightarrow> labels ?h = labels ?e \<or> (\<exists>sub. sub \<noteq> [] \<and> labels ?h = sub @ labels ?e)"
    by (simp only: labels_suffix_iff labels_inject)
  also have "\<dots> \<longleftrightarrow> (\<exists>sub. labels ?h = sub @ labels ?e)" by (metis append_Nil)
  finally show ?thesis by simp
qed

section \<open>Strict patterns\<close>

text \<open>The rule a user means by a strict pattern: \<open>*.host\<close> the subdomains of \<open>host\<close>, anything else the
  name itself; one trailing dot is the DNS root.\<close>

definition strict_rule :: "string \<Rightarrow> host_rule" where
  "strict_rule pattern =
     (let p = (if ends_with_char pattern (CHR ''.'') then butlast pattern else pattern) in
      if take 2 p = ''*.'' then Subdomains (labels (to_ascii_lowercase (drop 2 p)))
      else Exact (labels (to_ascii_lowercase p)))"

lemma normal_name_idem [simp]: "normal_name (normal_name h) = normal_name h"
proof -
  let ?t = "trim_end_matches (CHR ''.'') h"
  have "to_ascii_lowercase ?t = [] \<or> last (to_ascii_lowercase ?t) \<noteq> CHR ''.''"
    using trim_end_matches_last [of "CHR ''.''" h]
    by (cases "?t = []") (simp_all add: to_ascii_lowercase_def last_map lower_not_letter)
  then show ?thesis by (simp add: normal_name_def trim_end_matches_id)
qed

lemma host_matches_normal: "host_matches (normal_name h) e = host_matches h e"
  using normal_name_idem [of h] by (simp add: host_matches_def normal_name_def Let_def)

lemma host_matches_wildcard:
  "dns_name e \<Longrightarrow> dns_name (normal_name h) \<Longrightarrow>
   host_matches h (''*.'' @ e) \<longleftrightarrow>
   rule_admits (Subdomains (labels (to_ascii_lowercase e))) (labels (normal_name h))"
  using host_matches_wildcard_iff [of e "normal_name h"] by (simp add: host_matches_normal)

lemma strip_suffix_dot_butlast:
  "(case strip_suffix ''.'' s of Some p \<Rightarrow> p | None \<Rightarrow> s) =
   (if ends_with_char s (CHR ''.'') then butlast s else s)"
  by (auto simp: str_simps strip_suffix_None_iff split: option.splits)

lemma strip_prefix_star:
  "(case strip_prefix ''*.'' s of Some h \<Rightarrow> (h, True) | None \<Rightarrow> (s, False)) =
   (if take 2 s = ''*.'' then (drop 2 s, True) else (s, False))"
  by (auto simp: strip_prefix_def numeral_2_eq_2)

lemma valid_labels_dns_name: "\<not> list_ex invalid_label (labels h) \<Longrightarrow> dns_name h"
  by (auto simp: dns_name_def list_ex_iff invalid_label_def)

lemma encode_strict_Inr:
  assumes "encode_strict pattern = Inr e"
  obtains
    (wildcard) h where "dns_name h" "strict_rule pattern = Subdomains (labels (to_ascii_lowercase h))"
      "e = ''*.'' @ to_ascii_lowercase h"
  | (exact) h where "dns_name h" "strict_rule pattern = Exact (labels (to_ascii_lowercase h))"
      "e = ''='' @ to_ascii_lowercase h"
proof -
  define p where "p = (if ends_with_char pattern (CHR ''.'') then butlast pattern else pattern)"
  note enc = assms [unfolded encode_strict_def strip_suffix_dot_butlast strip_prefix_star Let_def, folded p_def]
  show thesis
  proof (cases "take 2 p = ''*.''")
    case True
    with enc have "\<not> list_ex invalid_label (labels (drop 2 p))" "e = ''*.'' @ to_ascii_lowercase (drop 2 p)"
      by (auto split: if_splits)
    with True show thesis
      by (intro wildcard [of "drop 2 p"]) (simp_all add: valid_labels_dns_name strict_rule_def p_def [symmetric] Let_def)
  next
    case False
    with enc have "\<not> list_ex invalid_label (labels p)" "e = ''='' @ to_ascii_lowercase p"
      by (auto split: if_splits)
    with False show thesis
      by (intro exact [of p]) (simp_all add: valid_labels_dns_name strict_rule_def p_def [symmetric] Let_def)
  qed
qed

section \<open>Properties\<close>

text \<open>C14: a stored strict pattern means what the user wrote: whenever the encoder accepts a pattern,
  the matcher admits a host name under the encoded entry exactly when the label-level rule of the
  pattern admits the name's labels, so a wildcard admits proper subdomains only and never a name
  that merely ends in the same characters.\<close>

theorem strict_pattern_refines:
  assumes "encode_strict pattern = Inr e" "dns_name (normal_name h)"
  shows "host_matches h e \<longleftrightarrow> rule_admits (strict_rule pattern) (labels (normal_name h))"
  using assms(1)
proof (cases rule: encode_strict_Inr)
  case (wildcard d)
  with assms(2) host_matches_wildcard [of "to_ascii_lowercase d" h] show ?thesis by simp
next
  case (exact d)
  with host_matches_exact_iff [of "to_ascii_lowercase d" h] show ?thesis by simp
qed

theorem strict_pattern_refines_witness:
  "encode_strict ''*.Example.com.'' = Inr ''*.example.com'' \<and>
   (host_matches ''evilexample.com'' ''*.example.com'' \<longleftrightarrow>
    rule_admits (strict_rule ''*.Example.com.'') (labels (normal_name ''evilexample.com''))) \<and>
   \<not> host_matches ''evilexample.com'' ''*.example.com'' \<and> host_matches ''A.example.COM.'' ''*.example.com''"
proof -
  have "encode_strict ''*.Example.com.'' = Inr ''*.example.com''" by code_simp
  moreover have "dns_name (normal_name ''evilexample.com'')" by code_simp
  moreover have "\<not> host_matches ''evilexample.com'' ''*.example.com''" "host_matches ''A.example.COM.'' ''*.example.com''"
    by code_simp+
  ultimately show ?thesis using strict_pattern_refines by blast
qed

text \<open>a bare (legacy) entry admits exactly its own name and that name's subdomains, compared label
  by label, case-insensitively and ignoring trailing dots.\<close>

theorem bare_entry_refines:
  assumes "dns_name e" "hd e \<noteq> CHR ''=''" "hd e \<noteq> CHR ''*''"
  shows "host_matches h e \<longleftrightarrow>
    rule_admits (Apex_and_subdomains (labels (to_ascii_lowercase e))) (labels (normal_name h))"
  using assms by (rule host_matches_bare_iff)

theorem bare_entry_refines_witness:
  "(host_matches ''notpypi.org'' ''PyPI.org'' \<longleftrightarrow>
    rule_admits (Apex_and_subdomains (labels (to_ascii_lowercase ''PyPI.org''))) (labels (normal_name ''notpypi.org'')))
   \<and> \<not> host_matches ''notpypi.org'' ''PyPI.org''"
proof -
  have "dns_name ''PyPI.org''" by code_simp
  moreover have "\<not> host_matches ''notpypi.org'' ''PyPI.org''" by code_simp
  ultimately show ?thesis using bare_entry_refines [of "''PyPI.org''" "''notpypi.org''"] by simp
qed

end
