(* ===== verification/Dns_Wire.thy ===== *)
theory Dns_Wire
  imports Bytes Host_Pattern
begin

text \<open>
  DNS messages as the gateway reads and writes them
  (\<open>crates/smolvm-network/src/dns.rs\<close>): the question name of a query, the address records of an
  answer, the error and gateway responses, and the allow-host test on names. Every slice is
  checked, compression pointers are followed at most sixteen times, and the parser is total.
\<close>

unbundle bit_operations_syntax

section \<open>The code\<close>

definition DNS_HEADER_LEN :: nat where "DNS_HEADER_LEN = 12"
definition DNS_MAX_COMPRESSION_JUMPS :: nat where "DNS_MAX_COMPRESSION_JUMPS = 16"
definition GATEWAY_HOSTNAME :: string where "GATEWAY_HOSTNAME = ''host.smolvm.internal''"
definition GATEWAY_TTL_SECS :: nat where "GATEWAY_TTL_SECS = 60"
definition DNS_RCODE_SERVFAIL :: u16 where "DNS_RCODE_SERVFAIL = 2"
definition DNS_RCODE_NXDOMAIN :: u16 where "DNS_RCODE_NXDOMAIN = 3"

definition normalize_hostname :: "string \<Rightarrow> string option" where
  "normalize_hostname hostname =
     (let h = to_ascii_lowercase (trim_end_matches (CHR ''.'') hostname)
      in if h = [] then None else Some h)"

definition hostname_allowed :: "string \<Rightarrow> string list \<Rightarrow> bool" where
  "hostname_allowed hostname allowed_hosts =
     (case normalize_hostname hostname of
        None \<Rightarrow> False
      | Some h \<Rightarrow> list_ex (\<lambda>allowed. host_matches h allowed) allowed_hosts)"

definition read_u16 :: "bytes \<Rightarrow> nat \<Rightarrow> u16 option" where
  "read_u16 buf offset = map_option (\<lambda>bs. of_nat (be_nat bs)) (get_range buf offset (offset + 2))"

definition read_u32 :: "bytes \<Rightarrow> nat \<Rightarrow> u32 option" where
  "read_u32 buf offset = map_option (\<lambda>bs. of_nat (be_nat bs)) (get_range buf offset (offset + 4))"

text \<open>The loop of \<open>read_name\<close>, with its five local variables as arguments. \<open>labels\<close> is kept in
  reading order.\<close>

function read_name_loop ::
  "bytes \<Rightarrow> string list \<Rightarrow> nat \<Rightarrow> nat \<Rightarrow> bool \<Rightarrow> nat \<Rightarrow> (string \<times> nat) option" where
  "read_name_loop packet ls pos next_offset jumped jumps =
     (case get_at packet pos of
        None \<Rightarrow> None
      | Some len \<Rightarrow>
          if len AND 0xC0 = 0xC0 then
            (case get_at packet (pos + 1) of
               None \<Rightarrow> None
             | Some lo \<Rightarrow>
                 let pointer = unat (len AND 0x3F) * 256 + unat lo
                 in if length packet \<le> pointer then None
                    else if DNS_MAX_COMPRESSION_JUMPS < jumps + 1 then None
                    else read_name_loop packet ls pointer
                           (if jumped then next_offset else pos + 2) True (jumps + 1))
          else if len AND 0xC0 \<noteq> 0 then None
          else if len = 0 then
            Some (join_char (CHR ''.'') ls, if jumped then next_offset else pos + 1)
          else if 63 < unat len \<or> length packet < pos + 1 + unat len then None
          else (case from_utf8 (take (unat len) (drop (pos + 1) packet)) of
                  None \<Rightarrow> None
                | Some label \<Rightarrow>
                    read_name_loop packet (ls @ [to_ascii_lowercase label]) (pos + 1 + unat len)
                      (if jumped then next_offset else pos + 1 + unat len) jumped jumps))"
  by pat_completeness auto
termination
  by (relation "measures [\<lambda>(packet, ls, pos, nx, jumped, jumps). DNS_MAX_COMPRESSION_JUMPS - jumps,
        \<lambda>(packet, ls, pos, nx, jumped, jumps). length packet - pos]")
    (auto simp: get_at_def split: if_splits)

declare read_name_loop.simps [simp del]

definition read_name :: "bytes \<Rightarrow> nat \<Rightarrow> (string \<times> nat) option" where
  "read_name packet offset = read_name_loop packet [] offset offset False 0"

definition question_name :: "bytes \<Rightarrow> string option" where
  "question_name packet =
     (if length packet < DNS_HEADER_LEN \<or> read_u16 packet 4 \<noteq> Some 1 then None
      else map_option fst (read_name packet DNS_HEADER_LEN))"

definition question_section_end :: "bytes \<Rightarrow> nat option" where
  "question_section_end packet =
     (if length packet < DNS_HEADER_LEN \<or> read_u16 packet 4 \<noteq> Some 1 then None
      else (case read_name packet DNS_HEADER_LEN of
              None \<Rightarrow> None
            | Some (_, after_name) \<Rightarrow>
                if length packet < after_name + 4 then None else Some (after_name + 4)))"

fun skip_questions :: "bytes \<Rightarrow> nat \<Rightarrow> nat \<Rightarrow> nat option" where
  "skip_questions packet 0 offset = Some offset"
| "skip_questions packet (Suc n) offset =
     (case read_name packet offset of
        None \<Rightarrow> None
      | Some (_, after_name) \<Rightarrow>
          if length packet < after_name + 4 then None
          else skip_questions packet n (after_name + 4))"

definition answer_record :: "bytes \<Rightarrow> nat \<Rightarrow> ((ip_addr \<times> u32) option \<times> nat) option" where
  "answer_record packet offset0 =
     (case read_name packet offset0 of
        None \<Rightarrow> None
      | Some (_, after_name) \<Rightarrow>
          if length packet < after_name + 10 then None
          else
            (case (read_u16 packet after_name, read_u16 packet (after_name + 2),
                   read_u32 packet (after_name + 4), read_u16 packet (after_name + 8)) of
               (Some rr_type, Some cls, Some ttl, Some rdlen) \<Rightarrow>
                 let offset = after_name + 10
                 in if length packet < offset + unat rdlen then None
                    else
                      let rdata = take (unat rdlen) (drop offset packet)
                      in Some
                          (if cls = 1 \<and> rr_type = 1 \<and> rdlen = 4 then
                             Some (V4 (of_nat (be_nat rdata)), ttl)
                           else if cls = 1 \<and> rr_type = 28 \<and> rdlen = 16 then
                             Some (V6 (of_nat (be_nat rdata)), ttl)
                           else None, offset + unat rdlen)
             | _ \<Rightarrow> None))"

fun answer_records :: "bytes \<Rightarrow> nat \<Rightarrow> nat \<Rightarrow> (ip_addr \<times> u32) list option" where
  "answer_records packet 0 offset = Some []"
| "answer_records packet (Suc n) offset =
     (case answer_record packet offset of
        None \<Rightarrow> None
      | Some (r, offset') \<Rightarrow>
          map_option (\<lambda>rs. (case r of None \<Rightarrow> rs | Some ip \<Rightarrow> ip # rs))
            (answer_records packet n offset'))"

definition parse_answer_ip_records :: "bytes \<Rightarrow> (ip_addr \<times> u32) list option" where
  "parse_answer_ip_records packet =
     (if length packet < DNS_HEADER_LEN then None
      else (case (read_u16 packet 4, read_u16 packet 6) of
              (Some qdcount, Some ancount) \<Rightarrow>
                (case skip_questions packet (unat qdcount) DNS_HEADER_LEN of
                   None \<Rightarrow> None
                 | Some offset \<Rightarrow> answer_records packet (unat ancount) offset)
            | _ \<Rightarrow> None))"

definition answer_ip_records :: "bytes \<Rightarrow> (ip_addr \<times> u32) list" where
  "answer_ip_records packet =
     (case parse_answer_ip_records packet of Some rs \<Rightarrow> rs | None \<Rightarrow> [])"

definition error_response :: "bytes \<Rightarrow> u16 \<Rightarrow> bytes" where
  "error_response query rcode =
     (let ident = (if 2 \<le> length query then take 2 query else [0, 0]);
          req_flags = (if 4 \<le> length query
                       then (case read_u16 query 2 of Some f \<Rightarrow> f | None \<Rightarrow> 0) else 0);
          flags = 0x8000 OR (req_flags AND 0x0100) OR 0x0080 OR (rcode AND 0x000F);
          question_end = question_section_end query;
          qdcount = (if question_end \<noteq> None then 1 else 0)
      in ident @ nat_be 2 (unat flags) @ nat_be 2 qdcount @ nat_be 2 0 @ nat_be 2 0 @ nat_be 2 0 @
         (case question_end of
            Some e \<Rightarrow> take (e - DNS_HEADER_LEN) (drop DNS_HEADER_LEN query)
          | None \<Rightarrow> []))"

definition gateway_response :: "bytes \<Rightarrow> u32 \<Rightarrow> bytes" where
  "gateway_response query gateway =
     (let response = error_response query 0
      in case question_section_end query of
           None \<Rightarrow> response
         | Some e \<Rightarrow>
             if read_u16 query (e - 4) \<noteq> Some 1 then response
             else take 6 response @ nat_be 2 1 @ drop 8 response @
                  [0xC0, of_nat DNS_HEADER_LEN] @ nat_be 2 1 @ nat_be 2 1 @
                  nat_be 4 GATEWAY_TTL_SECS @ nat_be 2 4 @ nat_be 4 (unat gateway))"

section \<open>Reading integers in place\<close>

lemma of_nat_mod_width: "(of_nat (v mod 2 ^ LENGTH('a)) :: 'a::len word) = of_nat v"
  by (simp add: word_unat_eq_iff unat_of_nat take_bit_eq_mod)

lemma read_u16_at:
  "n = length pre \<Longrightarrow> length w = 2 \<Longrightarrow> read_u16 (pre @ w @ post) n = Some (of_nat (be_nat w))"
  by (simp add: read_u16_def)

lemma read_u32_at:
  "n = length pre \<Longrightarrow> length w = 4 \<Longrightarrow> read_u32 (pre @ w @ post) n = Some (of_nat (be_nat w))"
  by (simp add: read_u32_def)

section \<open>Names\<close>

definition wire_label :: "bytes \<Rightarrow> bytes" where
  "wire_label l = of_nat (length l) # l"

definition wire_name :: "bytes list \<Rightarrow> bytes" where
  "wire_name ls = concat (map wire_label ls) @ [0]"

definition wire_ok :: "bytes list \<Rightarrow> bool" where
  "wire_ok ls \<longleftrightarrow> (\<forall>l\<in>set ls. l \<noteq> [] \<and> length l \<le> 63 \<and> valid_utf8 l)"

definition text_labels :: "bytes list \<Rightarrow> string list" where
  "text_labels ls = map (\<lambda>l. to_ascii_lowercase (bytes_str l)) ls"

lemma wire_name_simps [simp]:
  "wire_name [] = [0]" "wire_name (l # ls) = of_nat (length l) # l @ wire_name ls"
  by (simp_all add: wire_name_def wire_label_def)

lemma take_bit_6: "unat (b :: u8) < 64 \<Longrightarrow> take_bit 6 b = b"
  by (simp add: word_unat_eq_iff unsigned_take_bit_eq take_bit_eq_mod unat_mod)

lemma length_byte_tag:
  fixes b :: u8
  assumes "unat b < 64"
  shows "b AND 0xC0 = 0"
proof -
  have "\<not> bit (take_bit 6 b) 6" "\<not> bit (take_bit 6 b) 7" by (simp_all add: bit_take_bit_iff)
  then have "\<not> bit b 6" "\<not> bit b 7" by (simp_all only: take_bit_6 [OF assms] simp_thms)
  then show ?thesis
    by (intro bit_word_eqI) (auto simp: bit_and_iff numeral_eq_Suc less_Suc_eq)
qed

lemma read_name_loop_wire:
  "wire_ok ls \<Longrightarrow>
   read_name_loop (pre @ wire_name ls @ post) acc (length pre) nx jumped jumps =
     Some (join_char (CHR ''.'') (acc @ text_labels ls),
           if jumped then nx else length pre + length (wire_name ls))"
proof (induction ls arbitrary: pre acc nx)
  case Nil
  then show ?case by (subst read_name_loop.simps) (simp add: text_labels_def)
next
  case (Cons l ls)
  let ?b = "of_nat (length l) :: u8" and ?packet = "pre @ wire_name (l # ls) @ post"
  have l: "l \<noteq> []" "length l \<le> 63" "valid_utf8 l" and ls: "wire_ok ls"
    using Cons.prems by (auto simp: wire_ok_def)
  have b: "unat ?b = length l" using l(2) by (simp add: unat_of_nat_u8)
  have tag: "?b AND 0xC0 = 0" using b l(2) by (intro length_byte_tag) simp
  have nz: "?b \<noteq> 0" using b l(1) by (metis length_0_conv unat_0)
  have at: "get_at ?packet (length pre) = Some ?b" by simp
  have body: "take (length l) (drop (length pre + 1) ?packet) = l" by simp
  have nptr: "(0 :: u8) \<noteq> 0xC0" by simp
  have fits: "\<not> (63 < length l \<or> length ?packet < length pre + 1 + length l)" using l(2) by simp
  have split: "?packet = (pre @ ?b # l) @ wire_name ls @ post" by simp
  have "read_name_loop ?packet acc (length pre) nx jumped jumps =
      read_name_loop ?packet (acc @ [to_ascii_lowercase (bytes_str l)]) (length pre + 1 + length l)
        (if jumped then nx else length pre + 1 + length l) jumped jumps"
    by (subst read_name_loop.simps)
      (simp only: at option.case tag nz b body fits from_utf8_def l(3) if_True if_False nptr simp_thms)
  also have "\<dots> = Some (join_char (CHR ''.'') ((acc @ [to_ascii_lowercase (bytes_str l)]) @ text_labels ls),
      if jumped then (if jumped then nx else length pre + 1 + length l)
      else length (pre @ ?b # l) + length (wire_name ls))"
    unfolding split using Cons.IH [OF ls, of "pre @ ?b # l"] by simp
  finally show ?case by (simp add: text_labels_def)
qed

lemma read_name_wire:
  "wire_ok ls \<Longrightarrow> n = length pre \<Longrightarrow>
   read_name (pre @ wire_name ls @ post) n =
     Some (join_char (CHR ''.'') (text_labels ls), length pre + length (wire_name ls))"
  by (simp add: read_name_def read_name_loop_wire)

text \<open>A name that is one compression pointer to an uncompressed name.\<close>

lemma read_name_pointer:
  assumes ls: "wire_ok ls" and packet: "packet = pre @ wire_name ls @ post"
    and hi: "get_at packet n = Some hi" "hi AND 0xC0 = 0xC0"
    and lo: "get_at packet (n + 1) = Some lo"
    and p: "unat (hi AND 0x3F) * 256 + unat lo = length pre"
  shows "read_name packet n = Some (join_char (CHR ''.'') (text_labels ls), n + 2)"
proof -
  have len: "length pre < length packet" by (cases ls) (simp_all add: packet)
  have "read_name packet n = read_name_loop packet [] (length pre) (n + 2) True 1"
    unfolding read_name_def
    by (subst read_name_loop.simps) (use hi lo p len in \<open>simp add: DNS_MAX_COMPRESSION_JUMPS_def\<close>)
  also have "\<dots> = Some (join_char (CHR ''.'') (text_labels ls), n + 2)"
    unfolding packet using read_name_loop_wire [OF ls, of pre post "[]" "n + 2" True 1] by simp
  finally show ?thesis .
qed

lemma read_name_loop_Some_cases:
  assumes "read_name_loop packet ls pos nx jumped jumps = Some r"
  obtains
    (pointer) hi lo where "get_at packet pos = Some hi" "hi AND 0xC0 = 0xC0"
      "get_at packet (pos + 1) = Some lo"
      "\<not> length packet \<le> unat (hi AND 0x3F) * 256 + unat lo"
      "\<not> DNS_MAX_COMPRESSION_JUMPS < jumps + 1"
      "read_name_loop packet ls (unat (hi AND 0x3F) * 256 + unat lo)
         (if jumped then nx else pos + 2) True (jumps + 1) = Some r"
  | (root) len where "get_at packet pos = Some len"
      "r = (join_char (CHR ''.'') ls, if jumped then nx else pos + 1)"
  | (label) len label where "get_at packet pos = Some len" "len AND 0xC0 \<noteq> 0xC0" "\<not> len AND 0xC0 \<noteq> 0"
      "len \<noteq> 0" "\<not> (63 < unat len \<or> length packet < pos + 1 + unat len)"
      "from_utf8 (take (unat len) (drop (pos + 1) packet)) = Some label"
      "read_name_loop packet (ls @ [to_ascii_lowercase label]) (pos + 1 + unat len)
         (if jumped then nx else pos + 1 + unat len) jumped jumps = Some r"
proof -
  obtain len where len: "get_at packet pos = Some len"
    using assms by (subst (asm) read_name_loop.simps) (auto split: option.splits)
  define t where "t = len AND 0xC0"
  note step = assms [unfolded read_name_loop.simps [of packet ls pos nx jumped jumps] len option.case,
      folded t_def]
  consider "t = 0xC0" | "t \<noteq> 0xC0" "t \<noteq> 0" | "t \<noteq> 0xC0" "t = 0" "len = 0" | "t \<noteq> 0xC0" "t = 0" "len \<noteq> 0"
    by blast
  then show thesis
  proof cases
    case 1
    with step obtain lo where lo: "get_at packet (pos + 1) = Some lo" by (auto split: option.splits)
    show thesis
      by (rule pointer [OF len _ lo]) (use 1 step lo in \<open>simp_all add: t_def Let_def split: if_splits\<close>)
  next
    case 2
    with step show thesis by simp
  next
    case 3
    with step len show thesis by (intro root [of len]) simp_all
  next
    case 4
    then have tag: "len AND 0xC0 \<noteq> 0xC0" "\<not> len AND 0xC0 \<noteq> 0" by (simp_all add: t_def)
    from 4 step have fits: "\<not> (63 < unat len \<or> length packet < pos + 1 + unat len)"
      by (auto split: if_splits)
    from 4 step fits obtain lab where
      lab: "from_utf8 (take (unat len) (drop (pos + 1) packet)) = Some lab"
      by (auto split: option.splits)
    show thesis
      by (rule label [OF len tag _ fits lab]) (use 4 step fits lab in simp_all)
  qed
qed

lemma read_name_loop_bounds:
  "read_name_loop packet ls pos nx jumped jumps = Some (name, e) \<Longrightarrow>
   (if jumped then e = nx else pos < e \<and> e \<le> length packet)"
proof (induction packet ls pos nx jumped jumps rule: read_name_loop.induct)
  case (1 packet ls pos nx jumped jumps)
  from "1.prems" show ?case
  proof (cases rule: read_name_loop_Some_cases)
    case (pointer hi lo)
    from "1.IH"(1) [OF pointer(1,2,3) refl pointer(4,5,6)] have "e = (if jumped then nx else pos + 2)" by simp
    with pointer(3) show ?thesis by (auto simp: get_at_def split: if_splits)
  next
    case (root len)
    then show ?thesis by (auto simp: get_at_def split: if_splits)
  next
    case (label len label)
    from "1.IH"(2) [OF label] label(5) show ?thesis by (auto split: if_splits)
  qed
qed

lemma read_name_bounds_aux: "read_name packet offset = Some (name, e) \<Longrightarrow> offset < e \<and> e \<le> length packet"
  unfolding read_name_def by (drule read_name_loop_bounds) simp

section \<open>Queries with one uncompressed question\<close>

definition dns_query :: "bytes \<Rightarrow> bytes \<Rightarrow> bytes \<Rightarrow> bytes list \<Rightarrow> bytes \<Rightarrow> bytes \<Rightarrow> bytes \<Rightarrow> bytes" where
  "dns_query ident flags counts ls qtype qclass rest =
     ident @ flags @ nat_be 2 1 @ counts @ wire_name ls @ qtype @ qclass @ rest"

definition dns_query_ok :: "bytes \<Rightarrow> bytes \<Rightarrow> bytes \<Rightarrow> bytes list \<Rightarrow> bytes \<Rightarrow> bytes \<Rightarrow> bool" where
  "dns_query_ok ident flags counts ls qtype qclass \<longleftrightarrow>
     length ident = 2 \<and> length flags = 2 \<and> length counts = 6 \<and> wire_ok ls \<and>
     length qtype = 2 \<and> length qclass = 2"

lemma dns_query_read:
  assumes ok: "dns_query_ok ident flags counts ls qtype qclass"
    and q_def: "q = dns_query ident flags counts ls qtype qclass rest"
  shows "12 \<le> length q" "read_u16 q 4 = Some 1"
    "read_name q 12 = Some (join_char (CHR ''.'') (text_labels ls), 12 + length (wire_name ls))"
    "12 + length (wire_name ls) + 4 \<le> length q"
    "read_u16 q (12 + length (wire_name ls)) = Some (of_nat (be_nat qtype))"
proof -
  note ok = ok [unfolded dns_query_ok_def]
  show "12 \<le> length q" "12 + length (wire_name ls) + 4 \<le> length q"
    using ok by (simp_all add: q_def dns_query_def)
  have "q = (ident @ flags) @ nat_be 2 1 @ (counts @ wire_name ls @ qtype @ qclass @ rest)"
    by (simp add: q_def dns_query_def)
  then show "read_u16 q 4 = Some 1"
    using read_u16_at [of 4 "ident @ flags" "nat_be 2 1"] ok by (simp add: be_nat_nat_be_id)
  have "q = (ident @ flags @ nat_be 2 1 @ counts) @ wire_name ls @ (qtype @ qclass @ rest)"
    by (simp add: q_def dns_query_def)
  then show "read_name q 12 = Some (join_char (CHR ''.'') (text_labels ls), 12 + length (wire_name ls))"
    using read_name_wire [of ls 12 "ident @ flags @ nat_be 2 1 @ counts"] ok by simp
  have "q = (ident @ flags @ nat_be 2 1 @ counts @ wire_name ls) @ qtype @ (qclass @ rest)"
    by (simp add: q_def dns_query_def)
  then show "read_u16 q (12 + length (wire_name ls)) = Some (of_nat (be_nat qtype))"
    using read_u16_at [of "12 + length (wire_name ls)" "ident @ flags @ nat_be 2 1 @ counts @ wire_name ls" qtype] ok
    by simp
qed

lemma question_name_query:
  assumes "dns_query_ok ident flags counts ls qtype qclass"
  shows "question_name (dns_query ident flags counts ls qtype qclass rest) =
    Some (join_char (CHR ''.'') (text_labels ls))"
  using dns_query_read [OF assms refl, of rest] by (simp add: question_name_def DNS_HEADER_LEN_def)

lemma question_section_end_query:
  assumes "dns_query_ok ident flags counts ls qtype qclass"
  shows "question_section_end (dns_query ident flags counts ls qtype qclass rest) =
    Some (12 + length (wire_name ls) + 4)"
  using dns_query_read [OF assms refl, of rest] by (simp add: question_section_end_def DNS_HEADER_LEN_def)

definition response_flags :: "u16 \<Rightarrow> u16 \<Rightarrow> u16" where
  "response_flags req rcode = 0x8000 OR (req AND 0x0100) OR 0x0080 OR (rcode AND 0x000F)"

text \<open>The reply to a well-formed query is a message with the same question and no other section.\<close>

lemma error_response_query:
  assumes "dns_query_ok ident flags counts ls qtype qclass"
  shows "error_response (dns_query ident flags counts ls qtype qclass rest) rcode =
    dns_query ident (nat_be 2 (unat (response_flags (of_nat (be_nat flags)) rcode)))
      (nat_be 2 0 @ nat_be 2 0 @ nat_be 2 0) ls qtype qclass []"
proof -
  define q where "q = dns_query ident flags counts ls qtype qclass rest"
  note ok = assms [unfolded dns_query_ok_def]
  have "q = ident @ flags @ (nat_be 2 1 @ counts @ wire_name ls @ qtype @ qclass @ rest)"
    by (simp add: q_def dns_query_def)
  then have flags: "read_u16 q 2 = Some (of_nat (be_nat flags))"
    using read_u16_at [of 2 ident flags] ok by simp
  have ident: "take 2 q = ident" using ok by (simp add: q_def dns_query_def)
  have body: "take (4 + length (wire_name ls)) (drop 12 q) = wire_name ls @ qtype @ qclass"
    using ok by (simp add: q_def dns_query_def)
  have len: "2 \<le> length q" "4 \<le> length q" using ok by (simp_all add: q_def dns_query_def)
  have qe: "question_section_end q = Some (12 + length (wire_name ls) + 4)"
    using question_section_end_query [OF assms] by (simp add: q_def)
  have "error_response q rcode = ident @ nat_be 2 (unat (response_flags (of_nat (be_nat flags)) rcode)) @
      nat_be 2 1 @ nat_be 2 0 @ nat_be 2 0 @ nat_be 2 0 @ wire_name ls @ qtype @ qclass"
    using flags ident body len qe
    by (simp add: error_response_def Let_def DNS_HEADER_LEN_def response_flags_def)
  then show ?thesis by (simp add: q_def dns_query_def)
qed

lemma dns_query_ok_response:
  "dns_query_ok ident flags counts ls qtype qclass \<Longrightarrow>
   dns_query_ok ident (nat_be 2 f) (nat_be 2 a @ nat_be 2 b @ nat_be 2 c) ls qtype qclass"
  by (simp add: dns_query_ok_def)

lemma gateway_response_query:
  assumes ok: "dns_query_ok ident flags counts ls (nat_be 2 1) qclass"
  shows "gateway_response (dns_query ident flags counts ls (nat_be 2 1) qclass rest) gateway =
    dns_query ident (nat_be 2 (unat (response_flags (of_nat (be_nat flags)) 0)))
      (nat_be 2 1 @ nat_be 2 0 @ nat_be 2 0) ls (nat_be 2 1) qclass
      ([0xC0, 12] @ nat_be 2 1 @ nat_be 2 1 @ nat_be 4 60 @ nat_be 2 4 @ nat_be 4 (unat gateway))"
proof -
  define q where "q = dns_query ident flags counts ls (nat_be 2 1) qclass rest"
  define r where "r = error_response q 0"
  have "be_nat (nat_be 2 1) = 1" by (simp add: be_nat_nat_be_id)
  then have rd: "read_u16 q (12 + length (wire_name ls)) = Some 1"
    using dns_query_read(5) [OF ok refl, of rest] by (simp add: q_def)
  have qe: "question_section_end q = Some (12 + length (wire_name ls) + 4)"
    using question_section_end_query [OF ok] by (simp add: q_def)
  have "gateway_response q gateway = take 6 r @ nat_be 2 1 @ drop 8 r @
      [0xC0, 12] @ nat_be 2 1 @ nat_be 2 1 @ nat_be 4 60 @ nat_be 2 4 @ nat_be 4 (unat gateway)"
    using rd qe by (simp add: gateway_response_def r_def Let_def DNS_HEADER_LEN_def GATEWAY_TTL_SECS_def)
  moreover have "length ident = 2" using ok by (simp add: dns_query_ok_def)
  ultimately show ?thesis
    unfolding r_def q_def error_response_query [OF ok] by (simp add: dns_query_def)
qed

text \<open>An address record after an uncompressed question, named by a pointer to it.\<close>

lemma answer_record_pointer:
  assumes ok: "dns_query_ok ident flags counts ls qtype qclass"
  shows "answer_record (dns_query ident flags counts ls qtype qclass
      ([0xC0, 12] @ nat_be 2 1 @ nat_be 2 1 @ nat_be 4 ttl @ nat_be 2 4 @ nat_be 4 (unat addr)))
      (12 + length (wire_name ls) + 4) =
    Some (Some (V4 addr, of_nat ttl), 12 + length (wire_name ls) + 4 + 16)"
proof -
  define pre where "pre = ident @ flags @ nat_be 2 1 @ counts"
  define q where "q = pre @ wire_name ls @ qtype @ qclass"
  define n where "n = length q"
  define p where "p = q @ [0xC0, 12] @ nat_be 2 1 @ nat_be 2 1 @ nat_be 4 ttl @ nat_be 2 4 @ nat_be 4 (unat addr)"
  have ls: "wire_ok ls" and n: "n = 12 + length (wire_name ls) + 4" and pre: "length pre = 12"
    using ok by (simp_all add: dns_query_ok_def pre_def q_def n_def)
  have "get_at p n = Some 0xC0" "get_at p (n + 1) = Some 12"
    by (simp_all add: p_def n_def get_at_def nth_append)
  then have name: "read_name p n = Some (join_char (CHR ''.'') (text_labels ls), n + 2)"
    using read_name_pointer [OF ls, of p pre] pre by (simp add: p_def q_def)
  have "p = (q @ [0xC0, 12]) @ nat_be 2 1 @ (nat_be 2 1 @ nat_be 4 ttl @ nat_be 2 4 @ nat_be 4 (unat addr))"
    by (simp add: p_def)
  then have rr_type: "read_u16 p (n + 2) = Some 1"
    using read_u16_at [of "n + 2" "q @ [0xC0, 12]" "nat_be 2 1"] by (simp add: n_def be_nat_nat_be_id)
  have "p = (q @ [0xC0, 12] @ nat_be 2 1) @ nat_be 2 1 @ (nat_be 4 ttl @ nat_be 2 4 @ nat_be 4 (unat addr))"
    by (simp add: p_def)
  then have cls: "read_u16 p (n + 4) = Some 1"
    using read_u16_at [of "n + 4" "q @ [0xC0, 12] @ nat_be 2 1" "nat_be 2 1"] by (simp add: n_def be_nat_nat_be_id)
  have "p = (q @ [0xC0, 12] @ nat_be 2 1 @ nat_be 2 1) @ nat_be 4 ttl @ (nat_be 2 4 @ nat_be 4 (unat addr))"
    by (simp add: p_def)
  moreover have "(of_nat (ttl mod 256 ^ 4) :: u32) = of_nat ttl"
    using of_nat_mod_width [of ttl, where ?'a = 32] by simp
  ultimately have ttl: "read_u32 p (n + 6) = Some (of_nat ttl)"
    using read_u32_at [of "n + 6" "q @ [0xC0, 12] @ nat_be 2 1 @ nat_be 2 1" "nat_be 4 ttl"]
    by (simp add: n_def be_nat_nat_be)
  have "p = (q @ [0xC0, 12] @ nat_be 2 1 @ nat_be 2 1 @ nat_be 4 ttl) @ nat_be 2 4 @ nat_be 4 (unat addr)"
    by (simp add: p_def)
  then have rdlen: "read_u16 p (n + 10) = Some 4"
    using read_u16_at [of "n + 10" "q @ [0xC0, 12] @ nat_be 2 1 @ nat_be 2 1 @ nat_be 4 ttl" "nat_be 2 4" "nat_be 4 (unat addr)"]
    by (simp add: n_def be_nat_nat_be_id)
  have rdata: "drop (n + 12) p = nat_be 4 (unat addr)" and len: "length p = n + 16"
    by (simp_all add: p_def n_def)
  have addr: "be_nat (nat_be 4 (unat addr)) = unat addr"
    using unsigned_less [of addr, where ?'a = nat] by (simp add: be_nat_nat_be_id)
  have shift: "n + 2 + 2 = n + 4" "n + 2 + 4 = n + 6" "n + 2 + 8 = n + 10" "n + 2 + 10 = n + 12" by simp_all
  have "answer_record p n = Some (Some (V4 addr, of_nat ttl), n + 12 + unat (4 :: u16))"
    unfolding answer_record_def name option.case prod.case shift rr_type cls ttl rdlen
    using rdata len addr by (simp add: Let_def)
  then show ?thesis by (simp add: n p_def q_def pre_def dns_query_def)
qed

section \<open>Properties\<close>

text \<open>name decoding is memory-safe and makes progress: when \<open>read_name\<close> returns, compressed or
  not, the offset it reports lies after the name's start and inside the packet; with at most sixteen
  pointer jumps it returns on every input.\<close>

theorem read_name_bounds:
  assumes "read_name packet offset = Some (name, next_offset)"
  shows "offset < next_offset \<and> next_offset \<le> length packet"
  using assms by (rule read_name_bounds_aux)

theorem read_name_bounds_witness:
  "read_name [1, 0x61, 0, 0xC0, 0] 3 = Some (''a'', 5) \<and> (3::nat) < 5 \<and> 5 \<le> length [1, 0x61, 0, 0xC0, 0 :: u8]"
proof -
  have r: "read_name [1, 0x61, 0, 0xC0, 0] 3 = Some (''a'', 5)" by code_simp
  show ?thesis using r read_name_bounds [OF r] by simp
qed

text \<open>the encoder of a name in the wire format and \<open>read_name\<close> are inverse: at any offset of any
  packet the uncompressed encoding of at most 63-byte UTF-8 labels decodes to the labels in lower
  case, joined by dots, and to the offset just after the encoding.\<close>

theorem read_name_decodes:
  assumes "wire_ok ls"
  shows "read_name (pre @ wire_name ls @ post) (length pre) =
    Some (join_char (CHR ''.'') (text_labels ls), length pre + length (wire_name ls))"
  using assms by (rule read_name_wire) simp

theorem read_name_decodes_witness:
  "read_name ([7] @ wire_name [[0x41, 0x62], [0x63]] @ [9]) (length [7 :: u8]) = Some (''ab.c'', 7)"
proof -
  have "wire_ok [[0x41, 0x62], [0x63]]" by code_simp
  from read_name_decodes [OF this, of "[7]" "[9]"]
  have "read_name ([7] @ wire_name [[0x41, 0x62], [0x63]] @ [9]) (length [7 :: u8]) =
    Some (join_char (CHR ''.'') (text_labels [[0x41, 0x62], [0x63]]), length [7 :: u8] + length (wire_name [[0x41, 0x62], [0x63]]))" .
  moreover have "(join_char (CHR ''.'') (text_labels [[0x41, 0x62], [0x63]]), length [7 :: u8] + length (wire_name [[0x41, 0x62], [0x63]])) = (''ab.c'', 7)"
    by code_simp
  ultimately show ?thesis by simp
qed

lemma skip_one_question:
  assumes "dns_query_ok ident flags counts ls qtype qclass"
  shows "skip_questions (dns_query ident flags counts ls qtype qclass rest) 1 12 = Some (12 + length (wire_name ls) + 4)"
  using dns_query_read [OF assms refl, of rest] by simp

lemma answer_count_query:
  assumes "dns_query_ok ident flags (nat_be 2 n @ b @ c) ls qtype qclass" "n < 65536"
  shows "read_u16 (dns_query ident flags (nat_be 2 n @ b @ c) ls qtype qclass rest) 6 = Some (of_nat n)"
proof -
  have "dns_query ident flags (nat_be 2 n @ b @ c) ls qtype qclass rest =
      (ident @ flags @ nat_be 2 1) @ nat_be 2 n @ (b @ c @ wire_name ls @ qtype @ qclass @ rest)"
    by (simp add: dns_query_def)
  moreover have "length (ident @ flags @ nat_be 2 1) = 6" using assms by (simp add: dns_query_ok_def)
  ultimately show ?thesis
    using read_u16_at [of 6 "ident @ flags @ nat_be 2 1" "nat_be 2 n"] assms(2) by (simp add: be_nat_nat_be_id)
qed

text \<open>the gateway's own name: for every well-formed one-question type-A query the reply carries
  the query's identifier and question, and the answer parser the policy learns from reads from it
  exactly one address, the gateway's, with a sixty-second lifetime.\<close>

theorem gateway_response_answers:
  assumes ok: "dns_query_ok ident flags counts ls (nat_be 2 1) qclass"
    and query_def: "query = dns_query ident flags counts ls (nat_be 2 1) qclass rest"
  shows "answer_ip_records (gateway_response query gateway) = [(V4 gateway, 60)] \<and>
    question_name (gateway_response query gateway) = question_name query \<and>
    take 2 (gateway_response query gateway) = ident"
proof -
  let ?f = "nat_be 2 (unat (response_flags (of_nat (be_nat flags)) 0))"
  let ?c = "nat_be 2 1 @ nat_be 2 0 @ nat_be 2 0"
  let ?rr = "[0xC0, 12] @ nat_be 2 1 @ nat_be 2 1 @ nat_be 4 60 @ nat_be 2 4 @ nat_be 4 (unat gateway)"
  let ?r = "dns_query ident ?f ?c ls (nat_be 2 1) qclass ?rr"
  have r: "gateway_response query gateway = ?r" unfolding query_def by (rule gateway_response_query [OF ok])
  have ok': "dns_query_ok ident ?f ?c ls (nat_be 2 1) qclass" using ok by (rule dns_query_ok_response)
  note rd = dns_query_read [OF ok' refl, of ?rr]
  have "read_u16 ?r 6 = Some 1" using answer_count_query [OF ok'] by simp
  then have "parse_answer_ip_records ?r = answer_records ?r 1 (12 + length (wire_name ls) + 4)"
    using rd(1,2) skip_one_question [OF ok', of ?rr] by (simp add: parse_answer_ip_records_def DNS_HEADER_LEN_def)
  moreover have "answer_record ?r (12 + length (wire_name ls) + 4) = Some (Some (V4 gateway, 60), 12 + length (wire_name ls) + 4 + 16)"
    using answer_record_pointer [OF ok', of 60 gateway] by simp
  ultimately have "answer_ip_records ?r = [(V4 gateway, 60)]" by (simp add: answer_ip_records_def)
  moreover have "question_name ?r = question_name query"
    unfolding query_def question_name_query [OF ok] question_name_query [OF ok'] ..
  moreover have "take 2 ?r = ident" using ok by (simp add: dns_query_def dns_query_ok_def)
  ultimately show ?thesis unfolding r by blast
qed

theorem gateway_response_answers_witness:
  "answer_ip_records (gateway_response (dns_query [1, 2] [1, 0] [0, 0, 0, 0, 0, 0] [[0x61]] (nat_be 2 1) [0, 1] []) 0x64400001) =
     [(V4 0x64400001, 60)]"
proof -
  have "dns_query_ok [1, 2] [1, 0] [0, 0, 0, 0, 0, 0] [[0x61]] (nat_be 2 1) [0, 1]" by code_simp
  from gateway_response_answers [OF this refl] show ?thesis by blast
qed

text \<open>a refusal is a valid reply: for every well-formed one-question query it echoes the
  identifier and the question, has the response bit and the given code, and carries no record.\<close>

theorem error_response_echoes:
  assumes ok: "dns_query_ok ident flags counts ls qtype qclass"
    and query_def: "query = dns_query ident flags counts ls qtype qclass rest"
  shows "take 2 (error_response query rcode) = ident \<and>
    question_name (error_response query rcode) = question_name query \<and>
    answer_ip_records (error_response query rcode) = [] \<and>
    read_u16 (error_response query rcode) 2 = Some (response_flags (of_nat (be_nat flags)) rcode)"
proof -
  let ?fl = "response_flags (of_nat (be_nat flags)) rcode"
  let ?f = "nat_be 2 (unat ?fl)" and ?c = "nat_be 2 0 @ nat_be 2 0 @ nat_be 2 0"
  let ?r = "dns_query ident ?f ?c ls qtype qclass []"
  have r: "error_response query rcode = ?r" unfolding query_def by (rule error_response_query [OF ok])
  have ok': "dns_query_ok ident ?f ?c ls qtype qclass" using ok by (rule dns_query_ok_response)
  note rd = dns_query_read [OF ok' refl, of "[]"]
  have "read_u16 ?r 6 = Some 0" using answer_count_query [OF ok'] by simp
  then have "answer_ip_records ?r = []"
    using rd(1,2) skip_one_question [OF ok', of "[]"]
    by (simp add: answer_ip_records_def parse_answer_ip_records_def DNS_HEADER_LEN_def)
  moreover have "question_name ?r = question_name query"
    unfolding query_def question_name_query [OF ok] question_name_query [OF ok'] ..
  moreover have "read_u16 ?r 2 = Some ?fl"
  proof -
    have "be_nat ?f = unat ?fl" using unsigned_less [of ?fl, where ?'a = nat] by (simp add: be_nat_nat_be_id)
    moreover have "?r = ident @ ?f @ (nat_be 2 1 @ ?c @ wire_name ls @ qtype @ qclass)" by (simp add: dns_query_def)
    ultimately show ?thesis using read_u16_at [of 2 ident ?f] ok by (simp add: dns_query_ok_def)
  qed
  moreover have "take 2 ?r = ident" using ok by (simp add: dns_query_def dns_query_ok_def)
  ultimately show ?thesis unfolding r by blast
qed

theorem error_response_echoes_witness:
  "question_name (error_response (dns_query [1, 2] [1, 0] [0, 0, 0, 0, 0, 0] [[0x61]] [0, 28] [0, 1] [5]) 3) = Some ''a'' \<and>
   read_u16 (error_response (dns_query [1, 2] [1, 0] [0, 0, 0, 0, 0, 0] [[0x61]] [0, 28] [0, 1] [5]) 3) 2 = Some 0x8183"
proof -
  have "dns_query_ok [1, 2] [1, 0] [0, 0, 0, 0, 0, 0] [[0x61]] [0, 28] [0, 1]" by code_simp
  note e = error_response_echoes [OF this refl, of "[5]" 3]
  moreover have "response_flags (of_nat (be_nat [1, 0])) 3 = 0x8183" by code_simp
  moreover have "question_name (dns_query [1, 2] [1, 0] [0, 0, 0, 0, 0, 0] [[0x61]] [0, 28] [0, 1] [5]) = Some ''a''" by code_simp
  ultimately show ?thesis by simp
qed

end
