(* ===== verification/Watchlist.thy ===== *)
theory Watchlist
  imports Dns_Wire
begin

text \<open>
  The operator's egress watchlist (\<open>crates/smolvm-network/src/watchlist.rs\<close>): the file parser,
  name and address matching by digest, and the live source that reloads its file and reports a
  repeated match once a minute while refusing every time. The digest (\<open>sha2::Sha256\<close>) is a
  parameter of the definitions; so is the file, as its modification time and text at the moment
  of a call. The clock is read once per call.
\<close>

section \<open>The code\<close>

definition MAX_ENTRIES :: nat where "MAX_ENTRIES = 1000000"
definition RELOAD_CHECK_INTERVAL :: nat where "RELOAD_CHECK_INTERVAL = secs 30"
definition REPEAT_QUIET :: nat where "REPEAT_QUIET = secs 60"
definition MAX_REMEMBERED_MATCHES :: nat where "MAX_REMEMBERED_MATCHES = 4096"

record entry =
  entry_label :: string
  entry_block :: bool

record watchlist =
  dns_table :: "(bytes \<times> entry) list"
  ip_table :: "(bytes \<times> entry) list"

datatype watchlist_reason =
    ExpectedEntry | UnknownAction | BadLabel | ExpectedKind | BadDigest | BadKind | TooManyEntries

datatype watchlist_error = WatchlistError nat watchlist_reason

definition is_lower_hex :: "char \<Rightarrow> bool" where
  "is_lower_hex b \<longleftrightarrow> is_ascii_digit b \<or> 97 \<le> (of_char b :: nat) \<and> (of_char b :: nat) \<le> 102"

fun hex_bytes :: "string \<Rightarrow> bytes" where
  "hex_bytes (a # b # r) = of_nat (digits_value 16 [a, b]) # hex_bytes r"
| "hex_bytes _ = []"

definition parse_digest :: "string \<Rightarrow> bytes option" where
  "parse_digest hex =
     (if length hex \<noteq> 64 \<or> \<not> list_all is_lower_hex hex then None else Some (hex_bytes hex))"

definition valid_label :: "string \<Rightarrow> bool" where
  "valid_label l \<longleftrightarrow>
     1 \<le> length l \<and> length l \<le> 32 \<and>
     list_all (\<lambda>b. 97 \<le> (of_char b :: nat) \<and> (of_char b :: nat) \<le> 122 \<or> is_ascii_digit b \<or>
                    b = CHR ''_'' \<or> b = CHR ''-'') l"

definition empty_watchlist :: watchlist where
  "empty_watchlist = \<lparr>dns_table = [], ip_table = []\<rparr>"

definition parse_entry :: "string \<Rightarrow> watchlist_reason + (string \<times> bytes \<times> entry)" where
  "parse_entry line =
     (case split_whitespace line of
        [] \<Rightarrow> Inl ExpectedEntry
      | [_] \<Rightarrow> Inl ExpectedEntry
      | l # e # rest \<Rightarrow>
          if 2 \<le> length rest then Inl ExpectedEntry
          else if rest \<noteq> [] \<and> hd rest \<noteq> ''block'' then Inl UnknownAction
          else if \<not> valid_label l then Inl BadLabel
          else (case split_once (\<lambda>c. c = CHR '':'') e of
                  None \<Rightarrow> Inl ExpectedKind
                | Some (kind, hex) \<Rightarrow>
                    (case parse_digest hex of
                       None \<Rightarrow> Inl BadDigest
                     | Some d \<Rightarrow>
                         if kind = ''dns-sha256'' \<or> kind = ''ip-sha256''
                         then Inr (kind, d, \<lparr>entry_label = l, entry_block = (rest \<noteq> [])\<rparr>)
                         else Inl BadKind)))"

definition add_entry :: "watchlist \<Rightarrow> string \<Rightarrow> bytes \<Rightarrow> entry \<Rightarrow> watchlist" where
  "add_entry list kind d e =
     (if kind = ''dns-sha256'' then list\<lparr>dns_table := hm_insert d e (dns_table list)\<rparr>
      else list\<lparr>ip_table := hm_insert d e (ip_table list)\<rparr>)"

fun parse_lines :: "nat \<Rightarrow> string list \<Rightarrow> watchlist \<Rightarrow> watchlist_error + watchlist" where
  "parse_lines index [] list = Inr list"
| "parse_lines index (raw # rest) list =
     (let line = trim raw
      in if line = [] \<or> starts_with line ''#'' then parse_lines (Suc index) rest list
         else (case parse_entry line of
                 Inl reason \<Rightarrow> Inl (WatchlistError (Suc index) reason)
               | Inr (kind, d, e) \<Rightarrow>
                   let list' = add_entry list kind d e
                   in if MAX_ENTRIES < length (dns_table list') + length (ip_table list')
                      then Inl (WatchlistError (Suc index) TooManyEntries)
                      else parse_lines (Suc index) rest list'))"

definition watchlist_parse :: "string \<Rightarrow> watchlist_error + watchlist" where
  "watchlist_parse text = parse_lines 0 (lines text) empty_watchlist"

text \<open>The loop of \<open>entry_dns\<close>: the name, then each parent domain.\<close>

function entry_dns_loop :: "(string \<Rightarrow> bytes) \<Rightarrow> (bytes \<times> entry) list \<Rightarrow> string \<Rightarrow> entry option" where
  "entry_dns_loop digest table rest =
     (if rest = [] then None
      else (case map_of table (digest rest) of
              Some e \<Rightarrow> Some e
            | None \<Rightarrow>
                (case split_once (\<lambda>c. c = CHR ''.'') rest of
                   None \<Rightarrow> None
                 | Some (_, rest') \<Rightarrow> entry_dns_loop digest table rest')))"
  by pat_completeness auto
termination
  by (relation "measure (\<lambda>(digest, table, rest). length rest)") (auto simp: split_once_Some_iff)

declare entry_dns_loop.simps [simp del]

definition entry_dns :: "(string \<Rightarrow> bytes) \<Rightarrow> watchlist \<Rightarrow> string \<Rightarrow> entry option" where
  "entry_dns digest list name =
     (if dns_table list = [] then None
      else entry_dns_loop digest (dns_table list) (to_ascii_lowercase (trim_end_matches (CHR ''.'') name)))"

definition entry_ip :: "(string \<Rightarrow> bytes) \<Rightarrow> watchlist \<Rightarrow> ip_addr \<Rightarrow> entry option" where
  "entry_ip digest list a =
     (if ip_table list = [] then None else map_of (ip_table list) (digest (ip_to_string a)))"

record verdict =
  v_record :: "string option"
  v_block :: bool

record source_state =
  current_list :: watchlist
  list_modified :: "nat option"
  last_checked :: instant
  recent_matches :: "((string \<times> string) \<times> instant) list"

record watch_file =
  file_modified :: "nat option"
  file_text :: "string option"

definition watchlist_load :: "watch_file \<Rightarrow> watchlist option" where
  "watchlist_load f =
     (case file_text f of
        None \<Rightarrow> None
      | Some t \<Rightarrow> (case watchlist_parse t of Inl _ \<Rightarrow> None | Inr l \<Rightarrow> Some l))"

definition source_open :: "watch_file \<Rightarrow> instant \<Rightarrow> source_state option" where
  "source_open f now =
     (case file_modified f of
        None \<Rightarrow> None
      | Some m \<Rightarrow>
          (case watchlist_load f of
             None \<Rightarrow> None
           | Some l \<Rightarrow> Some \<lparr>current_list = l, list_modified = Some m, last_checked = now, recent_matches = []\<rparr>))"

definition source_current :: "watch_file \<Rightarrow> instant \<Rightarrow> source_state \<Rightarrow> source_state" where
  "source_current f now st =
     (if RELOAD_CHECK_INTERVAL \<le> now - last_checked st then
        let st = st\<lparr>last_checked := now\<rparr>
        in if file_modified f \<noteq> list_modified st then
             (let st = st\<lparr>list_modified := file_modified f\<rparr>
              in case watchlist_load f of
                   Some l \<Rightarrow> st\<lparr>current_list := l\<rparr>
                 | None \<Rightarrow> st)
           else st
      else st)"

definition default_verdict :: verdict where
  "default_verdict = \<lparr>v_record = None, v_block = False\<rparr>"

definition record_once ::
  "watch_file \<Rightarrow> instant \<Rightarrow> (watchlist \<Rightarrow> entry option) \<Rightarrow> string \<Rightarrow> source_state \<Rightarrow> verdict \<times> source_state" where
  "record_once f now matched dest st0 =
     (let st = source_current f now st0
      in case matched (current_list st) of
           None \<Rightarrow> (default_verdict, st)
         | Some e \<Rightarrow>
             let key = (entry_label e, dest);
                 quiet = (case map_of (recent_matches st) key of
                            Some at \<Rightarrow> now - at < REPEAT_QUIET | None \<Rightarrow> False);
                 st' = (if quiet then st
                        else let r = (if MAX_REMEMBERED_MATCHES \<le> length (recent_matches st) then [] else recent_matches st)
                             in st\<lparr>recent_matches := hm_insert key now r\<rparr>)
             in (\<lparr>v_record = (if quiet then None else Some (entry_label e)), v_block = entry_block e\<rparr>, st'))"

definition source_observe_dns ::
  "(string \<Rightarrow> bytes) \<Rightarrow> watch_file \<Rightarrow> instant \<Rightarrow> string \<Rightarrow> source_state \<Rightarrow> verdict \<times> source_state" where
  "source_observe_dns digest f now name st =
     record_once f now (\<lambda>l. entry_dns digest l name) name st"

definition source_observe_ip ::
  "(string \<Rightarrow> bytes) \<Rightarrow> watch_file \<Rightarrow> instant \<Rightarrow> ip_addr \<Rightarrow> string \<Rightarrow> source_state \<Rightarrow> verdict \<times> source_state" where
  "source_observe_ip digest f now a dest st =
     record_once f now (\<lambda>l. entry_ip digest l a) dest st"

section \<open>Matching is the first listed parent domain\<close>

fun first_some :: "('a \<Rightarrow> 'b option) \<Rightarrow> 'a list \<Rightarrow> 'b option" where
  "first_some f [] = None"
| "first_some f (x # xs) = (case f x of Some y \<Rightarrow> Some y | None \<Rightarrow> first_some f xs)"

fun tails :: "'a list \<Rightarrow> 'a list list" where
  "tails [] = []"
| "tails (x # xs) = (x # xs) # tails xs"

definition parent_domains :: "string \<Rightarrow> string list" where
  "parent_domains name = filter (\<lambda>d. d \<noteq> []) (map (join_char (CHR ''.'')) (tails (labels name)))"

lemma split_once_dot_labels:
  "split_once (\<lambda>c. c = CHR ''.'') s = Some (a, b) \<Longrightarrow> labels s = a # labels b"
  by (auto simp: split_once_Some_iff intro!: split_char_append_sep)

lemma split_once_dot_None: "split_once (\<lambda>c. c = CHR ''.'') s = None \<Longrightarrow> labels s = [s]"
proof -
  assume "split_once (\<lambda>c. c = CHR ''.'') s = None"
  then have "dropWhile (\<lambda>x. x \<noteq> CHR ''.'') s = []" by (auto simp: split_once_def split: list.splits)
  then have "CHR ''.'' \<notin> set s" by (auto simp: dropWhile_eq_Nil_conv)
  then show ?thesis by simp
qed

lemma parent_domains_step:
  "split_once (\<lambda>c. c = CHR ''.'') s = Some (a, b) \<Longrightarrow> parent_domains s = s # parent_domains b"
proof -
  assume sp: "split_once (\<lambda>c. c = CHR ''.'') s = Some (a, b)"
  then have "s \<noteq> []" by (auto simp: split_once_Some_iff)
  moreover have "join_char (CHR ''.'') (a # labels b) = s"
    using split_once_dot_labels [OF sp] join_split by metis
  ultimately show ?thesis
    by (simp add: parent_domains_def split_once_dot_labels [OF sp])
qed

lemma parent_domains_single:
  "split_once (\<lambda>c. c = CHR ''.'') s = None \<Longrightarrow> parent_domains s = (if s = [] then [] else [s])"
  by (simp add: parent_domains_def split_once_dot_None)

lemma entry_dns_loop_first:
  "entry_dns_loop digest table s = first_some (\<lambda>d. map_of table (digest d)) (parent_domains s)"
proof (induction digest table s rule: entry_dns_loop.induct)
  case (1 digest table s)
  show ?case
  proof (cases "split_once (\<lambda>c. c = CHR ''.'') s")
    case None
    then show ?thesis
      by (subst entry_dns_loop.simps) (auto simp: parent_domains_single split: option.splits)
  next
    case (Some ab)
    then obtain a b where sp: "split_once (\<lambda>c. c = CHR ''.'') s = Some (a, b)" by (cases ab) auto
    then have "s \<noteq> []" by (auto simp: split_once_Some_iff)
    with sp show ?thesis
      using "1.IH" [OF _ _ sp refl]
      by (subst entry_dns_loop.simps) (auto simp: parent_domains_step split: option.splits)
  qed
qed

section \<open>What a list holds\<close>

definition watchlist_ok :: "watchlist \<Rightarrow> bool" where
  "watchlist_ok l \<longleftrightarrow>
     distinct (map fst (dns_table l)) \<and> distinct (map fst (ip_table l)) \<and>
     length (dns_table l) + length (ip_table l) \<le> MAX_ENTRIES \<and>
     (\<forall>(d, e)\<in>set (dns_table l) \<union> set (ip_table l). length d = 32 \<and> valid_label (entry_label e))"

lemma length_hex_bytes: "length (hex_bytes h) = length h div 2"
  by (induction h rule: hex_bytes.induct) auto

lemma parse_digest_length: "parse_digest h = Some d \<Longrightarrow> length d = 32"
  by (auto simp: parse_digest_def length_hex_bytes split: if_splits)

lemma parse_entry_ok:
  "parse_entry line = Inr (kind, d, e) \<Longrightarrow> length d = 32 \<and> valid_label (entry_label e)"
  by (auto simp: parse_entry_def split: list.splits if_splits option.splits dest: parse_digest_length)

lemma set_hm_insert: "set (hm_insert k v m) \<subseteq> insert (k, v) (set m)"
  by (induction k v m rule: hm_insert.induct) auto

lemma add_entry_ok:
  assumes "watchlist_ok l" "length d = 32" "valid_label (entry_label e)"
    and "length (dns_table (add_entry l kind d e)) + length (ip_table (add_entry l kind d e)) \<le> MAX_ENTRIES"
  shows "watchlist_ok (add_entry l kind d e)"
  using assms set_hm_insert [of d e]
  by (fastforce simp: watchlist_ok_def add_entry_def hm_insert_distinct split: if_splits)

lemma parse_lines_ok: "parse_lines i ls l = Inr l' \<Longrightarrow> watchlist_ok l \<Longrightarrow> watchlist_ok l'"
proof (induction ls arbitrary: i l)
  case Nil
  then show ?case by simp
next
  case (Cons raw rest)
  from Cons.prems show ?case
    by (auto simp: Let_def not_less split: if_splits sum.splits prod.splits
        dest!: parse_entry_ok intro: Cons.IH add_entry_ok)
qed

lemma empty_watchlist_ok: "watchlist_ok empty_watchlist"
  by (simp add: watchlist_ok_def empty_watchlist_def)

lemma watchlist_parse_ok: "watchlist_parse t = Inr l \<Longrightarrow> watchlist_ok l"
  unfolding watchlist_parse_def using parse_lines_ok empty_watchlist_ok by blast

text \<open>Every state of a live source holds a well-formed list: a file that stops parsing keeps the
  last good one.\<close>

lemma watchlist_load_ok: "watchlist_load f = Some l \<Longrightarrow> watchlist_ok l"
  by (auto simp: watchlist_load_def split: option.splits sum.splits dest: watchlist_parse_ok)

lemma source_open_ok: "source_open f now = Some st \<Longrightarrow> watchlist_ok (current_list st)"
  by (auto simp: source_open_def split: option.splits dest: watchlist_load_ok)

lemma source_current_ok: "watchlist_ok (current_list st) \<Longrightarrow> watchlist_ok (current_list (source_current f now st))"
  by (auto simp: source_current_def Let_def split: option.splits dest: watchlist_load_ok)

lemma source_current_recent [simp]: "recent_matches (source_current f now st) = recent_matches st"
  by (auto simp: source_current_def Let_def split: option.splits)

lemma record_once_list [simp]:
  "current_list (snd (record_once f now m dest st)) = current_list (source_current f now st)"
  by (auto simp: record_once_def Let_def split: option.splits)

lemma record_once_block:
  "v_block (fst (record_once f now m dest st)) =
     (case m (current_list (source_current f now st)) of Some e \<Rightarrow> entry_block e | None \<Rightarrow> False)"
  by (auto simp: record_once_def Let_def default_verdict_def split: option.splits)

lemma record_once_remembers:
  "v_record (fst (record_once f now m dest st)) = Some l \<Longrightarrow>
   map_of (recent_matches (snd (record_once f now m dest st))) (l, dest) = Some now"
  by (auto simp: record_once_def Let_def default_verdict_def split: option.splits if_splits)

lemma record_once_quiet:
  assumes "map_of (recent_matches st) (l, dest) = Some at" and "now < at + REPEAT_QUIET"
  shows "v_record (fst (record_once f now m dest st)) \<noteq> Some l"
  using assms by (auto simp: record_once_def Let_def default_verdict_def REPEAT_QUIET_def secs_def split: option.splits)

section \<open>A source over time\<close>

datatype observation = ObserveDns string | ObserveIp ip_addr string

fun observe :: "(string \<Rightarrow> bytes) \<Rightarrow> source_state \<Rightarrow> watch_file \<times> instant \<times> observation \<Rightarrow> source_state" where
  "observe digest st (f, now, ObserveDns name) = snd (source_observe_dns digest f now name st)"
| "observe digest st (f, now, ObserveIp a dest) = snd (source_observe_ip digest f now a dest st)"

definition source_ok :: "source_state \<Rightarrow> bool" where
  "source_ok st \<longleftrightarrow>
     watchlist_ok (current_list st) \<and> distinct (map fst (recent_matches st)) \<and>
     length (recent_matches st) \<le> MAX_REMEMBERED_MATCHES"

lemma record_once_ok: "source_ok st \<Longrightarrow> source_ok (snd (record_once f now m dest st))"
proof -
  assume ok: "source_ok st"
  have "length (hm_insert k now r) \<le> MAX_REMEMBERED_MATCHES"
    if "r = (if MAX_REMEMBERED_MATCHES \<le> length (recent_matches st) then [] else recent_matches st)" for k :: "string \<times> string" and r
    using that hm_insert_length [of r k now] by (auto simp: MAX_REMEMBERED_MATCHES_def split: if_splits)
  with ok show ?thesis
    by (auto simp: source_ok_def source_current_ok record_once_def Let_def hm_insert_distinct split: option.splits)
qed

lemma observe_ok: "source_ok st \<Longrightarrow> source_ok (observe digest st ev)"
  by (cases "(digest, st, ev)" rule: observe.cases)
    (simp_all add: source_observe_dns_def source_observe_ip_def record_once_ok)

lemma entry_dns_first:
  "entry_dns digest l name = first_some (\<lambda>d. map_of (dns_table l) (digest d)) (parent_domains (normal_name name))"
proof -
  have "first_some (\<lambda>d. None) ds = (None :: entry option)" for ds :: "string list" by (induction ds) auto
  then show ?thesis by (simp add: entry_dns_def entry_dns_loop_first normal_name_def)
qed

section \<open>Properties\<close>

text \<open>a name is matched by the entry of its most specific listed parent domain: the lookup loop
  returns the first entry among the digests of the normalised name and its successive parents.\<close>

theorem entry_dns_most_specific:
  "entry_dns digest l name = first_some (\<lambda>d. map_of (dns_table l) (digest d)) (parent_domains (normal_name name))"
  by (rule entry_dns_first)

text \<open>rate limiting never lifts a block: an observed name is refused exactly when the list in force
  at that moment has a \<open>block\<close> entry for it, however recently the match was reported.\<close>

theorem block_never_quiet:
  "v_block (fst (source_observe_dns digest f now name st)) \<longleftrightarrow>
   (\<exists>e. entry_dns digest (current_list (source_current f now st)) name = Some e \<and> entry_block e)"
  by (simp add: source_observe_dns_def record_once_block split: option.splits)

text \<open>a match is reported at most once a minute: right after a report of a label for a name, the
  same label is not reported again for that name until sixty seconds have passed.\<close>

theorem one_report_per_minute:
  assumes "source_observe_dns digest f now name st = (v, st')" "v_record v = Some l"
    and "now' < now + secs 60"
  shows "v_record (fst (source_observe_dns digest f' now' name st')) \<noteq> Some l"
proof -
  have "map_of (recent_matches st') (l, name) = Some now"
    using assms record_once_remembers [of f now "\<lambda>l. entry_dns digest l name" name st l]
    by (simp add: source_observe_dns_def)
  with assms(3) show ?thesis
    unfolding source_observe_dns_def by (intro record_once_quiet) (simp_all add: REPEAT_QUIET_def)
qed

definition sample_source :: source_state where
  "sample_source =
     \<lparr>current_list = \<lparr>dns_table = [([1], \<lparr>entry_label = ''c2'', entry_block = True\<rparr>)], ip_table = []\<rparr>,
      list_modified = None, last_checked = 0, recent_matches = []\<rparr>"

theorem one_report_per_minute_witness:
  "v_record (fst (source_observe_dns (\<lambda>_. [1]) \<lparr>file_modified = None, file_text = None\<rparr> 5 ''a.b'' sample_source)) = Some ''c2'' \<and>
   v_record (fst (source_observe_dns (\<lambda>_. [1]) \<lparr>file_modified = None, file_text = None\<rparr> (secs 60) ''a.b''
     (snd (source_observe_dns (\<lambda>_. [1]) \<lparr>file_modified = None, file_text = None\<rparr> 5 ''a.b'' sample_source)))) \<noteq> Some ''c2''"
proof -
  have "v_record (fst (source_observe_dns (\<lambda>_. [1]) \<lparr>file_modified = None, file_text = None\<rparr> 5 ''a.b'' sample_source)) = Some ''c2''"
    by code_simp
  with one_report_per_minute [OF surjective_pairing this] show ?thesis by (simp add: secs_def)
qed

text \<open>whatever the watchlist file becomes and whatever is observed, a source always holds a
  well-formed list - 32-byte digests without duplicates, valid labels, at most a million entries -
  and remembers at most 4096 matches.\<close>

theorem source_always_well_formed:
  assumes "source_open f now = Some st"
  shows "source_ok (foldl (observe digest) st events)"
proof -
  have "source_ok st" using assms source_open_ok [OF assms]
    by (auto simp: source_open_def source_ok_def split: option.splits)
  then show ?thesis by (induction events arbitrary: st) (auto intro: observe_ok)
qed

theorem source_always_well_formed_witness:
  "\<exists>st. source_open \<lparr>file_modified = Some 1, file_text = Some ''# empty''\<rparr> 0 = Some st \<and>
     source_ok (foldl (observe (\<lambda>_. [1])) st
       [(\<lparr>file_modified = Some 2, file_text = Some ''garbage''\<rparr>, secs 40, ObserveDns ''a.b'')])"
proof -
  have "source_open \<lparr>file_modified = Some 1, file_text = Some ''# empty''\<rparr> 0 \<noteq> None" by code_simp
  then obtain st where "source_open \<lparr>file_modified = Some 1, file_text = Some ''# empty''\<rparr> 0 = Some st" by blast
  with source_always_well_formed [OF this] show ?thesis by blast
qed

end
