(* ===== verification/Egress_Policy.thy ===== *)
theory Egress_Policy
  imports Watchlist
begin

text \<open>
  The outbound egress policy of the virtio-net gateway (\<open>crates/smolvm-network/src/egress.rs\<close>,
  with the rule types of \<open>crates/smolvm-protocol/src/egress_rule.rs\<close>): CIDR parsing and
  containment, the allow list with the addresses learned from DNS answers, the platform floor,
  the ordered rule list, and the live replacement of a running machine's list. A policy is a
  record that every operation takes and returns. \<open>replace_allow_list\<close> runs on the control thread and
  takes the lock of the learned addresses and the lock of the rules one after the other; its two
  halves are the definitions \<open>replace_forget\<close> and \<open>replace_install\<close>, so that a learner of the
  polling thread can be interleaved between them.

  Parameters: the clock (\<open>now\<close>), the process environment, whether an audit record could be
  written (\<open>audit_ok\<close>, consulted only when a decision log is attached), the digest and file of the
  watchlist, and the JSON codec of rule lists (\<open>serde_json\<close>).
\<close>

unbundle bit_operations_syntax

section \<open>Rules\<close>

datatype flow_transport = Tcp | Udp | Icmp

datatype rule_action = Allow | Deny | Redirect

record port_range =
  port_start :: u16
  port_end :: u16

record egress_rule =
  er_transport :: "flow_transport option"
  er_cidr :: "string option"
  er_ports :: "port_range option"
  er_action :: rule_action

datatype cidr = CidrV4 u32 u32 | CidrV6 u128 u128

definition cidr_of :: "string \<Rightarrow> nat option \<Rightarrow> cidr option" where
  "cidr_of addr prefix0 =
     (case parse_ip addr of
        None \<Rightarrow> None
      | Some (V4 a) \<Rightarrow>
          let prefix = (case prefix0 of Some p \<Rightarrow> p | None \<Rightarrow> 32)
          in if 32 < prefix then None
             else let netmask = (if prefix = 0 then 0 else push_bit (32 - prefix) (- 1))
                  in Some (CidrV4 (a AND netmask) netmask)
      | Some (V6 a) \<Rightarrow>
          let prefix = (case prefix0 of Some p \<Rightarrow> p | None \<Rightarrow> 128)
          in if 128 < prefix then None
             else let netmask = (if prefix = 0 then 0 else push_bit (128 - prefix) (- 1))
                  in Some (CidrV6 (a AND netmask) netmask))"

definition cidr_parse :: "string \<Rightarrow> cidr option" where
  "cidr_parse spec =
     (case split_once (\<lambda>c. c = CHR ''/'') (trim spec) of
        Some (addr, prefix) \<Rightarrow>
          (case parse_uint 256 prefix of None \<Rightarrow> None | Some p \<Rightarrow> cidr_of addr (Some p))
      | None \<Rightarrow> cidr_of (trim spec) None)"

fun cidr_contains :: "cidr \<Rightarrow> ip_addr \<Rightarrow> bool" where
  "cidr_contains (CidrV4 network netmask) (V4 a) \<longleftrightarrow> a AND netmask = network"
| "cidr_contains (CidrV6 network netmask) (V6 a) \<longleftrightarrow> a AND netmask = network"
| "cidr_contains _ _ \<longleftrightarrow> False"

record compiled_rule =
  cr_transport :: "flow_transport option"
  cr_cidr :: "cidr option"
  cr_ports :: "port_range option"
  cr_action :: rule_action
  reopens_private :: bool

datatype policy_error =
    NotUtf8 | BadLine nat | BadRulesJson nat | RuleInvalidCidr nat | RuleInvalidPorts nat
  | RedirectRequiresTcp nat | NoAllowList | InvalidException string | InvalidRules string

definition compile_rule :: "nat \<Rightarrow> egress_rule \<Rightarrow> policy_error + compiled_rule" where
  "compile_rule index rule =
     (case (case er_cidr rule of
              None \<Rightarrow> Inr None
            | Some spec \<Rightarrow> (case cidr_parse spec of
                             None \<Rightarrow> Inl (RuleInvalidCidr index)
                           | Some c \<Rightarrow> Inr (Some c))) of
        Inl e \<Rightarrow> Inl e
      | Inr c \<Rightarrow>
          if (case er_ports rule of
                None \<Rightarrow> False
              | Some ports \<Rightarrow>
                  port_start ports = 0 \<or> port_end ports < port_start ports \<or>
                  er_transport rule = Some Icmp)
          then Inl (RuleInvalidPorts index)
          else if er_action rule = Redirect \<and> er_transport rule \<noteq> Some Tcp
          then Inl (RedirectRequiresTcp index)
          else Inr \<lparr>cr_transport = er_transport rule, cr_cidr = c, cr_ports = er_ports rule,
                    cr_action = er_action rule, reopens_private = False\<rparr>)"

fun compile_rules_from :: "nat \<Rightarrow> egress_rule list \<Rightarrow> policy_error + compiled_rule list" where
  "compile_rules_from index [] = Inr []"
| "compile_rules_from index (r # rs) =
     (case compile_rule index r of
        Inl e \<Rightarrow> Inl e
      | Inr c \<Rightarrow> (case compile_rules_from (Suc index) rs of Inl e \<Rightarrow> Inl e | Inr cs \<Rightarrow> Inr (c # cs)))"

definition compile_rules :: "egress_rule list \<Rightarrow> policy_error + compiled_rule list" where
  "compile_rules rules = compile_rules_from 0 rules"

section \<open>The allow list\<close>

record rules =
  cidrs :: "cidr list"
  allowed_hosts :: "string list option"

record learned =
  expires_at :: instant
  learned_name :: "string option"

record allow_list =
  list_rules :: rules
  learned_ips :: "ip_addr \<Rightarrow> learned option"

fun filter_map :: "('a \<Rightarrow> 'b option) \<Rightarrow> 'a list \<Rightarrow> 'b list" where
  "filter_map f [] = []"
| "filter_map f (x # xs) = (case f x of None \<Rightarrow> filter_map f xs | Some y \<Rightarrow> y # filter_map f xs)"

definition rules_build :: "string list option \<Rightarrow> string list option \<Rightarrow> rules" where
  "rules_build cs hs =
     \<lparr>cidrs = filter_map cidr_parse (case cs of Some l \<Rightarrow> l | None \<Rightarrow> []),
      allowed_hosts = map_option (filter_map normalize_hostname) hs\<rparr>"

definition rules_hostname_allowed :: "rules \<Rightarrow> string \<Rightarrow> bool" where
  "rules_hostname_allowed r h =
     (case allowed_hosts r of None \<Rightarrow> True | Some hosts \<Rightarrow> hostname_allowed h hosts)"

section \<open>The live message\<close>

definition newline :: string where "newline = [CHR 0x0A]"

definition render_live_policy :: "string list \<Rightarrow> string list \<Rightarrow> string" where
  "render_live_policy cs hs =
     ''# smolvm egress allow list'' @ newline @
     concat (map (\<lambda>c. ''cidr '' @ trim c @ newline) cs) @
     concat (map (\<lambda>h. ''host '' @ trim h @ newline) hs)"

definition render_live_rules ::
  "(egress_rule list \<Rightarrow> string option) \<Rightarrow> egress_rule list \<Rightarrow> policy_error + string" where
  "render_live_rules to_json rs =
     (case to_json rs of
        None \<Rightarrow> Inl (InvalidRules ''invalid rules'')
      | Some json \<Rightarrow> Inr (''rules '' @ json @ newline))"

record live_policy =
  lp_allow_list :: rules
  lp_rules :: "compiled_rule list option"

record live_lines =
  ll_cidrs :: "string list"
  ll_hosts :: "string list"
  ll_rules :: "compiled_rule list option"

definition parse_live_line ::
  "(string \<Rightarrow> egress_rule list option) \<Rightarrow> nat \<Rightarrow> string \<Rightarrow> live_lines \<Rightarrow> policy_error + live_lines" where
  "parse_live_line from_json index line acc =
     (case split_once_ws line of
        None \<Rightarrow> Inl (BadLine (Suc index))
      | Some (kind, value) \<Rightarrow>
          if kind = ''cidr'' \<and> cidr_parse (trim value) \<noteq> None then
            Inr (acc\<lparr>ll_cidrs := ll_cidrs acc @ [trim value]\<rparr>)
          else if kind = ''host'' \<and> trim value \<noteq> [] then
            Inr (acc\<lparr>ll_hosts := ll_hosts acc @ [trim value]\<rparr>)
          else if kind = ''rules'' \<and> ll_rules acc = None then
            (case from_json (trim value) of
               None \<Rightarrow> Inl (BadRulesJson (Suc index))
             | Some parsed \<Rightarrow>
                 (case compile_rules parsed of
                    Inl e \<Rightarrow> Inl e
                  | Inr cs \<Rightarrow> Inr (acc\<lparr>ll_rules := Some cs\<rparr>)))
          else Inl (BadLine (Suc index)))"

fun parse_live_lines ::
  "(string \<Rightarrow> egress_rule list option) \<Rightarrow> nat \<Rightarrow> string list \<Rightarrow> live_lines \<Rightarrow> policy_error + live_lines" where
  "parse_live_lines from_json index [] acc = Inr acc"
| "parse_live_lines from_json index (raw # rest) acc =
     (let line = trim raw
      in if line = [] \<or> starts_with line ''#'' then parse_live_lines from_json (Suc index) rest acc
         else (case parse_live_line from_json index line acc of
                 Inl e \<Rightarrow> Inl e
               | Inr acc' \<Rightarrow> parse_live_lines from_json (Suc index) rest acc'))"

definition parse_live_policy ::
  "(string \<Rightarrow> egress_rule list option) \<Rightarrow> bytes \<Rightarrow> policy_error + live_policy" where
  "parse_live_policy from_json bs =
     (case from_utf8 bs of
        None \<Rightarrow> Inl NotUtf8
      | Some text \<Rightarrow>
          (case parse_live_lines from_json 0 (lines text) \<lparr>ll_cidrs = [], ll_hosts = [], ll_rules = None\<rparr> of
             Inl e \<Rightarrow> Inl e
           | Inr acc \<Rightarrow>
               Inr \<lparr>lp_allow_list =
                      (if ll_cidrs acc = [] \<and> ll_hosts acc = [] then rules_build (Some []) (Some [])
                       else rules_build
                              (if ll_cidrs acc = [] then None else Some (ll_cidrs acc))
                              (if ll_hosts acc = [] then None else Some (ll_hosts acc))),
                    lp_rules = ll_rules acc\<rparr>))"

section \<open>The platform floor\<close>

datatype floor_mode = Off | MetadataOnly | MetadataAndLoopback | Strict | Private

definition parse_floor_override :: "string \<Rightarrow> floor_mode option" where
  "parse_floor_override v =
     (let s = to_ascii_lowercase (trim v)
      in if s = ''strict'' then Some Strict
         else if s = ''metadata'' \<or> s = ''metadata-only'' \<or> s = ''metadataonly'' then Some MetadataOnly
         else if s = ''off'' \<or> s = ''none'' then Some Off
         else None)"

definition utf8_string :: "string \<Rightarrow> bool" where
  "utf8_string s \<longleftrightarrow> valid_utf8 (str_bytes s)"

definition resolve_floor_mode :: "environment \<Rightarrow> floor_mode" where
  "resolve_floor_mode env =
     (case (case env ''SMOLVM_EGRESS_FLOOR'' of
              Some v \<Rightarrow> if utf8_string v then parse_floor_override v else None
            | None \<Rightarrow> None) of
        Some mode \<Rightarrow> mode
      | None \<Rightarrow>
          if env_flag utf8_string env ''SMOLVM_EGRESS_ALLOW_PRIVATE'' then Off
          else if env ''SMOLVM_PUBLISH_ADDR'' \<noteq> None then Strict
          else if env_flag utf8_string env ''SMOLVM_ALLOW_HOST_LOOPBACK'' then MetadataOnly
          else MetadataAndLoopback)"

definition is_link_local :: "ip_addr \<Rightarrow> bool" where
  "is_link_local a =
     (case a of
        V4 v4 \<Rightarrow> v4_is_link_local v4
      | V6 v6 \<Rightarrow>
          v6_segment0 v6 AND 0xFFC0 = 0xFE80 \<or>
          (case to_ipv4_mapped v6 of Some v4 \<Rightarrow> v4_is_link_local v4 | None \<Rightarrow> False))"

definition is_host_loopback :: "ip_addr \<Rightarrow> bool" where
  "is_host_loopback a =
     (case a of
        V4 v4 \<Rightarrow> v4_is_loopback v4 \<or> v4_is_unspecified v4
      | V6 v6 \<Rightarrow>
          v6_is_loopback v6 \<or> v6_is_unspecified v6 \<or>
          (case to_ipv4_mapped v6 of
             Some v4 \<Rightarrow> v4_is_loopback v4 \<or> v4_is_unspecified v4 | None \<Rightarrow> False))"

definition is_reserved_v4 :: "u32 \<Rightarrow> bool" where
  "is_reserved_v4 v4 \<longleftrightarrow>
     v4_is_loopback v4 \<or> v4_is_link_local v4 \<or> v4_is_private v4 \<or> v4_is_unspecified v4 \<or>
     v4_is_broadcast v4 \<or>
     (case v4_octets v4 of (a, b, _, _) \<Rightarrow> a = 100 \<and> 64 \<le> b \<and> b \<le> 127)"

definition is_floored :: "ip_addr \<Rightarrow> floor_mode \<Rightarrow> bool" where
  "is_floored a mode =
     (case mode of
        Off \<Rightarrow> False
      | MetadataOnly \<Rightarrow> is_link_local a
      | MetadataAndLoopback \<Rightarrow> is_link_local a \<or> is_host_loopback a
      | _ \<Rightarrow>
          (case a of
             V4 v4 \<Rightarrow> is_reserved_v4 v4
           | V6 v6 \<Rightarrow>
               v6_is_loopback v6 \<or> v6_is_unspecified v6 \<or>
               v6_segment0 v6 AND 0xFFC0 = 0xFE80 \<or> v6_segment0 v6 AND 0xFE00 = 0xFC00 \<or>
               (case to_ipv4_mapped v6 of Some v4 \<Rightarrow> is_reserved_v4 v4 | None \<Rightarrow> False)))"

section \<open>The policy\<close>

record egress_policy =
  inner :: "allow_list option"
  policy_rules :: "compiled_rule list"
  policy_floor :: floor_mode
  denial_log :: "string option"
  policy_watchlist :: "source_state option"
  signal_log :: "string option"
  decision_log :: "(bytes \<times> bytes) option"

definition unrestricted :: "environment \<Rightarrow> egress_policy" where
  "unrestricted env =
     \<lparr>inner = None, policy_rules = [], policy_floor = resolve_floor_mode env, denial_log = None,
      policy_watchlist = None, signal_log = None, decision_log = None\<rparr>"

definition policy_new :: "environment \<Rightarrow> string list option \<Rightarrow> string list option \<Rightarrow> egress_policy" where
  "policy_new env cs hs =
     (if cs = None \<and> hs = None then unrestricted env
      else (unrestricted env)
             \<lparr>inner := Some \<lparr>list_rules = rules_build cs hs, learned_ips = (\<lambda>_. None)\<rparr>\<rparr>)"

definition deny_all :: "environment \<Rightarrow> egress_policy" where
  "deny_all env = policy_new env (Some []) (Some [])"

definition retain_learned :: "(learned \<Rightarrow> bool) \<Rightarrow> (ip_addr \<Rightarrow> learned option) \<Rightarrow> ip_addr \<Rightarrow> learned option" where
  "retain_learned keep m a =
     (case m a of Some e \<Rightarrow> if keep e then Some e else None | None \<Rightarrow> None)"

definition replace_rules :: "compiled_rule list option \<Rightarrow> egress_policy \<Rightarrow> egress_policy" where
  "replace_rules new p =
     (case new of
        None \<Rightarrow> p
      | Some rs \<Rightarrow> p\<lparr>policy_rules := rs @ filter reopens_private (policy_rules p)\<rparr>)"

definition replace_forget :: "rules \<Rightarrow> egress_policy \<Rightarrow> egress_policy" where
  "replace_forget next_rules p =
     p\<lparr>inner := map_option
         (\<lambda>l. l\<lparr>learned_ips :=
            retain_learned
              (\<lambda>e. case learned_name e of
                     None \<Rightarrow> True | Some n \<Rightarrow> rules_hostname_allowed next_rules n)
              (learned_ips l)\<rparr>)
         (inner p)\<rparr>"

definition replace_install :: "rules \<Rightarrow> egress_policy \<Rightarrow> egress_policy" where
  "replace_install next_rules p =
     p\<lparr>inner := map_option (\<lambda>l. l\<lparr>list_rules := next_rules\<rparr>) (inner p)\<rparr>"

definition replace_allow_list ::
  "(string \<Rightarrow> egress_rule list option) \<Rightarrow> string \<Rightarrow> egress_policy \<Rightarrow> policy_error + egress_policy" where
  "replace_allow_list from_json rendered p =
     (case inner p of
        None \<Rightarrow> Inl NoAllowList
      | Some _ \<Rightarrow>
          (case parse_live_policy from_json (str_bytes rendered) of
             Inl e \<Rightarrow> Inl e
           | Inr lp \<Rightarrow>
               Inr (replace_install (lp_allow_list lp)
                 (replace_forget (lp_allow_list lp) (replace_rules (lp_rules lp) p)))))"

definition with_rules :: "egress_rule list \<Rightarrow> egress_policy \<Rightarrow> policy_error + egress_policy" where
  "with_rules rs p =
     (case compile_rules rs of Inl e \<Rightarrow> Inl e | Inr cs \<Rightarrow> Inr (p\<lparr>policy_rules := cs\<rparr>))"

fun exception_rules :: "string list \<Rightarrow> policy_error + compiled_rule list" where
  "exception_rules [] = Inr []"
| "exception_rules (spec # specs) =
     (case cidr_parse spec of
        None \<Rightarrow> Inl (InvalidException spec)
      | Some c \<Rightarrow>
          (case exception_rules specs of
             Inl e \<Rightarrow> Inl e
           | Inr rs \<Rightarrow> Inr (\<lparr>cr_transport = None, cr_cidr = Some c, cr_ports = None,
                             cr_action = Allow, reopens_private = True\<rparr> # rs)))"

definition with_private_floor :: "string list \<Rightarrow> egress_policy \<Rightarrow> policy_error + egress_policy" where
  "with_private_floor exceptions p =
     (case exception_rules exceptions of
        Inl e \<Rightarrow> Inl e
      | Inr rs \<Rightarrow>
          Inr (p\<lparr>policy_rules := policy_rules p @ rs,
                 policy_floor := (if policy_floor p \<noteq> Strict then Private else policy_floor p)\<rparr>))"

definition mapped_v4 :: "ip_addr \<Rightarrow> ip_addr option" where
  "mapped_v4 a = (case a of V6 v6 \<Rightarrow> map_option V4 (to_ipv4_mapped v6) | V4 _ \<Rightarrow> None)"

definition rule_matches :: "flow_transport \<Rightarrow> ip_addr \<Rightarrow> u16 option \<Rightarrow> compiled_rule \<Rightarrow> bool" where
  "rule_matches t a port rule \<longleftrightarrow>
     (case cr_transport rule of None \<Rightarrow> True | Some v \<Rightarrow> v = t) \<and>
     (case cr_cidr rule of
        None \<Rightarrow> True
      | Some c \<Rightarrow>
          cidr_contains c a \<or>
          (case mapped_v4 a of Some v4 \<Rightarrow> cidr_contains c v4 | None \<Rightarrow> False)) \<and>
     (case cr_ports rule of
        None \<Rightarrow> True
      | Some ports \<Rightarrow>
          (case port of
             None \<Rightarrow> False
           | Some n \<Rightarrow> port_start ports \<le> n \<and> n \<le> port_end ports))"

definition decide_rule_action ::
  "egress_policy \<Rightarrow> flow_transport \<Rightarrow> ip_addr \<Rightarrow> u16 option \<Rightarrow> rule_action option" where
  "decide_rule_action p t a port =
     (case find (rule_matches t a port) (policy_rules p) of
        None \<Rightarrow> None
      | Some first \<Rightarrow>
          if \<not> is_floored a (policy_floor p) then Some (cr_action first)
          else if policy_floor p = Private then
            Some (if cr_action first = Allow \<and> \<not> is_link_local a \<and>
                     (reopens_private first \<or> cr_transport first \<noteq> Some Udp \<or>
                      list_ex (rule_matches t a port) (filter reopens_private (policy_rules p)))
                  then Allow else Deny)
          else if policy_floor p \<noteq> Strict \<and> is_host_loopback a \<and> cr_action first = Allow
          then Some (cr_action first)
          else Some Deny)"

definition policy_allows :: "egress_policy \<Rightarrow> instant \<Rightarrow> ip_addr \<Rightarrow> bool" where
  "policy_allows p now a =
     (if is_floored a (policy_floor p) then
        (if policy_floor p \<noteq> Strict \<and> is_host_loopback a then
           (case inner p of
              None \<Rightarrow> False
            | Some l \<Rightarrow> list_ex (\<lambda>c. cidr_contains c a) (cidrs (list_rules l)))
         else False)
      else
        (case inner p of
           None \<Rightarrow> True
         | Some l \<Rightarrow>
             list_ex (\<lambda>c. cidr_contains c a) (cidrs (list_rules l)) \<or>
             (case learned_ips l a of Some e \<Rightarrow> now < expires_at e | None \<Rightarrow> False)))"

definition allows_flow ::
  "egress_policy \<Rightarrow> instant \<Rightarrow> flow_transport \<Rightarrow> ip_addr \<Rightarrow> u16 option \<Rightarrow> bool" where
  "allows_flow p now t a port =
     (case decide_rule_action p t a port of
        Some Allow \<Rightarrow> True
      | Some Redirect \<Rightarrow> True
      | Some Deny \<Rightarrow> False
      | None \<Rightarrow> policy_allows p now a)"

definition deny_all_datagrams :: "egress_policy \<Rightarrow> egress_policy" where
  "deny_all_datagrams p =
     p\<lparr>inner := Some \<lparr>list_rules = \<lparr>cidrs = [], allowed_hosts = None\<rparr>, learned_ips = (\<lambda>_. None)\<rparr>\<rparr>"

definition is_restricted :: "egress_policy \<Rightarrow> bool" where
  "is_restricted p \<longleftrightarrow> inner p \<noteq> None \<or> policy_rules p \<noteq> []"

definition dns_filter_active :: "egress_policy \<Rightarrow> bool" where
  "dns_filter_active p =
     (case inner p of None \<Rightarrow> False | Some l \<Rightarrow> allowed_hosts (list_rules l) \<noteq> None)"

definition record_decision :: "egress_policy \<Rightarrow> bool \<Rightarrow> bool" where
  "record_decision p audit_ok = (case decision_log p of None \<Rightarrow> True | Some _ \<Rightarrow> audit_ok)"

definition policy_hostname_allowed :: "egress_policy \<Rightarrow> bool \<Rightarrow> string \<Rightarrow> bool" where
  "policy_hostname_allowed p audit_ok hostname =
     ((case inner p of None \<Rightarrow> True | Some l \<Rightarrow> rules_hostname_allowed (list_rules l) hostname) \<and>
      record_decision p audit_ok)"

definition clamp_ttl :: "nat \<Rightarrow> nat" where
  "clamp_ttl ttl = max 60 (min 3600 ttl)"

definition learn_one ::
  "instant \<Rightarrow> string option \<Rightarrow> ip_addr \<times> u32 \<Rightarrow> (ip_addr \<Rightarrow> learned option) \<Rightarrow> ip_addr \<Rightarrow> learned option" where
  "learn_one now name record m =
     (case record of (a, ttl) \<Rightarrow>
        let expires = now + secs (clamp_ttl (unat ttl));
            fresh = \<lparr>expires_at = expires, learned_name = name\<rparr>
        in case m a of
             None \<Rightarrow> m(a \<mapsto> fresh)
           | Some e \<Rightarrow> if expires_at e \<le> expires then m(a \<mapsto> fresh) else m)"

definition learn :: "instant \<Rightarrow> string option \<Rightarrow> (ip_addr \<times> u32) list \<Rightarrow> egress_policy \<Rightarrow> egress_policy" where
  "learn now name records p =
     (case inner p of
        None \<Rightarrow> p
      | Some l \<Rightarrow>
          let m = retain_learned (\<lambda>e. now < expires_at e) (learned_ips l)
          in p\<lparr>inner := Some (l\<lparr>learned_ips := fold (learn_one now name) records m\<rparr>)\<rparr>)"

definition learn_ip_records :: "instant \<Rightarrow> (ip_addr \<times> u32) list \<Rightarrow> egress_policy \<Rightarrow> egress_policy" where
  "learn_ip_records now records p = learn now None records p"

definition learn_dns_answer :: "instant \<Rightarrow> bytes \<Rightarrow> egress_policy \<Rightarrow> egress_policy" where
  "learn_dns_answer now answer p =
     (let name = Option.bind (question_name answer) normalize_hostname
      in case (inner p, name) of
           (Some l, Some n) \<Rightarrow>
             if \<not> rules_hostname_allowed (list_rules l) n then p
             else learn now name (answer_ip_records answer) p
         | _ \<Rightarrow> learn now name (answer_ip_records answer) p)"

definition watching :: "egress_policy \<Rightarrow> bool" where
  "watching p \<longleftrightarrow> policy_watchlist p \<noteq> None"

definition with_denial_log :: "string \<Rightarrow> egress_policy \<Rightarrow> egress_policy" where
  "with_denial_log path p = p\<lparr>denial_log := Some path\<rparr>"

definition with_mediation_audit :: "bytes \<Rightarrow> bytes \<Rightarrow> egress_policy \<Rightarrow> egress_policy" where
  "with_mediation_audit machine_id parent_id p = p\<lparr>decision_log := Some (machine_id, parent_id)\<rparr>"

definition with_watchlist :: "watch_file \<Rightarrow> instant \<Rightarrow> string \<Rightarrow> egress_policy \<Rightarrow> egress_policy" where
  "with_watchlist f now log p = p\<lparr>policy_watchlist := source_open f now, signal_log := Some log\<rparr>"

text \<open>\<open>observe_dns\<close> and \<open>observe_destination\<close>: whether a \<open>block\<close> entry refuses the name or address,
  the label recorded (if any), and the policy with the source's new state.\<close>

definition observe_dns ::
  "(string \<Rightarrow> bytes) \<Rightarrow> watch_file \<Rightarrow> instant \<Rightarrow> string \<Rightarrow> egress_policy \<Rightarrow> bool \<times> string option \<times> egress_policy" where
  "observe_dns digest f now name p =
     (case policy_watchlist p of
        None \<Rightarrow> (False, None, p)
      | Some st \<Rightarrow>
          (case source_observe_dns digest f now name st of
             (v, st') \<Rightarrow> (v_block v, v_record v, p\<lparr>policy_watchlist := Some st'\<rparr>)))"

definition socket_to_string :: "ip_addr \<Rightarrow> u16 \<Rightarrow> string" where
  "socket_to_string a port =
     (case a of
        V4 _ \<Rightarrow> ip_to_string a @ '':'' @ show_radix 10 (unat port)
      | V6 _ \<Rightarrow> ''['' @ ip_to_string a @ '']:'' @ show_radix 10 (unat port))"

definition observe_destination ::
  "(string \<Rightarrow> bytes) \<Rightarrow> watch_file \<Rightarrow> instant \<Rightarrow> ip_addr \<Rightarrow> u16 \<Rightarrow> egress_policy \<Rightarrow> bool \<times> string option \<times> egress_policy" where
  "observe_destination digest f now a port p =
     (case policy_watchlist p of
        None \<Rightarrow> (False, None, p)
      | Some st \<Rightarrow>
          (case source_observe_ip digest f now a (socket_to_string a port) st of
             (v, st') \<Rightarrow> (v_block v, v_record v, p\<lparr>policy_watchlist := Some st'\<rparr>)))"


section \<open>CIDR blocks\<close>

definition block_contains :: "ip_addr \<Rightarrow> nat \<Rightarrow> ip_addr \<Rightarrow> bool" where
  "block_contains base n a =
     (case (base, a) of
        (V4 b, V4 x) \<Rightarrow> drop_bit (32 - n) x = drop_bit (32 - n) b
      | (V6 b, V6 x) \<Rightarrow> drop_bit (128 - n) x = drop_bit (128 - n) b
      | _ \<Rightarrow> False)"

lemmas and_not_mask_eq_iff = and_prefix_mask_eq_iff [unfolded push_bit_minus_one_eq_not_mask]

lemma cidr_of_contains:
  assumes "cidr_of addr prefix = Some c" "parse_ip addr = Some base"
  shows "cidr_contains c a \<longleftrightarrow>
    block_contains base (case prefix of Some p \<Rightarrow> p | None \<Rightarrow> (case base of V4 _ \<Rightarrow> 32 | V6 _ \<Rightarrow> 128)) a"
proof (cases base)
  case (V4 b)
  have zero: "drop_bit 32 (x :: u32) = 0" for x
    by (rule bit_word_eqI) (auto simp: bit_drop_bit_eq dest: bit_imp_le_length)
  from assms V4 show ?thesis
    by (cases a) (auto simp: cidr_of_def block_contains_def Let_def and_not_mask_eq_iff zero
        split: if_splits option.splits)
next
  case (V6 b)
  have zero: "drop_bit 128 (x :: u128) = 0" for x
    by (rule bit_word_eqI) (auto simp: bit_drop_bit_eq dest: bit_imp_le_length)
  from assms V6 show ?thesis
    by (cases a) (auto simp: cidr_of_def block_contains_def Let_def and_not_mask_eq_iff zero
        split: if_splits option.splits)
qed

section \<open>The floor\<close>

lemma v4_link_local_not_loopback: "v4_is_link_local v \<Longrightarrow> \<not> v4_is_loopback v \<and> \<not> v4_is_unspecified v"
  by (auto simp: v4_is_link_local_def v4_is_loopback_def v4_is_unspecified_def v4_octets_def)

lemma mapped_segment0: "to_ipv4_mapped v6 = Some v4 \<Longrightarrow> v6_segment0 v6 = 0"
proof -
  assume "to_ipv4_mapped v6 = Some v4"
  then have "drop_bit 32 v6 = 0xFFFF" by (auto simp: to_ipv4_mapped_def split: if_splits)
  then have "drop_bit 80 (drop_bit 32 v6) = drop_bit 80 (0xFFFF :: u128)" by simp
  then show ?thesis by (simp add: v6_segment0_def)
qed

lemma link_local_not_loopback: "is_link_local a \<Longrightarrow> \<not> is_host_loopback a"
proof (cases a)
  case (V4 v)
  assume "is_link_local a"
  with V4 show ?thesis using v4_link_local_not_loopback [of v] by (simp add: is_link_local_def is_host_loopback_def)
next
  case (V6 v)
  assume ll: "is_link_local a"
  show ?thesis
  proof (cases "to_ipv4_mapped v")
    case None
    with ll V6 have "v6_segment0 v AND 0xFFC0 = 0xFE80" by (simp add: is_link_local_def)
    then have "v \<noteq> 1 \<and> v \<noteq> 0" by (auto simp: v6_segment0_def)
    with None V6 show ?thesis by (simp add: is_host_loopback_def v6_is_loopback_def v6_is_unspecified_def)
  next
    case (Some w)
    then have "v \<noteq> 0" "v \<noteq> 1" by (auto simp: to_ipv4_mapped_def split: if_splits)
    moreover have "v4_is_link_local w" using ll V6 Some mapped_segment0 [OF Some] by (simp add: is_link_local_def)
    ultimately show ?thesis using V6 Some v4_link_local_not_loopback [of w]
      by (simp add: is_host_loopback_def v6_is_loopback_def v6_is_unspecified_def)
  qed
qed

lemma link_local_floored: "is_link_local a \<Longrightarrow> mode \<noteq> Off \<Longrightarrow> is_floored a mode"
  by (cases mode; cases a) (auto simp: is_floored_def is_link_local_def is_reserved_v4_def split: option.splits)

text \<open>An address spelled as IPv4-mapped IPv6 is classified as its IPv4 form.\<close>

lemma to_ipv6_mapped_ne: "to_ipv6_mapped v \<noteq> 0" "to_ipv6_mapped v \<noteq> 1"
proof -
  have "to_ipv4_mapped (to_ipv6_mapped v) \<noteq> None" by simp
  then show "to_ipv6_mapped v \<noteq> 0" "to_ipv6_mapped v \<noteq> 1" by (auto simp: to_ipv4_mapped_def)
qed

lemma mapped_link_local: "is_link_local (V6 (to_ipv6_mapped v)) = is_link_local (V4 v)"
  using mapped_segment0 [OF to_ipv4_mapped_of_mapped, of v] by (simp add: is_link_local_def)

lemma mapped_host_loopback: "is_host_loopback (V6 (to_ipv6_mapped v)) = is_host_loopback (V4 v)"
  using to_ipv6_mapped_ne by (simp add: is_host_loopback_def v6_is_loopback_def v6_is_unspecified_def)

lemma mapped_floored: "is_floored (V6 (to_ipv6_mapped v)) mode = is_floored (V4 v) mode"
  using to_ipv6_mapped_ne mapped_segment0 [OF to_ipv4_mapped_of_mapped, of v]
  by (cases mode) (simp_all add: is_floored_def mapped_link_local mapped_host_loopback
      v6_is_loopback_def v6_is_unspecified_def)

lemma floored_flow_cases:
  assumes "is_floored a (policy_floor p)" "allows_flow p now t a port"
  shows "policy_floor p \<noteq> Strict \<and> \<not> is_link_local a"
proof -
  have "\<not> is_link_local a \<or> \<not> is_host_loopback a" using link_local_not_loopback by blast
  with assms show ?thesis
    by (auto simp: allows_flow_def decide_rule_action_def policy_allows_def
        split: option.splits if_splits rule_action.splits)
qed

section \<open>Rules and spellings of an address\<close>

definition v4_rule :: "compiled_rule \<Rightarrow> bool" where
  "v4_rule r \<longleftrightarrow> (case cr_cidr r of Some (CidrV6 _ _) \<Rightarrow> False | _ \<Rightarrow> True)"

lemma mapped_v4_of_mapped: "mapped_v4 (V6 (to_ipv6_mapped v)) = Some (V4 v)"
  by (simp add: mapped_v4_def)

lemma rule_matches_mapped:
  "v4_rule r \<Longrightarrow> rule_matches t (V6 (to_ipv6_mapped v)) port r = rule_matches t (V4 v) port r"
  by (auto simp: v4_rule_def rule_matches_def mapped_v4_of_mapped mapped_v4_def
      split: option.splits cidr.splits)

lemma rule_matches_mapped_mono:
  "rule_matches t (V4 v) port r \<Longrightarrow> rule_matches t (V6 (to_ipv6_mapped v)) port r"
  by (auto simp: rule_matches_def mapped_v4_of_mapped mapped_v4_def split: option.splits)

lemma find_cong_list: "(\<And>x. x \<in> set xs \<Longrightarrow> P x = Q x) \<Longrightarrow> find P xs = find Q xs"
  by (induction xs) auto

lemma list_ex_cong_list: "(\<And>x. x \<in> set xs \<Longrightarrow> P x = Q x) \<Longrightarrow> list_ex P xs = list_ex Q xs"
  by (induction xs) auto

lemma decide_mapped:
  assumes "list_all v4_rule (policy_rules p)"
  shows "decide_rule_action p t (V6 (to_ipv6_mapped v)) port = decide_rule_action p t (V4 v) port"
proof -
  have eq: "rule_matches t (V6 (to_ipv6_mapped v)) port r = rule_matches t (V4 v) port r"
    if "r \<in> set (policy_rules p)" for r
    using assms that rule_matches_mapped by (simp add: list_all_iff)
  have "find (rule_matches t (V6 (to_ipv6_mapped v)) port) (policy_rules p) =
      find (rule_matches t (V4 v) port) (policy_rules p)"
    by (rule find_cong_list) (rule eq)
  moreover have "list_ex (rule_matches t (V6 (to_ipv6_mapped v)) port) (filter reopens_private (policy_rules p)) =
      list_ex (rule_matches t (V4 v) port) (filter reopens_private (policy_rules p))"
    by (rule list_ex_cong_list) (simp add: eq)
  ultimately show ?thesis
    by (simp add: decide_rule_action_def mapped_floored mapped_link_local mapped_host_loopback split: option.splits)
qed

definition rule_ok :: "compiled_rule \<Rightarrow> bool" where
  "rule_ok r \<longleftrightarrow>
     (case cr_ports r of
        None \<Rightarrow> True
      | Some ports \<Rightarrow> 0 < port_start ports \<and> port_start ports \<le> port_end ports \<and> cr_transport r \<noteq> Some Icmp) \<and>
     (cr_action r = Redirect \<longrightarrow> cr_transport r = Some Tcp)"

lemma compile_rule_ok: "compile_rule i r = Inr c \<Longrightarrow> rule_ok c \<and> \<not> reopens_private c \<and> cr_action c = er_action r"
  by (auto simp: compile_rule_def rule_ok_def word_neq_0_conv not_less split: option.splits if_splits sum.splits)

lemma compile_rules_from_ok:
  "compile_rules_from i rs = Inr cs \<Longrightarrow>
   list_all rule_ok cs \<and> list_all (\<lambda>c. \<not> reopens_private c) cs \<and> map cr_action cs = map er_action rs"
  by (induction rs arbitrary: i cs) (auto split: sum.splits dest!: compile_rule_ok)

section \<open>What the allow list admits\<close>

definition statically_allowed :: "egress_policy \<Rightarrow> ip_addr \<Rightarrow> bool" where
  "statically_allowed p a \<longleftrightarrow>
     (case inner p of None \<Rightarrow> False | Some l \<Rightarrow> \<exists>c\<in>set (cidrs (list_rules l)). cidr_contains c a)"

definition learned_live :: "egress_policy \<Rightarrow> instant \<Rightarrow> ip_addr \<Rightarrow> learned \<Rightarrow> bool" where
  "learned_live p now a e \<longleftrightarrow>
     (case inner p of None \<Rightarrow> False | Some l \<Rightarrow> learned_ips l a = Some e \<and> now < expires_at e)"

lemma policy_allows_iff:
  assumes "inner p = Some l"
  shows "policy_allows p now a \<longleftrightarrow>
    (if is_floored a (policy_floor p)
     then policy_floor p \<noteq> Strict \<and> is_host_loopback a \<and> statically_allowed p a
     else statically_allowed p a \<or> (\<exists>e. learned_live p now a e))"
  using assms
  by (auto simp: policy_allows_def statically_allowed_def learned_live_def list_ex_iff split: option.splits)

definition set_learned :: "(ip_addr \<Rightarrow> learned option) \<Rightarrow> egress_policy \<Rightarrow> egress_policy" where
  "set_learned m p = p\<lparr>inner := map_option (\<lambda>l. l\<lparr>learned_ips := m\<rparr>) (inner p)\<rparr>"

lemma floored_ignores_learned:
  "is_floored a (policy_floor p) \<Longrightarrow> allows_flow (set_learned m p) now t a port = allows_flow p now t a port"
  by (auto simp: allows_flow_def decide_rule_action_def policy_allows_def set_learned_def
      split: option.splits rule_action.splits)

section \<open>The floor as address blocks\<close>

text \<open>The reserved ranges by their published prefixes, independent of the code's octet tests.\<close>

definition reserved_v4_blocks :: "(u32 \<times> nat) list" where
  "reserved_v4_blocks =
     [(0x7F000000, 8), (0xA9FE0000, 16), (0x0A000000, 8), (0xAC100000, 12), (0xC0A80000, 16),
      (0, 32), (0xFFFFFFFF, 32), (0x64400000, 10)]"

definition reserved_v6_blocks :: "(u128 \<times> nat) list" where
  "reserved_v6_blocks = [(1, 128), (0, 128), (push_bit 112 0xFE80, 10), (push_bit 112 0xFC00, 7)]"

definition metadata_address :: "ip_addr \<Rightarrow> bool" where
  "metadata_address a \<longleftrightarrow>
     block_contains (V4 0xA9FE0000) 16 a \<or> block_contains (V6 (push_bit 112 0xFE80)) 10 a \<or>
     (\<exists>v. a = V6 (to_ipv6_mapped v) \<and> block_contains (V4 0xA9FE0000) 16 (V4 v))"

definition reserved_address :: "ip_addr \<Rightarrow> bool" where
  "reserved_address a \<longleftrightarrow>
     (\<exists>(b, n)\<in>set reserved_v4_blocks. block_contains (V4 b) n a) \<or>
     (\<exists>(b, n)\<in>set reserved_v6_blocks. block_contains (V6 b) n a) \<or>
     (\<exists>v. a = V6 (to_ipv6_mapped v) \<and> (\<exists>(b, n)\<in>set reserved_v4_blocks. block_contains (V4 b) n (V4 v)))"

lemma v6_mapped_inv: "to_ipv4_mapped x = Some v \<longleftrightarrow> x = to_ipv6_mapped v"
proof
  assume a: "to_ipv4_mapped x = Some v"
  then have d: "drop_bit 32 x = 0xFFFF" and v: "v = ucast x" by (auto simp: to_ipv4_mapped_def split: if_splits)
  have "x = push_bit 32 (drop_bit 32 x) OR take_bit 32 x" by (rule bit_word_eqI) (auto simp: bit_simps)
  also have "take_bit 32 x = ucast v" by (rule bit_word_eqI) (auto simp: v bit_simps)
  finally show "x = to_ipv6_mapped v" by (simp add: d to_ipv6_mapped_def)
qed simp

lemma to_ipv6_mapped_inject [simp]: "to_ipv6_mapped a = to_ipv6_mapped b \<longleftrightarrow> a = b"
  by (metis option.inject to_ipv4_mapped_of_mapped)

lemma mapped_case: "(case to_ipv4_mapped x of Some v \<Rightarrow> P v | None \<Rightarrow> False) \<longleftrightarrow> (\<exists>v. x = to_ipv6_mapped v \<and> P v)"
  by (cases "to_ipv4_mapped x") (auto simp: v6_mapped_inv)

lemma unat_drop_u32: "unat (drop_bit n (v :: u32)) = unat v div 2 ^ n"
  unfolding unat_drop_bit_eq by (rule drop_bit_eq_div)

lemma unat_octet: "unat (ucast (drop_bit n (v :: u32)) :: u8) = unat v div 2 ^ n mod 256"
  by (simp add: unsigned_ucast_eq take_bit_eq_mod unat_drop_u32)

lemma octets_nat:
  fixes v :: u32
  defines "m \<equiv> unat v div 65536"
  shows "unat (ucast (drop_bit 24 v) :: u8) = m div 256" "unat (ucast (drop_bit 16 v) :: u8) = m mod 256"
    "m < 65536"
proof -
  have "unat v < 2 ^ LENGTH(32)" by (rule unsigned_less)
  then show "m < 65536" by (simp add: m_def)
  then show "unat (ucast (drop_bit 24 v) :: u8) = m div 256" by (simp add: unat_octet m_def div_mult2_eq [symmetric])
  show "unat (ucast (drop_bit 16 v) :: u8) = m mod 256" by (simp add: unat_octet m_def)
qed

lemma v4_block_nat:
  fixes v :: u32
  defines "m \<equiv> unat v div 65536"
  shows "drop_bit 24 v = w \<longleftrightarrow> m div 256 = unat w" "drop_bit 22 v = w \<longleftrightarrow> m div 64 = unat w"
    "drop_bit 20 v = w \<longleftrightarrow> m div 16 = unat w" "drop_bit 16 v = w \<longleftrightarrow> m = unat w"
  by (simp_all add: word_unat_eq_iff unat_drop_u32 m_def div_mult2_eq [symmetric])

lemma octet_block_arith:
  fixes m :: nat
  shows "m div 256 = 169 \<and> m mod 256 = 254 \<longleftrightarrow> m = 0xA9FE"
    "m div 256 = 172 \<and> 16 \<le> m mod 256 \<and> m mod 256 \<le> 31 \<longleftrightarrow> m div 16 = 0xAC1"
    "m div 256 = 192 \<and> m mod 256 = 168 \<longleftrightarrow> m = 0xC0A8"
    "m div 256 = 100 \<and> 64 \<le> m mod 256 \<and> m mod 256 \<le> 127 \<longleftrightarrow> m div 64 = 0x191"
proof -
  define q r where "q = m div 256" and "r = m mod 256"
  have m: "m = 256 * q + r" and r: "r < 256" by (simp_all add: q_def r_def)
  have sixteenth: "m div 16 = 16 * q + r div 16" and fourth: "m div 64 = 4 * q + r div 64" by (simp_all add: m)
  have small: "r div 16 < 16" "r div 64 < 4" using r by (simp_all add: div_less_iff_less_mult)
  have "16 * q + d = 2753 \<longleftrightarrow> q = 172 \<and> d = 1" if "d < 16" for d using that by presburger
  moreover have "16 \<le> r \<and> r \<le> 31 \<longleftrightarrow> r div 16 = 1" by linarith
  ultimately show "m div 256 = 172 \<and> 16 \<le> m mod 256 \<and> m mod 256 \<le> 31 \<longleftrightarrow> m div 16 = 0xAC1"
    unfolding sixteenth q_def [symmetric] r_def [symmetric] using small(1) by simp
  have "4 * q + d = 401 \<longleftrightarrow> q = 100 \<and> d = 1" if "d < 4" for d using that by presburger
  moreover have "64 \<le> r \<and> r \<le> 127 \<longleftrightarrow> r div 64 = 1" by linarith
  ultimately show "m div 256 = 100 \<and> 64 \<le> m mod 256 \<and> m mod 256 \<le> 127 \<longleftrightarrow> m div 64 = 0x191"
    unfolding fourth q_def [symmetric] r_def [symmetric] using small(2) by simp
  show "m div 256 = 169 \<and> m mod 256 = 254 \<longleftrightarrow> m = 0xA9FE"
    using m r unfolding q_def [symmetric] r_def [symmetric] by presburger
  show "m div 256 = 192 \<and> m mod 256 = 168 \<longleftrightarrow> m = 0xC0A8"
    using m r unfolding q_def [symmetric] r_def [symmetric] by presburger
qed

lemma v4_ranges:
  "v4_is_loopback v \<longleftrightarrow> block_contains (V4 0x7F000000) 8 (V4 v)"
  "v4_is_link_local v \<longleftrightarrow> block_contains (V4 0xA9FE0000) 16 (V4 v)"
  "v4_is_private v \<longleftrightarrow> block_contains (V4 0x0A000000) 8 (V4 v) \<or> block_contains (V4 0xAC100000) 12 (V4 v) \<or>
     block_contains (V4 0xC0A80000) 16 (V4 v)"
  "(case v4_octets v of (a, b, _, _) \<Rightarrow> a = 100 \<and> 64 \<le> b \<and> b \<le> 127) \<longleftrightarrow> block_contains (V4 0x64400000) 10 (V4 v)"
  using octet_block_arith [of "unat v div 65536"]
  by (simp_all add: v4_is_loopback_def v4_is_link_local_def v4_is_private_def v4_octets_def block_contains_def
      word_unat_eq_iff [where 'a = 8] word_le_nat_alt [where 'a = 8] octets_nat v4_block_nat)

lemma seg_mask: "(s :: u16) AND 0xFFC0 = 0xFE80 \<longleftrightarrow> drop_bit 6 s = 0x3FA"
proof -
  have "s AND NOT (mask 6) = 0xFE80 AND NOT (mask 6) \<longleftrightarrow> drop_bit 6 s = drop_bit 6 0xFE80" by (rule and_not_mask_eq_iff)
  moreover have "NOT (mask 6) = (0xFFC0 :: u16)" by (simp add: mask_eq_exp_minus_1)
  ultimately show ?thesis by simp
qed

lemma seg_mask_ula: "(s :: u16) AND 0xFE00 = 0xFC00 \<longleftrightarrow> drop_bit 9 s = 0x7E"
proof -
  have "s AND NOT (mask 9) = 0xFC00 AND NOT (mask 9) \<longleftrightarrow> drop_bit 9 s = drop_bit 9 0xFC00" by (rule and_not_mask_eq_iff)
  moreover have "NOT (mask 9) = (0xFE00 :: u16)" by (simp add: mask_eq_exp_minus_1)
  ultimately show ?thesis by simp
qed

lemma v6_ranges:
  "v6_segment0 v AND 0xFFC0 = 0xFE80 \<longleftrightarrow> block_contains (V6 (push_bit 112 0xFE80)) 10 (V6 v)"
  "v6_segment0 v AND 0xFE00 = 0xFC00 \<longleftrightarrow> block_contains (V6 (push_bit 112 0xFC00)) 7 (V6 v)"
proof -
  have up: "drop_bit k (ucast (drop_bit 112 v) :: u16) = w \<longleftrightarrow> drop_bit (112 + k) v = ucast w" for k w
  proof -
    have "(ucast (drop_bit k (ucast (drop_bit 112 v) :: u16)) :: u128) = drop_bit (112 + k) v"
      by (rule bit_word_eqI) (auto simp: bit_simps ac_simps dest: bit_imp_le_length)
    moreover have "(ucast a :: u128) = ucast w \<longleftrightarrow> a = w" for a :: u16
    proof -
      have "(ucast (ucast x :: u128) :: u16) = x" for x :: u16 by (rule bit_word_eqI) (auto simp: bit_simps)
      then show ?thesis by metis
    qed
    ultimately show ?thesis by metis
  qed
  show "v6_segment0 v AND 0xFFC0 = 0xFE80 \<longleftrightarrow> block_contains (V6 (push_bit 112 0xFE80)) 10 (V6 v)"
    using up [of 6 "0x3FA"] by (simp add: v6_segment0_def seg_mask block_contains_def)
  show "v6_segment0 v AND 0xFE00 = 0xFC00 \<longleftrightarrow> block_contains (V6 (push_bit 112 0xFC00)) 7 (V6 v)"
    using up [of 9 "0x7E"] by (simp add: v6_segment0_def seg_mask_ula block_contains_def)
qed

lemma full_length_block: "block_contains (V4 b) 32 (V4 v) \<longleftrightarrow> v = b" "block_contains (V6 c) 128 (V6 w) \<longleftrightarrow> w = c"
  by (simp_all add: block_contains_def)

lemma block_families [simp]: "\<not> block_contains (V4 b) n (V6 w)" "\<not> block_contains (V6 c) n (V4 v)"
  by (simp_all add: block_contains_def)

lemma is_link_local_blocks: "is_link_local a \<longleftrightarrow> metadata_address a"
  by (cases a) (auto simp: is_link_local_def metadata_address_def v4_ranges v6_ranges mapped_case)

lemma reserved_v4_blocks_iff: "is_reserved_v4 v \<longleftrightarrow> (\<exists>(b, n)\<in>set reserved_v4_blocks. block_contains (V4 b) n (V4 v))"
  unfolding is_reserved_v4_def v4_ranges
  by (simp add: reserved_v4_blocks_def full_length_block v4_is_unspecified_def v4_is_broadcast_def)

lemma is_floored_strict_blocks: "is_floored a Strict \<longleftrightarrow> reserved_address a"
proof (cases a)
  case (V4 v)
  then show ?thesis
    by (auto simp: is_floored_def reserved_address_def reserved_v4_blocks_iff split: prod.splits)
next
  case (V6 w)
  then show ?thesis
    by (auto simp: is_floored_def reserved_address_def mapped_case reserved_v4_blocks_iff v6_ranges
        reserved_v6_blocks_def full_length_block v6_is_loopback_def v6_is_unspecified_def split: prod.splits)
qed

end
