(* ===== verification/Egress_Safety.thy ===== *)
theory Egress_Safety
  imports Egress_Policy
begin

text \<open>
  What the egress policy guarantees over a machine's life. \<open>egress_step\<close> is the policy of a running
  machine: time passes, the gateway learns from a DNS answer, the host replaces the allow list.
  The invariant \<open>learned_ok\<close> bounds what has been learned; the rendered live message parses back to
  the list it was rendered from; and the properties at the end state what can and cannot be
  reached.
\<close>

unbundle bit_operations_syntax

section \<open>A machine's policy over time\<close>

inductive egress_step ::
  "(string \<Rightarrow> egress_rule list option) \<Rightarrow> instant \<times> egress_policy \<Rightarrow> instant \<times> egress_policy \<Rightarrow> bool"
  for from_json where
  step_tick: "t \<le> t' \<Longrightarrow> egress_step from_json (t, p) (t', p)"
| step_answer: "egress_step from_json (t, p) (t, learn_dns_answer t answer p)"
| step_replace:
    "replace_allow_list from_json rendered p = Inr p' \<Longrightarrow> egress_step from_json (t, p) (t, p')"

inductive_cases egress_step_cases: "egress_step fj (t, p) (t', p')"

inductive launched :: "environment \<Rightarrow> egress_policy \<Rightarrow> bool" for env where
  launch_new: "launched env (policy_new env cs hs)"
| launch_rules: "launched env p \<Longrightarrow> with_rules rs p = Inr p' \<Longrightarrow> launched env p'"
| launch_private: "launched env p \<Longrightarrow> with_private_floor ex p = Inr p' \<Longrightarrow> launched env p'"
| launch_denial_log: "launched env p \<Longrightarrow> launched env (with_denial_log path p)"
| launch_audit: "launched env p \<Longrightarrow> launched env (with_mediation_audit machine parent p)"
| launch_watchlist: "launched env p \<Longrightarrow> launched env (with_watchlist f now log p)"

definition learned_ok :: "instant \<Rightarrow> egress_policy \<Rightarrow> bool" where
  "learned_ok now p \<longleftrightarrow>
     (\<forall>l a e. inner p = Some l \<longrightarrow> learned_ips l a = Some e \<longrightarrow>
        expires_at e \<le> now + secs 3600 \<and>
        (\<forall>n. learned_name e = Some n \<longrightarrow> rules_hostname_allowed (list_rules l) n))"

lemma retain_learned_Some_iff [simp]: "retain_learned keep m a = Some e \<longleftrightarrow> m a = Some e \<and> keep e"
  by (auto simp: retain_learned_def split: option.splits)

lemma clamp_ttl_bounds: "60 \<le> clamp_ttl n \<and> clamp_ttl n \<le> 3600"
  by (simp add: clamp_ttl_def)

lemma learn_one_Some:
  "learn_one now name (b, ttl) m a = Some e \<Longrightarrow>
   m a = Some e \<or>
   a = b \<and> learned_name e = name \<and> now + secs 60 \<le> expires_at e \<and> expires_at e \<le> now + secs 3600"
  using clamp_ttl_bounds [of "unat ttl"]
  by (auto simp: learn_one_def Let_def split: option.splits if_splits)

lemma fold_learn_one_Some:
  "fold (learn_one now name) records m a = Some e \<Longrightarrow>
   m a = Some e \<or>
   a \<in> fst ` set records \<and> learned_name e = name \<and> now + secs 60 \<le> expires_at e \<and>
   expires_at e \<le> now + secs 3600"
proof (induction records arbitrary: m)
  case (Cons r records)
  obtain b ttl where r: "r = (b, ttl)" by (cases r)
  from Cons.IH [of "learn_one now name r m"] Cons.prems show ?case
    using learn_one_Some [of now name b ttl m a e] by (auto simp: r)
qed simp

lemma learn_one_fresh:
  "\<exists>e. learn_one now name (a, ttl) m a = Some e \<and> now + secs 60 \<le> expires_at e"
proof -
  define life where "life = secs (clamp_ttl (unat ttl))"
  have "secs 60 \<le> life" using clamp_ttl_bounds [of "unat ttl"] by (simp add: life_def)
  then show ?thesis by (auto simp: learn_one_def Let_def life_def [symmetric] split: option.splits)
qed

lemma learn_one_keeps:
  "m a = Some e \<Longrightarrow> \<exists>e'. learn_one now name r m a = Some e' \<and> expires_at e \<le> expires_at e'"
  by (auto simp: learn_one_def Let_def split: prod.splits option.splits)

lemma fold_learn_one_keeps:
  "m a = Some e \<Longrightarrow> \<exists>e'. fold (learn_one now name) rs m a = Some e' \<and> expires_at e \<le> expires_at e'"
proof (induction rs arbitrary: m e)
  case (Cons r rs)
  from learn_one_keeps [where m = m and a = a, OF Cons.prems, of now name r] obtain e1
    where "learn_one now name r m a = Some e1" "expires_at e \<le> expires_at e1" by blast
  with Cons.IH [of "learn_one now name r m" e1] show ?case by fastforce
qed simp

lemma fold_learn_one_learns:
  "a \<in> fst ` set rs \<Longrightarrow>
   \<exists>e. fold (learn_one now name) rs m a = Some e \<and> now + secs 60 \<le> expires_at e"
proof (induction rs arbitrary: m)
  case (Cons r rs)
  show ?case
  proof (cases "a = fst r")
    case True
    then obtain ttl where "r = (a, ttl)" by (cases r) simp
    with learn_one_fresh [of now name a ttl m] obtain e
      where "learn_one now name r m a = Some e" "now + secs 60 \<le> expires_at e" by auto
    with fold_learn_one_keeps [of "learn_one now name r m" a e now name rs] show ?thesis
      by (auto intro: order_trans)
  next
    case False
    with Cons.prems Cons.IH [of "learn_one now name r m"] show ?thesis by simp
  qed
qed simp

lemma learn_fields [simp]:
  "policy_floor (learn now name rs p) = policy_floor p"
  "policy_rules (learn now name rs p) = policy_rules p"
  "inner (learn now name rs p) = None \<longleftrightarrow> inner p = None"
  by (auto simp: learn_def Let_def split: option.splits)

lemma learn_dns_answer_fields [simp]:
  "policy_floor (learn_dns_answer now d p) = policy_floor p"
  "policy_rules (learn_dns_answer now d p) = policy_rules p"
  "inner (learn_dns_answer now d p) = None \<longleftrightarrow> inner p = None"
  by (cases "inner p"; simp add: learn_dns_answer_def Let_def learn_def split: option.splits)+

lemma learn_learned_ok:
  assumes "learned_ok now p"
    and "\<And>l n. inner p = Some l \<Longrightarrow> name = Some n \<Longrightarrow> rules_hostname_allowed (list_rules l) n"
  shows "learned_ok now (learn now name rs p)"
proof (cases "inner p")
  case None
  with assms show ?thesis by (simp add: learn_def)
next
  case (Some l)
  have "expires_at e \<le> now + secs 3600 \<and>
      (\<forall>n. learned_name e = Some n \<longrightarrow> rules_hostname_allowed (list_rules l) n)"
    if "fold (learn_one now name) rs (retain_learned (\<lambda>e. now < expires_at e) (learned_ips l)) a = Some e" for a e
    using fold_learn_one_Some [OF that] assms Some by (auto simp: learned_ok_def)
  with Some show ?thesis by (simp add: learned_ok_def learn_def Let_def)
qed

lemma learn_dns_answer_learned_ok: "learned_ok now p \<Longrightarrow> learned_ok now (learn_dns_answer now d p)"
  by (auto simp: learn_dns_answer_def Let_def intro!: learn_learned_ok split: option.splits)

lemma replace_allow_list_InrE:
  assumes "replace_allow_list fj r p = Inr p'"
  obtains lp l where "inner p = Some l" "parse_live_policy fj (str_bytes r) = Inr lp"
    "p' = replace_install (lp_allow_list lp)
            (replace_forget (lp_allow_list lp) (replace_rules (lp_rules lp) p))"
  using assms that by (simp add: replace_allow_list_def split: option.splits sum.splits)

lemma replace_fields [simp]:
  "policy_floor (replace_install r p) = policy_floor p"
  "policy_floor (replace_forget r p) = policy_floor p"
  "policy_floor (replace_rules rs p) = policy_floor p"
  "policy_rules (replace_install r p) = policy_rules p"
  "policy_rules (replace_forget r p) = policy_rules p"
  "inner (replace_rules rs p) = inner p"
  "inner (replace_install r p) = None \<longleftrightarrow> inner p = None"
  "inner (replace_forget r p) = None \<longleftrightarrow> inner p = None"
  by (auto simp: replace_install_def replace_forget_def replace_rules_def split: option.splits)

lemma replace_learned_ok:
  assumes "learned_ok now p"
  shows "learned_ok now (replace_install r (replace_forget r (replace_rules rs p)))"
  using assms
  by (auto simp: learned_ok_def replace_install_def replace_forget_def split: option.splits)

lemma egress_step_invariant:
  assumes "egress_step fj s s'" "learned_ok (fst s) (snd s)"
  shows "learned_ok (fst s') (snd s') \<and> fst s \<le> fst s' \<and>
    policy_floor (snd s') = policy_floor (snd s) \<and> (inner (snd s') = None \<longleftrightarrow> inner (snd s) = None)"
  using assms
proof (induction rule: egress_step.induct)
  case (step_tick t t' p)
  then show ?case by (fastforce simp: learned_ok_def)
next
  case (step_answer t p answer)
  then show ?case by (simp add: learn_dns_answer_learned_ok)
next
  case (step_replace rendered p p' t)
  from step_replace.hyps obtain lp :: live_policy and l where "inner p = Some l"
    and p': "p' = replace_install (lp_allow_list lp) (replace_forget (lp_allow_list lp) (replace_rules (lp_rules lp) p))"
    by (rule replace_allow_list_InrE)
  with step_replace.prems show ?case
    by (simp add: p' replace_learned_ok)
qed

lemma egress_steps_invariant:
  assumes "(egress_step fj)\<^sup>*\<^sup>* s s'" "learned_ok (fst s) (snd s)"
  shows "learned_ok (fst s') (snd s') \<and> fst s \<le> fst s' \<and>
    policy_floor (snd s') = policy_floor (snd s) \<and> (inner (snd s') = None \<longleftrightarrow> inner (snd s) = None)"
  using assms
proof (induction rule: rtranclp_induct)
  case (step y z)
  from egress_step_invariant [OF step.hyps(2)] step.IH [OF step.prems] show ?case by auto
qed simp

lemma policy_new_fields:
  "policy_rules (policy_new env cs hs) = []"
  "policy_floor (policy_new env cs hs) = resolve_floor_mode env"
  "inner (policy_new env cs hs) =
     (if cs = None \<and> hs = None then None
      else Some \<lparr>list_rules = rules_build cs hs, learned_ips = (\<lambda>_. None)\<rparr>)"
  by (auto simp: policy_new_def unrestricted_def)

lemma launched_inner: "launched env p \<Longrightarrow> inner p = Some l \<Longrightarrow> learned_ips l = (\<lambda>_. None)"
  by (induction arbitrary: l rule: launched.induct)
    (auto simp: with_rules_def with_private_floor_def with_denial_log_def with_mediation_audit_def
      with_watchlist_def policy_new_fields split: sum.splits if_splits)

lemma launched_learned_ok: "launched env p \<Longrightarrow> learned_ok now p"
  using launched_inner by (fastforce simp: learned_ok_def)

lemma launched_floor:
  "launched env p \<Longrightarrow>
   policy_floor p = resolve_floor_mode env \<or> (resolve_floor_mode env \<noteq> Strict \<and> policy_floor p = Private)"
  by (induction rule: launched.induct)
    (auto simp: with_rules_def with_private_floor_def with_denial_log_def with_mediation_audit_def
      with_watchlist_def policy_new_fields split: sum.splits if_splits)

section \<open>Rendering and parsing the live message\<close>

definition cidr_entry :: "string \<Rightarrow> bool" where
  "cidr_entry c \<longleftrightarrow> plain (trim c) \<and> cidr_parse c \<noteq> None"

definition host_entry :: "string \<Rightarrow> bool" where
  "host_entry h \<longleftrightarrow> plain (trim h) \<and> trim h \<noteq> []"

definition rendered_lines :: "string list \<Rightarrow> string list \<Rightarrow> string list" where
  "rendered_lines cs hs =
     ''# smolvm egress allow list'' # map (\<lambda>c. ''cidr '' @ trim c) cs @ map (\<lambda>h. ''host '' @ trim h) hs"

lemma render_live_policy_lines:
  "render_live_policy cs hs = concat (map (\<lambda>l. l @ [CHR 0x0A]) (rendered_lines cs hs))"
  by (simp add: render_live_policy_def rendered_lines_def newline_def comp_def)

lemma cidr_parse_trim: "plain (trim c) \<Longrightarrow> cidr_parse (trim c) = cidr_parse c"
  by (simp add: cidr_parse_def cong: option.case_cong)

lemma cidr_parse_Nil [simp]: "cidr_parse [] = None"
  by code_simp

lemma cidr_entry_nonempty: "cidr_entry c \<Longrightarrow> trim c \<noteq> []"
  using cidr_parse_trim [of c] by (auto simp: cidr_entry_def)

lemma trim_line:
  assumes "plain v" "v \<noteq> []" "plain_char k"
  shows "trim (k # ks @ v) = k # ks @ v"
proof (rule trim_plain)
  show "k # ks @ v = [] \<or> plain_char (hd (k # ks @ v)) \<and> plain_char (last (k # ks @ v))"
    using assms plain_hd_last [of v] by simp
qed

lemma parse_cidr_line:
  assumes "cidr_entry c"
  shows "parse_live_line fj i (''cidr '' @ trim c) acc = Inr (acc\<lparr>ll_cidrs := ll_cidrs acc @ [trim c]\<rparr>)"
proof -
  have "split_once_ws (''cidr'' @ CHR 0x20 # trim c) = Some (''cidr'', trim c)"
    by (rule split_once_ws_plain) (simp add: plain_char_def)
  moreover from assms have "plain (trim c)" "cidr_parse (trim c) \<noteq> None"
    by (simp_all add: cidr_entry_def cidr_parse_trim)
  ultimately show ?thesis by (simp add: parse_live_line_def)
qed

lemma parse_host_line:
  assumes "host_entry h"
  shows "parse_live_line fj i (''host '' @ trim h) acc = Inr (acc\<lparr>ll_hosts := ll_hosts acc @ [trim h]\<rparr>)"
proof -
  have "split_once_ws (''host'' @ CHR 0x20 # trim h) = Some (''host'', trim h)"
    by (rule split_once_ws_plain) (simp add: plain_char_def)
  moreover from assms have "plain (trim h)" "trim h \<noteq> []" by (simp_all add: host_entry_def)
  ultimately show ?thesis by (simp add: parse_live_line_def)
qed

lemma parse_live_lines_entry:
  assumes "plain v" "v \<noteq> []" "plain_char k" "k \<noteq> CHR ''#''"
    and "parse_live_line fj i (k # ks @ v) acc = Inr acc'"
  shows "parse_live_lines fj i ((k # ks @ v) # rest) acc = parse_live_lines fj (Suc i) rest acc'"
  using assms trim_line [of v k ks] by (simp add: starts_with_iff)

lemma parse_cidr_lines:
  "list_all cidr_entry cs \<Longrightarrow>
   parse_live_lines fj i (map (\<lambda>c. ''cidr '' @ trim c) cs @ rest) acc =
   parse_live_lines fj (i + length cs) rest (acc\<lparr>ll_cidrs := ll_cidrs acc @ map trim cs\<rparr>)"
proof (induction cs arbitrary: i acc)
  case (Cons c cs)
  then have c: "cidr_entry c" and cs: "list_all cidr_entry cs" by simp_all
  then have "plain (trim c)" "trim c \<noteq> []" by (simp_all add: cidr_entry_nonempty) (simp add: cidr_entry_def)
  then have "parse_live_lines fj i ((CHR ''c'' # ''idr '' @ trim c) # map (\<lambda>c. ''cidr '' @ trim c) cs @ rest) acc =
      parse_live_lines fj (Suc i) (map (\<lambda>c. ''cidr '' @ trim c) cs @ rest) (acc\<lparr>ll_cidrs := ll_cidrs acc @ [trim c]\<rparr>)"
    by (rule parse_live_lines_entry)
      (use parse_cidr_line [OF c, of fj i acc] in \<open>simp_all add: plain_char_def\<close>)
  with Cons.IH [OF cs] show ?case by simp
qed simp

lemma parse_host_lines:
  "list_all host_entry hs \<Longrightarrow>
   parse_live_lines fj i (map (\<lambda>h. ''host '' @ trim h) hs @ rest) acc =
   parse_live_lines fj (i + length hs) rest (acc\<lparr>ll_hosts := ll_hosts acc @ map trim hs\<rparr>)"
proof (induction hs arbitrary: i acc)
  case (Cons h hs)
  then have h: "host_entry h" and hs: "list_all host_entry hs" by simp_all
  then have "plain (trim h)" "trim h \<noteq> []" by (simp_all add: host_entry_def)
  then have "parse_live_lines fj i ((CHR ''h'' # ''ost '' @ trim h) # map (\<lambda>h. ''host '' @ trim h) hs @ rest) acc =
      parse_live_lines fj (Suc i) (map (\<lambda>h. ''host '' @ trim h) hs @ rest) (acc\<lparr>ll_hosts := ll_hosts acc @ [trim h]\<rparr>)"
    by (rule parse_live_lines_entry)
      (use parse_host_line [OF h, of fj i acc] in \<open>simp_all add: plain_char_def\<close>)
  with Cons.IH [OF hs] show ?case by simp
qed simp

lemma filter_map_cong_map: "(\<And>x. x \<in> set xs \<Longrightarrow> f (g x) = f x) \<Longrightarrow> filter_map f (map g xs) = filter_map f xs"
  by (induction xs) (auto split: option.splits)

definition listed_rules :: "string list \<Rightarrow> string list \<Rightarrow> rules" where
  "listed_rules cs hs =
     \<lparr>cidrs = filter_map cidr_parse cs,
      allowed_hosts = (if hs = [] \<and> cs \<noteq> [] then None
                       else Some (filter_map (\<lambda>h. normalize_hostname (trim h)) hs))\<rparr>"

lemma rendered_lines_breaks:
  assumes "list_all cidr_entry cs" "list_all host_entry hs" "l \<in> set (rendered_lines cs hs)"
  shows "CHR 0x0A \<notin> set l \<and> CHR 0x0D \<notin> set l \<and> ascii l"
proof -
  have plain_line: "CHR 0x0A \<notin> set (k @ v) \<and> CHR 0x0D \<notin> set (k @ v) \<and> ascii (k @ v)"
    if "plain v" "k = ''cidr '' \<or> k = ''host ''" for k v
    using that plain_not_break [of v] plain_ascii [of v] by auto
  consider "l = ''# smolvm egress allow list''"
    | c where "c \<in> set cs" "l = ''cidr '' @ trim c" | h where "h \<in> set hs" "l = ''host '' @ trim h"
    using assms(3) unfolding rendered_lines_def by auto
  then show ?thesis
  proof cases
    case 1
    show ?thesis unfolding 1 by simp
  next
    case (2 c)
    with assms(1) have "plain (trim c)" by (simp add: list_all_iff cidr_entry_def)
    with 2 plain_line [of "trim c" "''cidr ''"] show ?thesis by blast
  next
    case (3 h)
    with assms(2) have "plain (trim h)" by (simp add: list_all_iff host_entry_def)
    with 3 plain_line [of "trim h" "''host ''"] show ?thesis by blast
  qed
qed

lemma filter_map_map: "filter_map f (map g xs) = filter_map (\<lambda>x. f (g x)) xs"
  by (induction xs) (auto split: option.splits)

lemma parse_rendered:
  assumes cs: "list_all cidr_entry cs" and hs: "list_all host_entry hs"
  shows "parse_live_policy fj (str_bytes (render_live_policy cs hs)) =
    Inr \<lparr>lp_allow_list = listed_rules cs hs, lp_rules = None\<rparr>"
proof -
  have breaks: "CHR 0x0A \<notin> set l \<and> (l = [] \<or> last l \<noteq> CHR 0x0D) \<and> ascii l"
    if "l \<in> set (rendered_lines cs hs)" for l
    using rendered_lines_breaks [OF cs hs that] last_in_set [of l] by metis
  have "ascii (render_live_policy cs hs)"
    using breaks by (simp add: render_live_policy_lines list_all_iff)
  moreover have "lines (render_live_policy cs hs) = rendered_lines cs hs"
    unfolding render_live_policy_lines by (rule lines_terminated) (simp add: breaks)
  moreover have "parse_live_lines fj 0 (rendered_lines cs hs) \<lparr>ll_cidrs = [], ll_hosts = [], ll_rules = None\<rparr> =
      Inr \<lparr>ll_cidrs = map trim cs, ll_hosts = map trim hs, ll_rules = None\<rparr>"
  proof -
    have "trim ''# smolvm egress allow list'' = ''# smolvm egress allow list''"
      by (rule trim_plain) (simp add: plain_char_def)
    then show ?thesis
      unfolding rendered_lines_def
      by (simp add: Let_def starts_with_iff parse_cidr_lines [OF cs, simplified]
          parse_host_lines [OF hs, of _ _ "[]", simplified])
  qed
  moreover have "filter_map (\<lambda>c. cidr_parse (trim c)) cs = filter_map cidr_parse cs"
    using cs filter_map_cong_map [of cs cidr_parse trim]
    by (simp add: list_all_iff cidr_entry_def cidr_parse_trim filter_map_map)
  ultimately show ?thesis
    by (simp add: parse_live_policy_def from_utf8_ascii rules_build_def listed_rules_def filter_map_map)
qed

section \<open>Consequences for reachable policies\<close>

lemma reachable_floor:
  assumes "launched env p0" "(egress_step fj)\<^sup>*\<^sup>* (t0, p0) (t, p)"
  shows "policy_floor p = resolve_floor_mode env \<or> (resolve_floor_mode env \<noteq> Strict \<and> policy_floor p = Private)"
  using egress_steps_invariant [OF assms(2)] launched_learned_ok [OF assms(1), of t0] launched_floor [OF assms(1)]
  by auto

lemma link_local_denied: "is_link_local a \<Longrightarrow> policy_floor p \<noteq> Off \<Longrightarrow> \<not> allows_flow p now t a port"
  using link_local_floored [of a "policy_floor p"] link_local_not_loopback [of a]
  by (auto simp: allows_flow_def decide_rule_action_def policy_allows_def split: option.splits rule_action.splits)

lemma strict_denied: "policy_floor p = Strict \<Longrightarrow> is_floored a Strict \<Longrightarrow> \<not> allows_flow p now t a port"
  by (auto simp: allows_flow_def decide_rule_action_def policy_allows_def split: option.splits rule_action.splits)

lemma learn_set_learned: "\<exists>m. learn now name rs p = set_learned m p"
proof (cases "inner p")
  case None
  then show ?thesis by (simp add: learn_def set_learned_def)
next
  case (Some l)
  then show ?thesis by (auto simp: learn_def set_learned_def Let_def)
qed

lemma learn_dns_answer_set_learned: "\<exists>m. learn_dns_answer now d p = set_learned m p"
proof -
  have "\<exists>m. p = set_learned m p"
  proof (cases "inner p")
    case None
    then show ?thesis by (simp add: set_learned_def)
  next
    case (Some l)
    then have "p = set_learned (learned_ips l) p" by (simp add: set_learned_def)
    then show ?thesis by blast
  qed
  then show ?thesis using learn_set_learned by (auto simp: learn_dns_answer_def Let_def split: option.splits)
qed

lemma find_Some_matches: "find P xs = Some x \<Longrightarrow> P x \<and> x \<in> set xs"
  by (auto simp: find_Some_iff)

lemma exception_rules_ok: "exception_rules ex = Inr rs \<Longrightarrow> list_all rule_ok rs \<and> list_all reopens_private rs"
  by (induction ex arbitrary: rs) (auto simp: rule_ok_def split: option.splits sum.splits)

lemma launched_rules_ok: "launched env p \<Longrightarrow> list_all rule_ok (policy_rules p)"
proof (induction rule: launched.induct)
  case (launch_rules p rs p')
  then show ?case
    by (auto simp: with_rules_def compile_rules_def dest: compile_rules_from_ok split: sum.splits)
next
  case (launch_private p ex p')
  then show ?case
    by (auto simp: with_private_floor_def dest: exception_rules_ok split: sum.splits)
qed (auto simp: policy_new_fields with_denial_log_def with_mediation_audit_def with_watchlist_def)

definition live_rules_ok :: "compiled_rule list option \<Rightarrow> bool" where
  "live_rules_ok r = (case r of None \<Rightarrow> True | Some cs \<Rightarrow> list_all rule_ok cs \<and> list_all (\<lambda>c. \<not> reopens_private c) cs)"

lemma parse_live_line_rules:
  "parse_live_line fj i line acc = Inr acc' \<Longrightarrow> live_rules_ok (ll_rules acc) \<Longrightarrow> live_rules_ok (ll_rules acc')"
  by (auto simp: parse_live_line_def compile_rules_def live_rules_ok_def dest!: compile_rules_from_ok
      split: option.splits sum.splits if_splits)

lemma parse_live_lines_rules:
  "parse_live_lines fj i ls acc = Inr acc' \<Longrightarrow> live_rules_ok (ll_rules acc) \<Longrightarrow> live_rules_ok (ll_rules acc')"
  by (induction ls arbitrary: i acc)
    (auto simp: Let_def dest: parse_live_line_rules split: sum.splits if_splits)

lemma parse_live_policy_rules: "parse_live_policy fj bs = Inr lp \<Longrightarrow> live_rules_ok (lp_rules lp)"
proof -
  assume "parse_live_policy fj bs = Inr lp"
  then obtain content acc
    where "parse_live_lines fj 0 (lines content) \<lparr>ll_cidrs = [], ll_hosts = [], ll_rules = None\<rparr> = Inr acc"
      and lp: "lp_rules lp = ll_rules acc"
    by (auto simp: parse_live_policy_def split: option.splits sum.splits)
  then show ?thesis using parse_live_lines_rules [of fj 0 "lines content" _ acc] by (simp add: live_rules_ok_def)
qed

lemma step_rules:
  assumes "egress_step fj s s'" "list_all rule_ok (policy_rules (snd s))"
  shows "list_all rule_ok (policy_rules (snd s')) \<and>
    filter reopens_private (policy_rules (snd s')) = filter reopens_private (policy_rules (snd s))"
  using assms
proof (induction rule: egress_step.induct)
  case (step_replace rendered p p' t)
  from step_replace.hyps obtain lp :: live_policy and l :: allow_list where
    "parse_live_policy fj (str_bytes rendered) = Inr lp"
    and p': "p' = replace_install (lp_allow_list lp) (replace_forget (lp_allow_list lp) (replace_rules (lp_rules lp) p))"
    by (rule replace_allow_list_InrE)
  then have "live_rules_ok (lp_rules lp)" by (simp add: parse_live_policy_rules)
  with step_replace.prems show ?case
    by (auto simp: p' replace_rules_def live_rules_ok_def list_all_iff filter_empty_conv split: option.splits)
qed simp_all

lemma steps_rules:
  assumes "(egress_step fj)\<^sup>*\<^sup>* s s'" "list_all rule_ok (policy_rules (snd s))"
  shows "list_all rule_ok (policy_rules (snd s')) \<and>
    filter reopens_private (policy_rules (snd s')) = filter reopens_private (policy_rules (snd s))"
  using assms
proof (induction rule: rtranclp_induct)
  case (step y z)
  from step_rules [OF step.hyps(2)] step.IH [OF step.prems] show ?case by auto
qed simp

lemma replace_rendered:
  assumes "inner p = Some l" "list_all cidr_entry cs" "list_all host_entry hs"
  shows "replace_allow_list fj (render_live_policy cs hs) p =
    Inr (replace_install (listed_rules cs hs) (replace_forget (listed_rules cs hs) p))"
  using assms by (simp add: replace_allow_list_def parse_rendered replace_rules_def)

section \<open>Properties\<close>

text \<open>C1: the cloud-metadata link-local ranges 169.254.0.0/16 and fe80::/10, also spelled as
  IPv4-mapped addresses, are unreachable: whatever CIDRs,
  rules and private exceptions a machine is launched with, whatever DNS answers it receives and
  whatever lists the host installs afterwards, no flow to such an address is allowed unless the
  operator turned the floor off.\<close>

theorem metadata_unreachable:
  assumes "launched env p0" "resolve_floor_mode env \<noteq> Off"
    and "(egress_step fj)\<^sup>*\<^sup>* (t0, p0) (now, p)" "metadata_address a"
  shows "\<not> allows_flow p now t a port"
proof -
  have "policy_floor p \<noteq> Off" using reachable_floor [OF assms(1,3)] assms(2) by auto
  with assms(4) show ?thesis by (simp add: link_local_denied is_link_local_blocks)
qed

theorem metadata_unreachable_witness:
  "\<not> allows_flow (policy_new (\<lambda>_. None) (Some [''0.0.0.0/0'']) None) 7 Tcp (V4 0xA9FEA9FE) (Some 80)"
proof (rule metadata_unreachable)
  show "launched (\<lambda>_. None) (policy_new (\<lambda>_. None) (Some [''0.0.0.0/0'']) None)" by (rule launch_new)
  show "resolve_floor_mode (\<lambda>_. None) \<noteq> Off" by (simp add: resolve_floor_mode_def env_flag_def)
  show "(egress_step (\<lambda>_. None))\<^sup>*\<^sup>* (0, policy_new (\<lambda>_. None) (Some [''0.0.0.0/0'']) None)
      (7, policy_new (\<lambda>_. None) (Some [''0.0.0.0/0'']) None)"
    by (rule r_into_rtranclp) (rule step_tick, simp)
  show "metadata_address (V4 0xA9FEA9FE)" by (simp add: metadata_address_def block_contains_def)
qed

text \<open>C2: on a fleet node (the strict floor) no destination in the reserved
  blocks - private, loopback, link-local, unique-local, broadcast, CGNAT, and their IPv4-mapped
  spellings - is ever reachable, whatever the allow list, the rules and the
  private exceptions say.\<close>

theorem strict_floor_absolute:
  assumes "launched env p0" "resolve_floor_mode env = Strict"
    and "(egress_step fj)\<^sup>*\<^sup>* (t0, p0) (now, p)" "reserved_address a"
  shows "\<not> allows_flow p now t a port"
proof -
  have "policy_floor p = Strict" using reachable_floor [OF assms(1,3)] assms(2) by auto
  then show ?thesis using assms(4) by (simp add: strict_denied is_floored_strict_blocks)
qed

theorem strict_floor_absolute_witness:
  "\<not> allows_flow (policy_new [''SMOLVM_PUBLISH_ADDR'' \<mapsto> ''x''] (Some [''10.0.0.0/8'']) None) 0 Tcp (V4 0x0A000001) (Some 22)"
proof (rule strict_floor_absolute)
  show "launched [''SMOLVM_PUBLISH_ADDR'' \<mapsto> ''x'']
      (policy_new [''SMOLVM_PUBLISH_ADDR'' \<mapsto> ''x''] (Some [''10.0.0.0/8'']) None)" by (rule launch_new)
  show "resolve_floor_mode [''SMOLVM_PUBLISH_ADDR'' \<mapsto> ''x''] = Strict"
    by (simp add: resolve_floor_mode_def env_flag_def)
  show "(egress_step (\<lambda>_. None))\<^sup>*\<^sup>* (0, policy_new [''SMOLVM_PUBLISH_ADDR'' \<mapsto> ''x''] (Some [''10.0.0.0/8'']) None)
      (0, policy_new [''SMOLVM_PUBLISH_ADDR'' \<mapsto> ''x''] (Some [''10.0.0.0/8'']) None)" by simp
  show "reserved_address (V4 0x0A000001)"
    by (simp add: reserved_address_def reserved_v4_blocks_def block_contains_def)
qed

text \<open>C15: DNS rebinding is defeated: a DNS answer, whatever it contains, never changes the verdict on
  a destination inside the floor.\<close>

theorem rebinding_defeated:
  assumes "is_floored a (policy_floor p)"
  shows "allows_flow (learn_dns_answer now answer p) now' t a port = allows_flow p now' t a port"
  using learn_dns_answer_set_learned [of now answer p] floored_ignores_learned [OF assms] by auto

theorem rebinding_defeated_witness:
  "allows_flow (learn_dns_answer 0 [1, 2, 3] (unrestricted (\<lambda>_. None))) 5 Tcp (V4 0x7F000001) (Some 80) =
   allows_flow (unrestricted (\<lambda>_. None)) 5 Tcp (V4 0x7F000001) (Some 80)"
  by (rule rebinding_defeated)
    (simp add: unrestricted_def resolve_floor_mode_def env_flag_def is_floored_def is_host_loopback_def
      v4_is_loopback_def v4_octets_def)



text \<open>an answer to a question for an allowed name opens its addresses: until sixty seconds have
  passed every A or AAAA address of the answer outside the floor is reachable (no rule deciding).\<close>

theorem learned_answer_admits:
  assumes "inner p = Some l" "question_name answer = Some q" "normalize_hostname q = Some n"
    and "rules_hostname_allowed (list_rules l) n" "(a, ttl) \<in> set (answer_ip_records answer)"
    and "\<not> is_floored a (policy_floor p)" "decide_rule_action p t a port = None"
    and "now' < now + secs 60"
  shows "allows_flow (learn_dns_answer now answer p) now' t a port"
proof -
  let ?m = "retain_learned (\<lambda>e. now < expires_at e) (learned_ips l)"
  have learned: "learn_dns_answer now answer p =
      p\<lparr>inner := Some (l\<lparr>learned_ips := fold (learn_one now (Some n)) (answer_ip_records answer) ?m\<rparr>)\<rparr>"
    using assms(1-4) by (simp add: learn_dns_answer_def learn_def Let_def)
  from assms(5) have "a \<in> fst ` set (answer_ip_records answer)" by force
  from fold_learn_one_learns [OF this, of now "Some n" ?m] obtain e
    where "fold (learn_one now (Some n)) (answer_ip_records answer) ?m a = Some e" "now + secs 60 \<le> expires_at e"
    by blast
  with assms(6-8) show ?thesis
    by (simp add: allows_flow_def learned policy_allows_def decide_rule_action_def split: option.splits)
qed

definition sample_answer :: bytes where
  "sample_answer =
     [0x12, 0x34, 0x81, 0x80, 0, 1, 0, 1, 0, 0, 0, 0, 1, 0x61, 1, 0x62, 0, 0, 1, 0, 1,
      0xC0, 0x0C, 0, 1, 0, 1, 0, 0, 0, 5, 0, 4, 8, 8, 4, 4]"

lemma sample_answer_eval:
  "question_name sample_answer = Some ''a.b''" "answer_ip_records sample_answer = [(V4 0x08080404, 5)]"
  by code_simp+

theorem learned_answer_admits_witness:
  "allows_flow (learn_dns_answer 0 sample_answer (policy_new (\<lambda>_. None) None (Some [''b'']))) (secs 59) Tcp
     (V4 0x08080404) (Some 443)"
proof (rule learned_answer_admits)
  show "inner (policy_new (\<lambda>_. None) None (Some [''b''])) =
      Some \<lparr>list_rules = rules_build None (Some [''b'']), learned_ips = (\<lambda>_. None)\<rparr>"
    by (simp add: policy_new_fields)
  show "question_name sample_answer = Some ''a.b''" by (rule sample_answer_eval)
  show "normalize_hostname ''a.b'' = Some ''a.b''" by code_simp
  show "rules_hostname_allowed (list_rules \<lparr>list_rules = rules_build None (Some [''b'']), learned_ips = (\<lambda>_. None)\<rparr>) ''a.b''"
    by code_simp
  show "(V4 0x08080404, 5) \<in> set (answer_ip_records sample_answer)" by (simp add: sample_answer_eval)
  show "\<not> is_floored (V4 0x08080404) (policy_floor (policy_new (\<lambda>_. None) None (Some [''b''])))" by code_simp
  show "decide_rule_action (policy_new (\<lambda>_. None) None (Some [''b''])) Tcp (V4 0x08080404) (Some 443) = None"
    by (simp add: decide_rule_action_def policy_new_fields)
  show "secs 59 < 0 + secs 60" by simp
qed

text \<open>the message the host renders installs exactly the list it was rendered from: for entries
  that parse, \<open>replace_allow_list\<close> of \<open>render_live_policy cs hs\<close> succeeds, installs the listed CIDRs
  and hosts, keeps the floor and the ordered rules, and keeps a learned address exactly when it has
  no name or its name is still allowed.\<close>

theorem rendered_list_installed:
  assumes "inner p = Some l" "list_all cidr_entry cs" "list_all host_entry hs"
  shows "replace_allow_list fj (render_live_policy cs hs) p =
    Inr (p\<lparr>inner := Some \<lparr>list_rules = listed_rules cs hs,
      learned_ips = (\<lambda>a. case learned_ips l a of
         None \<Rightarrow> None
       | Some e \<Rightarrow>
           (case learned_name e of
              None \<Rightarrow> Some e
            | Some n \<Rightarrow> if rules_hostname_allowed (listed_rules cs hs) n then Some e else None))\<rparr>\<rparr>)"
proof -
  have "retain_learned (\<lambda>e. case learned_name e of None \<Rightarrow> True | Some n \<Rightarrow> rules_hostname_allowed r n) m =
      (\<lambda>a. case m a of None \<Rightarrow> None | Some e \<Rightarrow>
         (case learned_name e of None \<Rightarrow> Some e | Some n \<Rightarrow> if rules_hostname_allowed r n then Some e else None))" for r m
    by (rule ext) (auto simp: retain_learned_def split: option.splits)
  with assms show ?thesis by (simp add: replace_rendered replace_install_def replace_forget_def)
qed

theorem rendered_list_installed_witness:
  "\<exists>p'. replace_allow_list (\<lambda>_. None) (render_live_policy [''10.0.0.0/8''] ['' pypi.org '']) (deny_all (\<lambda>_. None)) = Inr p'
     \<and> inner p' \<noteq> None"
proof -
  have "inner (deny_all (\<lambda>_. None)) = Some \<lparr>list_rules = rules_build (Some []) (Some []), learned_ips = (\<lambda>_. None)\<rparr>"
    by (simp add: deny_all_def policy_new_fields)
  moreover have "list_all cidr_entry [''10.0.0.0/8'']" by code_simp
  moreover have "list_all host_entry ['' pypi.org '']" by code_simp
  ultimately show ?thesis
    using rendered_list_installed [of "deny_all (\<lambda>_. None)" _ "[''10.0.0.0/8'']" "['' pypi.org '']" "\<lambda>_. None"]
    by fastforce
qed

text \<open>C4: a replacement that still names hosts, or that is empty, revokes: afterwards a learned
  address with a name is reachable only if an entry of the new host list matches that name.\<close>

theorem replacement_revokes:
  assumes "list_all cidr_entry cs" "list_all host_entry hs" "hs \<noteq> [] \<or> cs = []"
    and "replace_allow_list fj (render_live_policy cs hs) p = Inr p'"
    and "inner p' = Some l'" "learned_ips l' a = Some e" "learned_name e = Some n"
  shows "hostname_allowed n (filter_map (\<lambda>h. normalize_hostname (trim h)) hs)"
proof -
  from assms(4) obtain l where "inner p = Some l"
    by (auto simp: replace_allow_list_def split: option.splits)
  from replace_rendered [OF this assms(1,2), of fj] assms(4)
  have "p' = replace_install (listed_rules cs hs) (replace_forget (listed_rules cs hs) p)" by simp
  with assms(3,5-7) \<open>inner p = Some l\<close> show ?thesis
    by (auto simp: replace_install_def replace_forget_def listed_rules_def rules_hostname_allowed_def)
qed

definition learned_policy :: egress_policy where
  "learned_policy =
     (policy_new (\<lambda>_. None) None (Some [''old.test'', ''new.test'']))
       \<lparr>inner := Some \<lparr>list_rules = rules_build None (Some [''old.test'', ''new.test'']),
          learned_ips = [V4 0x08080808 \<mapsto> \<lparr>expires_at = secs 60, learned_name = Some ''old.test''\<rparr>,
                         V4 0x08080404 \<mapsto> \<lparr>expires_at = secs 60, learned_name = Some ''new.test''\<rparr>]\<rparr>\<rparr>"

theorem replacement_revokes_witness:
  "\<exists>p' l' e. replace_allow_list (\<lambda>_. None) (render_live_policy [] [''new.test'']) learned_policy = Inr p' \<and>
     inner p' = Some l' \<and> learned_ips l' (V4 0x08080404) = Some e \<and>
     hostname_allowed ''new.test'' (filter_map (\<lambda>h. normalize_hostname (trim h)) [''new.test''])"
proof -
  define p' where "p' = replace_install (listed_rules [] [''new.test'']) (replace_forget (listed_rules [] [''new.test'']) learned_policy)"
  have entry: "list_all host_entry [''new.test'']" by code_simp
  have r: "replace_allow_list (\<lambda>_. None) (render_live_policy [] [''new.test'']) learned_policy = Inr p'"
    unfolding p'_def by (rule replace_rendered) (use entry in \<open>simp_all add: learned_policy_def\<close>)
  have "map_option (\<lambda>l. learned_ips l (V4 0x08080404)) (inner p') =
      Some (Some \<lparr>expires_at = secs 60, learned_name = Some ''new.test''\<rparr>)"
    unfolding p'_def by code_simp
  then obtain l' where l': "inner p' = Some l'"
    "learned_ips l' (V4 0x08080404) = Some \<lparr>expires_at = secs 60, learned_name = Some ''new.test''\<rparr>" by auto
  have "hostname_allowed ''new.test'' (filter_map (\<lambda>h. normalize_hostname (trim h)) [''new.test''])"
    by (rule replacement_revokes [OF _ entry _ r l'(1) l'(2)]) simp_all
  with r l' show ?thesis by blast
qed

text \<open>C35: a replacement that removes the last host while CIDRs remain does not revoke: the new list has
  no host filter, so every learned address, whatever its name, stays reachable until it expires.\<close>

theorem cidr_only_replacement_keeps_learned:
  assumes "list_all cidr_entry cs" "cs \<noteq> []" "inner p = Some l"
    and "learned_ips l a = Some e" "now < expires_at e" "\<not> is_floored a (policy_floor p)"
  shows "\<exists>p'. replace_allow_list fj (render_live_policy cs []) p = Inr p' \<and> policy_allows p' now a"
proof -
  have "replace_allow_list fj (render_live_policy cs []) p =
      Inr (replace_install (listed_rules cs []) (replace_forget (listed_rules cs []) p))"
    by (rule replace_rendered [OF assms(3,1)]) simp
  with assms(2-) show ?thesis
    by (simp add: policy_allows_def replace_install_def replace_forget_def retain_learned_def listed_rules_def
        rules_hostname_allowed_def split: option.splits)
qed

theorem cidr_only_replacement_keeps_learned_witness:
  "\<exists>p'. replace_allow_list (\<lambda>_. None) (render_live_policy [''10.0.0.0/8''] []) learned_policy = Inr p' \<and>
     policy_allows p' 0 (V4 0x08080808)"
proof (rule cidr_only_replacement_keeps_learned
    [where e = "\<lparr>expires_at = secs 60, learned_name = Some ''old.test''\<rparr>" and l = "the (inner learned_policy)"])
  show "list_all cidr_entry [''10.0.0.0/8'']" by code_simp
  show "\<not> is_floored (V4 0x08080808) (policy_floor learned_policy)" by code_simp
qed (simp_all add: learned_policy_def secs_def)


text \<open>a parsed CIDR \<open>addr/n\<close> contains exactly the addresses of its family that agree with \<open>addr\<close>
  on the first \<open>n\<close> bits, for every prefix length up to the width of the family.\<close>

theorem cidr_parse_contains:
  assumes "trim spec = addr @ ''/'' @ prefix" "CHR ''/'' \<notin> set addr"
    and "parse_ip addr = Some base" "parse_uint 256 prefix = Some n"
    and "n \<le> (case base of V4 _ \<Rightarrow> 32 | V6 _ \<Rightarrow> 128)"
  shows "\<exists>c. cidr_parse spec = Some c \<and> (\<forall>a. cidr_contains c a \<longleftrightarrow> block_contains base n a)"
proof -
  have "split_once (\<lambda>c. c = CHR ''/'') (addr @ ''/'' @ prefix) = Some (addr, prefix)"
    using assms(2) by (auto simp: str_simps)
  then have eq: "cidr_parse spec = cidr_of addr (Some n)" using assms(1,4) by (simp add: cidr_parse_def)
  from assms(3,5) obtain c where "cidr_of addr (Some n) = Some c"
    by (cases base) (auto simp: cidr_of_def Let_def)
  with eq cidr_of_contains [OF this assms(3)] show ?thesis by auto
qed

theorem cidr_parse_contains_witness:
  "\<exists>c. cidr_parse '' 172.16.0.0/12 '' = Some c \<and>
     (\<forall>a. cidr_contains c a \<longleftrightarrow> block_contains (V4 0xAC100000) 12 a)"
proof (rule cidr_parse_contains)
  show "trim '' 172.16.0.0/12 '' = ''172.16.0.0'' @ ''/'' @ ''12''" by code_simp
  show "parse_ip ''172.16.0.0'' = Some (V4 0xAC100000)" by code_simp
  show "parse_uint 256 ''12'' = Some 12" by code_simp
qed simp_all

text \<open>an IPv4-mapped IPv6 spelling cannot dodge an IPv4 rule: when no rule names an IPv6 block,
  the ordered rules and the floor give \<open>::ffff:a.b.c.d\<close> the verdict they give \<open>a.b.c.d\<close>.\<close>

theorem mapped_spelling_same_verdict:
  assumes "list_all v4_rule (policy_rules p)"
  shows "decide_rule_action p t (V6 (to_ipv6_mapped v)) port = decide_rule_action p t (V4 v) port"
  using assms by (rule decide_mapped)

theorem mapped_spelling_same_verdict_witness:
  "\<exists>p. with_rules [\<lparr>er_transport = None, er_cidr = Some ''8.8.8.8'', er_ports = None, er_action = Deny\<rparr>]
       (unrestricted (\<lambda>_. None)) = Inr p \<and>
     decide_rule_action p Tcp (V6 (to_ipv6_mapped 0x08080808)) (Some 53) =
     decide_rule_action p Tcp (V4 0x08080808) (Some 53)"
proof -
  let ?rs = "[\<lparr>cr_transport = None, cr_cidr = Some (CidrV4 0x08080808 0xFFFFFFFF), cr_ports = None, cr_action = Deny,
    reopens_private = False\<rparr>]"
  have "compile_rules [\<lparr>er_transport = None, er_cidr = Some ''8.8.8.8'', er_ports = None, er_action = Deny\<rparr>] = Inr ?rs"
    by code_simp
  moreover have "list_all v4_rule ?rs" by code_simp
  ultimately show ?thesis
    using mapped_spelling_same_verdict [of "(unrestricted (\<lambda>_. None))\<lparr>policy_rules := ?rs\<rparr>"]
    by (simp add: with_rules_def)
qed

text \<open>in every reachable policy each rule in force is well formed - a non-empty port range starting
  above zero and never on ICMP, a redirect only on TCP - and the private exceptions are exactly the
  ones the machine was launched with, whatever rule lists the host installs.\<close>

theorem reachable_rules_well_formed:
  assumes "launched env p0" "(egress_step fj)\<^sup>*\<^sup>* (t0, p0) (now, p)"
  shows "list_all rule_ok (policy_rules p) \<and>
    filter reopens_private (policy_rules p) = filter reopens_private (policy_rules p0)"
  using steps_rules [OF assms(2)] launched_rules_ok [OF assms(1)] by simp

theorem reachable_rules_well_formed_witness:
  "\<exists>p. with_private_floor [''10.1.0.0/16''] (unrestricted (\<lambda>_. None)) = Inr p \<and> length (policy_rules p) = 1 \<and>
     list_all rule_ok (policy_rules p) \<and>
     filter reopens_private (policy_rules p) = filter reopens_private (policy_rules p)"
proof -
  have "map_sum id (\<lambda>p. length (policy_rules p)) (with_private_floor [''10.1.0.0/16''] (unrestricted (\<lambda>_. None))) = Inr 1"
    by code_simp
  then obtain p where p: "with_private_floor [''10.1.0.0/16''] (unrestricted (\<lambda>_. None)) = Inr p"
    "length (policy_rules p) = 1" by (cases "with_private_floor [''10.1.0.0/16''] (unrestricted (\<lambda>_. None))") auto
  have "launched (\<lambda>_. None) (policy_new (\<lambda>_. None) None None)" by (rule launch_new)
  then have "launched (\<lambda>_. None) p" by (rule launch_private) (use p in \<open>simp add: policy_new_def\<close>)
  then have "list_all rule_ok (policy_rules p) \<and>
     filter reopens_private (policy_rules p) = filter reopens_private (policy_rules p)"
    by (rule reachable_rules_well_formed [where fj = "\<lambda>_. None" and ?t0.0 = 0 and now = 0]) simp
  with p show ?thesis by blast
qed

text \<open>under \<open>--block-private\<close> a private destination is reachable only through an explicit static
  opening: the first matching rule is an allow rule, or the destination is host loopback in a listed
  CIDR; cloud metadata never is.\<close>

theorem private_floor_opened_explicitly:
  assumes "policy_floor p = Private" "is_floored a Private" "allows_flow p now t a port"
  shows "\<not> is_link_local a \<and>
    ((\<exists>r\<in>set (policy_rules p). rule_matches t a port r \<and> cr_action r = Allow) \<or>
     is_host_loopback a \<and> statically_allowed p a)"
proof -
  have "\<not> is_link_local a" using assms(1,3) link_local_denied [of a p now t port] by auto
  moreover have "(\<exists>r\<in>set (policy_rules p). rule_matches t a port r \<and> cr_action r = Allow) \<or>
     is_host_loopback a \<and> statically_allowed p a"
    using assms
    by (auto simp: allows_flow_def decide_rule_action_def policy_allows_def statically_allowed_def list_ex_iff
        dest!: find_Some_matches split: option.splits rule_action.splits if_splits)
  ultimately show ?thesis by blast
qed

theorem private_floor_opened_explicitly_witness:
  "\<exists>p. with_private_floor [''10.1.0.0/16''] (unrestricted (\<lambda>_. None)) = Inr p \<and>
     (\<exists>r\<in>set (policy_rules p). rule_matches Tcp (V4 0x0A010203) (Some 22) r \<and> cr_action r = Allow)"
proof -
  have eval: "map_sum id (\<lambda>p. (policy_floor p, allows_flow p 0 Tcp (V4 0x0A010203) (Some 22)))
      (with_private_floor [''10.1.0.0/16''] (unrestricted (\<lambda>_. None))) = Inr (Private, True)" by code_simp
  then obtain p where p: "with_private_floor [''10.1.0.0/16''] (unrestricted (\<lambda>_. None)) = Inr p"
    "policy_floor p = Private" "allows_flow p 0 Tcp (V4 0x0A010203) (Some 22)"
    by (cases "with_private_floor [''10.1.0.0/16''] (unrestricted (\<lambda>_. None))") auto
  moreover have "is_floored (V4 0x0A010203) Private" "\<not> is_host_loopback (V4 0x0A010203)" by code_simp+
  ultimately show ?thesis using private_floor_opened_explicitly [OF p(2) _ p(3)] by blast
qed

end
