(* ===== verification/Mediation.thy ===== *)
theory Mediation
  imports Ip_Addr Bytes
begin

text \<open>
  The two host-side handshakes that carry a guest's TCP flow to a decision process: the mediated
  egress prelude and decision byte (\<open>crates/smolvm-protocol/src/mediated_egress.rs\<close>) and the
  interception preamble and verdict byte (\<open>crates/smolvm-protocol/src/intercept.rs\<close>). A writer
  produces the bytes it writes; a reader takes the bytes of the stream and returns an error or the
  value with the rest of the stream. Both formats interpret \<open>wire_format\<close>, and reading is shown to
  accept exactly what writing produces.
\<close>

unbundle bit_operations_syntax

section \<open>Addresses\<close>

record socket_addr =
  sa_ip :: ip_addr
  sa_port :: u16

datatype stream_error =
    UnexpectedEof | InvalidInput | Rejected | MissingIdentity | UnknownFamily | PayloadTooLarge
  | InvalidDecision | RefusedWith u8

definition ip_octets :: "ip_addr \<Rightarrow> bytes" where
  "ip_octets a = (case a of V4 v \<Rightarrow> nat_be 4 (unat v) | V6 v \<Rightarrow> nat_be 16 (unat v))"

definition family_byte :: "ip_addr \<Rightarrow> u8" where
  "family_byte a = (case a of V4 _ \<Rightarrow> 4 | V6 _ \<Rightarrow> 6)"

definition read_ip :: "u8 \<Rightarrow> bytes \<Rightarrow> stream_error + ip_addr \<times> bytes" where
  "read_ip family s =
     (if family = 4 then
        (case read_exact 4 s of
           None \<Rightarrow> Inl UnexpectedEof | Some (b, r) \<Rightarrow> Inr (V4 (of_nat (be_nat b)), r))
      else if family = 6 then
        (case read_exact 16 s of
           None \<Rightarrow> Inl UnexpectedEof | Some (b, r) \<Rightarrow> Inr (V6 (of_nat (be_nat b)), r))
      else Inl UnknownFamily)"

text \<open>The comparison that does not stop at the first differing byte.\<close>

definition token_mismatch :: "u8 \<Rightarrow> bytes \<Rightarrow> bytes \<Rightarrow> u8" where
  "token_mismatch start actual expected =
     foldl (\<lambda>m (a, e). m OR (a XOR e)) start (zip actual expected)"

section \<open>The mediated egress prelude\<close>

definition FLOW_MAGIC :: bytes where "FLOW_MAGIC = str_bytes ''SMOLMEG2''"
definition MAX_INITIAL_BYTES :: nat where "MAX_INITIAL_BYTES = 8 * 1024"
definition MACHINE_ID_LEN :: nat where "MACHINE_ID_LEN = 16"
definition TOKEN_LEN :: nat where "TOKEN_LEN = 32"

record flow_prelude =
  machine_id :: bytes
  parent_id :: bytes
  destination :: socket_addr
  initial_bytes :: bytes

definition write_prelude :: "bytes \<Rightarrow> flow_prelude \<Rightarrow> stream_error + bytes" where
  "write_prelude token p =
     (if machine_id p = replicate MACHINE_ID_LEN 0 \<or> MAX_INITIAL_BYTES < length (initial_bytes p)
      then Inl InvalidInput
      else Inr (FLOW_MAGIC @ token @ machine_id p @ parent_id p @
                (case sa_ip (destination p) of
                   V4 v \<Rightarrow> [4] @ nat_be 2 (unat (sa_port (destination p))) @ nat_be 4 (unat v)
                 | V6 v \<Rightarrow> [6] @ nat_be 2 (unat (sa_port (destination p))) @ nat_be 16 (unat v)) @
                nat_be 2 (length (initial_bytes p)) @ initial_bytes p))"

definition read_prelude :: "bytes \<Rightarrow> bytes \<Rightarrow> stream_error + flow_prelude \<times> bytes" where
  "read_prelude token s =
     (case read_exact (8 + TOKEN_LEN + MACHINE_ID_LEN * 2 + 1 + 2) s of
        None \<Rightarrow> Inl UnexpectedEof
      | Some (fixed, s1) \<Rightarrow>
          let mismatch = token_mismatch (if take 8 fixed \<noteq> FLOW_MAGIC then 1 else 0)
                           (take TOKEN_LEN (drop 8 fixed)) token
          in if mismatch \<noteq> 0 then Inl Rejected
             else
               let mid = take 16 (drop 40 fixed); pid = take 16 (drop 56 fixed)
               in if mid = replicate MACHINE_ID_LEN 0 then Inl MissingIdentity
                  else
                    let port = of_nat (be_nat [fixed ! 73, fixed ! 74])
                    in case read_ip (fixed ! 72) s1 of
                         Inl e \<Rightarrow> Inl e
                       | Inr (ip, s2) \<Rightarrow>
                           (case read_exact 2 s2 of
                              None \<Rightarrow> Inl UnexpectedEof
                            | Some (lenb, s3) \<Rightarrow>
                                let len = be_nat lenb
                                in if MAX_INITIAL_BYTES < len then Inl PayloadTooLarge
                                   else (case read_exact len s3 of
                                           None \<Rightarrow> Inl UnexpectedEof
                                         | Some (payload, rest) \<Rightarrow>
                                             Inr (\<lparr>machine_id = mid, parent_id = pid,
                                                   destination = \<lparr>sa_ip = ip, sa_port = port\<rparr>,
                                                   initial_bytes = payload\<rparr>, rest))))"

datatype decision = AllowDirect | DenyFlow | RedirectFlow

definition decision_write :: "decision \<Rightarrow> bytes" where
  "decision_write d = [case d of AllowDirect \<Rightarrow> 0 | DenyFlow \<Rightarrow> 1 | RedirectFlow \<Rightarrow> 2]"

definition decision_read :: "bytes \<Rightarrow> stream_error + decision \<times> bytes" where
  "decision_read s =
     (case read_exact 1 s of
        None \<Rightarrow> Inl UnexpectedEof
      | Some (b, rest) \<Rightarrow>
          if hd b = 0 then Inr (AllowDirect, rest)
          else if hd b = 1 then Inr (DenyFlow, rest)
          else if hd b = 2 then Inr (RedirectFlow, rest)
          else Inl InvalidDecision)"

section \<open>The interception preamble\<close>

definition ICPT_MAGIC :: bytes where "ICPT_MAGIC = str_bytes ''SMOLICPT''"
definition ICPT_VERSION :: u8 where "ICPT_VERSION = 1"
definition HEADER_LEN :: nat where "HEADER_LEN = length ICPT_MAGIC + 1 + TOKEN_LEN + 1 + 2"

definition preamble_len :: "bytes \<Rightarrow> nat option" where
  "preamble_len header =
     (case get_at header (HEADER_LEN - 3) of
        None \<Rightarrow> None
      | Some f \<Rightarrow> if f = 4 then Some (HEADER_LEN + 4) else if f = 6 then Some (HEADER_LEN + 16) else None)"

definition preamble :: "bytes \<Rightarrow> socket_addr \<Rightarrow> bytes" where
  "preamble token dest =
     ICPT_MAGIC @ [ICPT_VERSION] @ token @ [case sa_ip dest of V4 _ \<Rightarrow> 4 | V6 _ \<Rightarrow> 6] @
     nat_be 2 (unat (sa_port dest)) @
     (case sa_ip dest of V4 v \<Rightarrow> nat_be 4 (unat v) | V6 v \<Rightarrow> nat_be 16 (unat v))"

definition read_preamble :: "bytes \<Rightarrow> bytes \<Rightarrow> stream_error + socket_addr \<times> bytes" where
  "read_preamble token s =
     (case read_exact HEADER_LEN s of
        None \<Rightarrow> Inl UnexpectedEof
      | Some (header, s1) \<Rightarrow>
          let magic = take (length ICPT_MAGIC) header;
              rest = drop (length ICPT_MAGIC) header;
              version = hd rest;
              sent = take TOKEN_LEN (tl rest);
              rest = drop TOKEN_LEN (tl rest);
              family = hd rest;
              port = of_nat (be_nat [tl rest ! 0, tl rest ! 1]);
              mismatch = token_mismatch
                ((if magic \<noteq> ICPT_MAGIC then 1 else 0) OR (if version \<noteq> ICPT_VERSION then 1 else 0)) sent token
          in if mismatch \<noteq> 0 then Inl Rejected
             else (case read_ip family s1 of
                     Inl e \<Rightarrow> Inl e
                   | Inr (ip, s2) \<Rightarrow> Inr (\<lparr>sa_ip = ip, sa_port = port\<rparr>, s2)))"

datatype connect_error = NetworkUnreachable | HostUnreachable | TimedOut | OtherError

definition VERDICT_CONNECTED :: u8 where "VERDICT_CONNECTED = 0"

definition connect_verdict :: "connect_error + 'a \<Rightarrow> u8" where
  "connect_verdict result =
     (case result of
        Inr _ \<Rightarrow> VERDICT_CONNECTED
      | Inl NetworkUnreachable \<Rightarrow> 101
      | Inl HostUnreachable \<Rightarrow> 113
      | Inl TimedOut \<Rightarrow> 110
      | Inl OtherError \<Rightarrow> 111)"

definition read_verdict :: "bytes \<Rightarrow> stream_error + bytes" where
  "read_verdict s =
     (case read_exact 1 s of
        None \<Rightarrow> Inl UnexpectedEof
      | Some (b, rest) \<Rightarrow> if hd b = VERDICT_CONNECTED then Inr rest else Inl (RefusedWith (hd b)))"


section \<open>Both directions\<close>

lemma be_of_nat_u32: "length b = 4 \<Longrightarrow> unat (of_nat (be_nat b) :: u32) = be_nat b"
  using be_nat_bound [of b] by (simp add: unat_of_nat)

lemma be_of_nat_u128: "length b = 16 \<Longrightarrow> unat (of_nat (be_nat b) :: u128) = be_nat b"
  using be_nat_bound [of b] by (simp add: unat_of_nat)

lemma be_of_nat_u16: "length b = 2 \<Longrightarrow> unat (of_nat (be_nat b) :: u16) = be_nat b"
  using be_nat_bound [of b] by (simp add: unat_of_nat)

lemma nat_be_u16 [simp]: "be_nat (nat_be 2 (unat (p :: u16))) = unat p"
  using unsigned_less [of p, where 'a = nat] by (simp add: be_nat_nat_be_id)

lemma nat_be_u32 [simp]: "be_nat (nat_be 4 (unat (v :: u32))) = unat v"
  using unsigned_less [of v, where 'a = nat] by (simp add: be_nat_nat_be_id)

lemma nat_be_u128 [simp]: "be_nat (nat_be 16 (unat (v :: u128))) = unat v"
  using unsigned_less [of v, where 'a = nat] by (simp add: be_nat_nat_be_id)

lemma read_ip_iff: "read_ip f s = Inr (a, r) \<longleftrightarrow> f = family_byte a \<and> s = ip_octets a @ r"
proof
  assume "read_ip f s = Inr (a, r)"
  then show "f = family_byte a \<and> s = ip_octets a @ r"
    by (auto simp: read_ip_def family_byte_def ip_octets_def read_exact_Some_iff be_of_nat_u32 be_of_nat_u128
        nat_be_be_nat split: if_splits option.splits)
next
  assume "f = family_byte a \<and> s = ip_octets a @ r"
  then show "read_ip f s = Inr (a, r)"
    by (cases a) (simp_all add: read_ip_def family_byte_def ip_octets_def)
qed

lemma or_eq_0: "(a :: u8) OR b = 0 \<longleftrightarrow> a = 0 \<and> b = 0"
  by (metis or.right_neutral or_eq_0_iff)

lemma xor_eq_0: "(a :: u8) XOR b = 0 \<longleftrightarrow> a = b"
  by (metis xor_self_eq xor.assoc xor.right_neutral)

lemma token_mismatch_iff:
  "length a = length b \<Longrightarrow> token_mismatch m a b = 0 \<longleftrightarrow> m = 0 \<and> a = b"
  unfolding token_mismatch_def
  by (induction a b arbitrary: m rule: list_induct2) (auto simp: or_eq_0 xor_eq_0)


definition prelude_ok :: "flow_prelude \<Rightarrow> bool" where
  "prelude_ok p \<longleftrightarrow>
     length (machine_id p) = MACHINE_ID_LEN \<and> length (parent_id p) = MACHINE_ID_LEN \<and>
     machine_id p \<noteq> replicate MACHINE_ID_LEN 0 \<and> length (initial_bytes p) \<le> MAX_INITIAL_BYTES"

definition prelude_bytes :: "bytes \<Rightarrow> flow_prelude \<Rightarrow> bytes" where
  "prelude_bytes token p =
     FLOW_MAGIC @ token @ machine_id p @ parent_id p @ [family_byte (sa_ip (destination p))] @
     nat_be 2 (unat (sa_port (destination p))) @ ip_octets (sa_ip (destination p)) @
     nat_be 2 (length (initial_bytes p)) @ initial_bytes p"

lemma write_prelude_bytes: "prelude_ok p \<Longrightarrow> write_prelude token p = Inr (prelude_bytes token p)"
  by (auto simp: write_prelude_def prelude_ok_def prelude_bytes_def family_byte_def ip_octets_def split: ip_addr.splits)

lemma length_FLOW_MAGIC [simp]: "length FLOW_MAGIC = 8"
  by (simp add: FLOW_MAGIC_def)

text \<open>The fixed part of a prelude, cut into its fields.\<close>

definition prelude_fixed :: "bytes \<Rightarrow> bytes \<Rightarrow> bytes \<Rightarrow> bytes \<Rightarrow> u8 \<Rightarrow> bytes \<Rightarrow> bytes" where
  "prelude_fixed magic tok mid pid fam port = magic @ tok @ mid @ pid @ [fam] @ port"

lemma cut_prefix:
  "n \<le> length s \<Longrightarrow> \<exists>a b. s = a @ b \<and> length a = n \<and> length b = length s - n"
  by (metis append_take_drop_id length_drop length_take min.absorb2)

lemma prelude_fixed_cut:
  assumes "length fixed = 75"
  obtains magic tok mid pid fam port where
    "fixed = prelude_fixed magic tok mid pid fam port" "length magic = 8" "length tok = 32"
    "length mid = 16" "length pid = 16" "length port = 2"
proof -
  obtain magic r1 where 1: "fixed = magic @ r1" "length magic = 8" "length r1 = 67"
    using cut_prefix [of 8 fixed] assms by auto
  obtain tok r2 where 2: "r1 = tok @ r2" "length tok = 32" "length r2 = 35"
    using cut_prefix [of 32 r1] 1 by auto
  obtain mid r3 where 3: "r2 = mid @ r3" "length mid = 16" "length r3 = 19"
    using cut_prefix [of 16 r2] 2 by auto
  obtain pid r4 where 4: "r3 = pid @ r4" "length pid = 16" "length r4 = 3"
    using cut_prefix [of 16 r3] 3 by auto
  obtain fam port where "r4 = fam # port" "length port = 2" using 4(3) by (cases r4) simp_all
  with 1 2 3 4 show thesis by (intro that [of magic tok mid pid fam port]) (simp_all add: prelude_fixed_def)
qed

lemma prelude_fixed_fields:
  fixes fam :: u8
  assumes "length magic = 8" "length tok = 32" "length mid = 16" "length pid = 16" "length port = 2"
  defines "fixed \<equiv> prelude_fixed magic tok mid pid fam port"
  shows "length fixed = 75" "take 8 fixed = magic" "take 32 (drop 8 fixed) = tok" "take 16 (drop 40 fixed) = mid"
    "take 16 (drop 56 fixed) = pid" "fixed ! 72 = fam" "[fixed ! 73, fixed ! 74] = port"
proof -
  show "length fixed = 75" "take 8 fixed = magic" "take 32 (drop 8 fixed) = tok" "take 16 (drop 40 fixed) = mid"
    "take 16 (drop 56 fixed) = pid" "fixed ! 72 = fam"
    using assms(1-5) by (simp_all add: fixed_def prelude_fixed_def nth_append)
  have "fixed ! 73 = port ! 0" "fixed ! 74 = port ! 1"
    using assms(1-5) by (simp_all add: fixed_def prelude_fixed_def nth_append)
  then show "[fixed ! 73, fixed ! 74] = port" using list_two [of port] assms(5) by simp
qed

text \<open>The reader in terms of the fields.\<close>

lemma read_prelude_fields:
  assumes "length tok' = 32" "length magic = 8" "length tok = 32" "length mid = 16" "length pid = 16" "length port = 2"
  shows "read_prelude tok' (prelude_fixed magic tok mid pid fam port @ s1) =
    (if magic \<noteq> FLOW_MAGIC \<or> tok \<noteq> tok' then Inl Rejected
     else if mid = replicate MACHINE_ID_LEN 0 then Inl MissingIdentity
     else (case read_ip fam s1 of
             Inl e \<Rightarrow> Inl e
           | Inr (ip, s2) \<Rightarrow>
               (case read_exact 2 s2 of
                  None \<Rightarrow> Inl UnexpectedEof
                | Some (lenb, s3) \<Rightarrow>
                    if MAX_INITIAL_BYTES < be_nat lenb then Inl PayloadTooLarge
                    else (case read_exact (be_nat lenb) s3 of
                            None \<Rightarrow> Inl UnexpectedEof
                          | Some (payload, rest) \<Rightarrow>
                              Inr (\<lparr>machine_id = mid, parent_id = pid,
                                    destination = \<lparr>sa_ip = ip, sa_port = of_nat (be_nat port)\<rparr>,
                                    initial_bytes = payload\<rparr>, rest)))))"
proof -
  define fx where "fx = prelude_fixed magic tok mid pid fam port"
  note f = prelude_fixed_fields [OF assms(2-6), of fam, folded fx_def]
  have same: "token_mismatch (if magic \<noteq> FLOW_MAGIC then 1 else 0) tok tok' = 0 \<longleftrightarrow> magic = FLOW_MAGIC \<and> tok = tok'"
    using assms by (simp add: token_mismatch_iff)
  have "8 + 32 + 16 * 2 + 1 + 2 = (75 :: nat)" "read_exact 75 (fx @ s1) = Some (fx, s1)" using f(1) by simp_all
  note rd = this
  show ?thesis
    unfolding fx_def [symmetric] read_prelude_def TOKEN_LEN_def MACHINE_ID_LEN_def Let_def rd option.case prod.case f(2-) same
    by simp
qed

lemma read_prelude_iff:
  assumes tok: "length token = 32"
  shows "read_prelude token s = Inr (p, rest) \<longleftrightarrow> prelude_ok p \<and> s = prelude_bytes token p @ rest"
proof
  assume read: "read_prelude token s = Inr (p, rest)"
  then obtain fixed s1 where "read_exact 75 s = Some (fixed, s1)"
    by (auto simp: read_prelude_def TOKEN_LEN_def MACHINE_ID_LEN_def split: option.splits)
  then have s: "s = fixed @ s1" and "length fixed = 75" by (simp_all add: read_exact_Some_iff)
  from prelude_fixed_cut [OF this(2)] obtain magic tk mid pid fam port where
    fx: "fixed = prelude_fixed magic tk mid pid fam port" and
    len: "length magic = 8" "length tk = 32" "length mid = 16" "length pid = 16" "length port = 2" by blast
  from read [unfolded s fx read_prelude_fields [OF tok len]] obtain ip s2 lenb s3 payload where
    magic: "magic = FLOW_MAGIC" "tk = token" "mid \<noteq> replicate MACHINE_ID_LEN 0" and
    ip: "read_ip fam s1 = Inr (ip, s2)" and lenb: "read_exact 2 s2 = Some (lenb, s3)" and
    small: "be_nat lenb \<le> MAX_INITIAL_BYTES" and payload: "read_exact (be_nat lenb) s3 = Some (payload, rest)" and
    p: "p = \<lparr>machine_id = mid, parent_id = pid, destination = \<lparr>sa_ip = ip, sa_port = of_nat (be_nat port)\<rparr>,
      initial_bytes = payload\<rparr>"
    by (simp add: not_less split: if_splits sum.splits option.splits prod.splits)
  then show "prelude_ok p \<and> s = prelude_bytes token p @ rest"
    unfolding s fx using len
    by (simp add: prelude_ok_def prelude_bytes_def prelude_fixed_def read_ip_iff read_exact_Some_iff MACHINE_ID_LEN_def
        be_of_nat_u16 nat_be_be_nat)
next
  assume "prelude_ok p \<and> s = prelude_bytes token p @ rest"
  then have ok: "prelude_ok p" and s: "s = prelude_fixed FLOW_MAGIC token (machine_id p) (parent_id p)
      (family_byte (sa_ip (destination p))) (nat_be 2 (unat (sa_port (destination p)))) @
      ip_octets (sa_ip (destination p)) @ nat_be 2 (length (initial_bytes p)) @ initial_bytes p @ rest"
    by (simp_all add: prelude_bytes_def prelude_fixed_def)
  have ip: "read_ip (family_byte a) (ip_octets a @ r) = Inr (a, r)" for a r by (simp add: read_ip_iff)
  have "be_nat (nat_be 2 (length (initial_bytes p))) = length (initial_bytes p)"
    using ok by (simp add: prelude_ok_def MAX_INITIAL_BYTES_def be_nat_nat_be_id)
  then show "read_prelude token s = Inr (p, rest)"
    unfolding s using ok tok
    by (subst read_prelude_fields) (simp_all add: prelude_ok_def MACHINE_ID_LEN_def ip)
qed

lemma length_ICPT_MAGIC [simp]: "length ICPT_MAGIC = 8"
  by (simp add: ICPT_MAGIC_def)

lemma HEADER_LEN_eq: "HEADER_LEN = 44"
  by (simp add: HEADER_LEN_def TOKEN_LEN_def)

lemma preamble_cut:
  assumes "length header = 44"
  obtains magic ver tok fam p0 p1 where "header = magic @ [ver] @ tok @ [fam, p0, p1]"
    "length magic = 8" "length tok = 32"
proof -
  obtain magic r1 where 1: "header = magic @ r1" "length magic = 8" "length r1 = 36"
    using cut_prefix [of 8 header] assms by auto
  obtain ver r2 where 2: "r1 = ver # r2" "length r2 = 35" using 1(3) by (cases r1) simp_all
  obtain tok r3 where 3: "r2 = tok @ r3" "length tok = 32" "length r3 = 3"
    using cut_prefix [of 32 r2] 2 by auto
  obtain fam r4 where 4: "r3 = fam # r4" "length r4 = 2" using 3(3) by (cases r3) simp_all
  then have "r3 = [fam, r4 ! 0, r4 ! 1]" using list_two [of r4] by simp
  with 1 2 3 show thesis by (intro that [of magic ver tok fam "r4 ! 0" "r4 ! 1"]) simp_all
qed

lemma read_preamble_fields:
  assumes "length token = 32" "length magic = 8" "length tok = 32"
  shows "read_preamble token ((magic @ [ver] @ tok @ [fam, p0, p1]) @ s1) =
    (if magic \<noteq> ICPT_MAGIC \<or> ver \<noteq> ICPT_VERSION \<or> tok \<noteq> token then Inl Rejected
     else (case read_ip fam s1 of
             Inl e \<Rightarrow> Inl e
           | Inr (ip, s2) \<Rightarrow> Inr (\<lparr>sa_ip = ip, sa_port = of_nat (be_nat [p0, p1])\<rparr>, s2)))"
proof -
  define header where "header = magic @ [ver] @ tok @ [fam, p0, p1]"
  have parts: "take 8 header = magic" "hd (drop 8 header) = ver" "take 32 (tl (drop 8 header)) = tok"
    "hd (drop 32 (tl (drop 8 header))) = fam" "tl (drop 32 (tl (drop 8 header))) ! 0 = p0"
    "tl (drop 32 (tl (drop 8 header))) ! 1 = p1"
    using assms by (simp_all add: header_def)
  have same: "token_mismatch ((if magic \<noteq> ICPT_MAGIC then 1 else 0) OR (if ver \<noteq> ICPT_VERSION then 1 else 0)) tok token = 0 \<longleftrightarrow>
      magic = ICPT_MAGIC \<and> ver = ICPT_VERSION \<and> tok = token"
    using assms by (auto simp: token_mismatch_iff or_eq_0)
  have "length header = 44" using assms by (simp add: header_def)
  then have rd: "read_exact 44 (header @ s1) = Some (header, s1)" by simp
  show ?thesis
    unfolding header_def [symmetric] read_preamble_def HEADER_LEN_eq length_ICPT_MAGIC TOKEN_LEN_def Let_def rd
      option.case prod.case parts same
    by simp
qed

lemma preamble_fields:
  "preamble token d = ICPT_MAGIC @ [ICPT_VERSION] @ token @ [family_byte (sa_ip d)] @
     nat_be 2 (unat (sa_port d)) @ ip_octets (sa_ip d)"
  by (simp add: preamble_def family_byte_def ip_octets_def split: ip_addr.splits)

lemma read_preamble_iff:
  assumes tok: "length token = 32"
  shows "read_preamble token s = Inr (d, rest) \<longleftrightarrow> s = preamble token d @ rest"
proof
  assume read: "read_preamble token s = Inr (d, rest)"
  then obtain header s1 where "read_exact 44 s = Some (header, s1)"
    by (auto simp: read_preamble_def HEADER_LEN_eq split: option.splits)
  then have s: "s = header @ s1" and "length header = 44" by (simp_all add: read_exact_Some_iff)
  from preamble_cut [OF this(2)] obtain magic ver tk fam p0 p1 where
    h: "header = magic @ [ver] @ tk @ [fam, p0, p1]" and len: "length magic = 8" "length tk = 32" by blast
  from read [unfolded s h read_preamble_fields [OF tok len]] obtain ip where
    "magic = ICPT_MAGIC" "ver = ICPT_VERSION" "tk = token" and ip: "read_ip fam s1 = Inr (ip, rest)" and
    d: "d = \<lparr>sa_ip = ip, sa_port = of_nat (be_nat [p0, p1])\<rparr>"
    by (auto split: if_splits sum.splits prod.splits)
  moreover have "nat_be 2 (unat (of_nat (be_nat [p0, p1]) :: u16)) = [p0, p1]"
    by (subst be_of_nat_u16) (simp_all add: nat_be_be_nat)
  ultimately show "s = preamble token d @ rest"
    unfolding s h preamble_fields by (simp add: read_ip_iff)
next
  assume "s = preamble token d @ rest"
  then have s: "s = (ICPT_MAGIC @ [ICPT_VERSION] @ token @
      [family_byte (sa_ip d), nat_be 2 (unat (sa_port d)) ! 0, nat_be 2 (unat (sa_port d)) ! 1]) @ ip_octets (sa_ip d) @ rest"
    using list_two [of "nat_be 2 (unat (sa_port d))"] by (simp add: preamble_fields)
  have "[nat_be 2 (unat (sa_port d)) ! 0, nat_be 2 (unat (sa_port d)) ! 1] = nat_be 2 (unat (sa_port d))"
    using list_two [of "nat_be 2 (unat (sa_port d))"] by simp
  then have port: "be_nat [nat_be 2 (unat (sa_port d)) ! 0, nat_be 2 (unat (sa_port d)) ! 1] = unat (sa_port d)"
    by simp
  have "read_ip (family_byte (sa_ip d)) (ip_octets (sa_ip d) @ rest) = Inr (sa_ip d, rest)"
    by (simp add: read_ip_iff)
  with port show "read_preamble token s = Inr (d, rest)"
    unfolding s by (subst read_preamble_fields) (use tok in simp_all)
qed

lemma decision_read_iff: "decision_read s = Inr (d, rest) \<longleftrightarrow> s = decision_write d @ rest"
  by (cases s; cases d)
    (auto simp: decision_read_def decision_write_def read_exact_def split: if_splits)

definition to_option :: "'e + 'a \<Rightarrow> 'a option" where
  "to_option r = (case r of Inl _ \<Rightarrow> None | Inr x \<Rightarrow> Some x)"

lemma to_option_Some [simp]: "to_option r = Some x \<longleftrightarrow> r = Inr x"
  by (auto simp: to_option_def split: sum.splits)

interpretation prelude_wire: canonical_format
  "prelude_bytes (take 32 (token @ replicate 32 0))" "\<lambda>s. to_option (read_prelude (take 32 (token @ replicate 32 0)) s)" prelude_ok
  for token
  by unfold_locales (simp_all add: read_prelude_iff)

interpretation preamble_wire: canonical_format
  "preamble (take 32 (token @ replicate 32 0))" "\<lambda>s. to_option (read_preamble (take 32 (token @ replicate 32 0)) s)" "\<lambda>_. True"
  for token
  by unfold_locales (simp_all add: read_preamble_iff)

interpretation decision_wire: canonical_format decision_write "\<lambda>s. to_option (decision_read s)" "\<lambda>_. True"
  by unfold_locales (simp_all add: decision_read_iff)

section \<open>Properties\<close>

text \<open>the mediated-egress prelude is a faithful, authenticated channel: with a 32-byte token the
  reader accepts a byte stream exactly when it begins with what the writer produces for that token
  and for a flow with a nonzero machine identity and at most 8 KiB of initial bytes; it returns that
  flow and leaves the rest of the stream untouched.\<close>

theorem prelude_exact:
  assumes "length token = TOKEN_LEN"
  shows "read_prelude token s = Inr (p, rest) \<longleftrightarrow>
    length (machine_id p) = MACHINE_ID_LEN \<and> length (parent_id p) = MACHINE_ID_LEN \<and>
    (\<exists>b. write_prelude token p = Inr b \<and> s = b @ rest)"
proof -
  have "length token = 32" using assms by (simp add: TOKEN_LEN_def)
  moreover have "length (machine_id p) = MACHINE_ID_LEN \<and> length (parent_id p) = MACHINE_ID_LEN \<and>
      write_prelude token p = Inr b \<longleftrightarrow> prelude_ok p \<and> b = prelude_bytes token p" for b
    using write_prelude_bytes [of p token] by (auto simp: write_prelude_def prelude_ok_def split: if_splits)
  ultimately show ?thesis unfolding read_prelude_iff [OF \<open>length token = 32\<close>] by metis
qed

definition sample_flow :: flow_prelude where
  "sample_flow =
     \<lparr>machine_id = 7 # replicate 15 0, parent_id = replicate 16 0,
      destination = \<lparr>sa_ip = V4 0x08080808, sa_port = 443\<rparr>, initial_bytes = [0x16, 3, 1]\<rparr>"

theorem prelude_exact_witness:
  "\<exists>b. write_prelude (replicate 32 9) sample_flow = Inr b \<and>
     read_prelude (replicate 32 9) (b @ [1, 2]) = Inr (sample_flow, [1, 2])"
proof -
  have len: "length (replicate 32 (9 :: u8)) = TOKEN_LEN" by (simp add: TOKEN_LEN_def)
  have "machine_id sample_flow \<noteq> replicate MACHINE_ID_LEN 0" "length (initial_bytes sample_flow) \<le> MAX_INITIAL_BYTES"
    by code_simp+
  then have "\<exists>b. write_prelude (replicate 32 9) sample_flow = Inr b" by (simp add: write_prelude_def)
  then obtain b where b: "write_prelude (replicate 32 9) sample_flow = Inr b" by blast
  moreover have "read_prelude (replicate 32 9) (b @ [1, 2]) = Inr (sample_flow, [1, 2])"
    unfolding prelude_exact [OF len] using b by (simp add: sample_flow_def MACHINE_ID_LEN_def)
  ultimately show ?thesis by blast
qed

text \<open>the interception preamble names one destination: with a 32-byte token the interceptor
  accepts a stream exactly when it begins with the preamble the backend writes for that token and
  some destination, returns that destination, and \<open>preamble_len\<close> of the fixed header is the length
  of the whole preamble.\<close>

theorem preamble_exact:
  assumes "length token = TOKEN_LEN"
  shows "(read_preamble token s = Inr (d, rest) \<longleftrightarrow> s = preamble token d @ rest) \<and>
    preamble_len (take HEADER_LEN (preamble token d)) = Some (length (preamble token d))"
proof -
  have tok: "length token = 32" using assms by (simp add: TOKEN_LEN_def)
  have "get_at (take 44 (preamble token d)) 41 = Some (family_byte (sa_ip d))"
    using tok by (simp add: preamble_fields get_at_def nth_append)
  then have "preamble_len (take HEADER_LEN (preamble token d)) = Some (length (preamble token d))"
    using tok by (simp add: preamble_len_def HEADER_LEN_eq preamble_fields family_byte_def ip_octets_def split: ip_addr.splits)
  with read_preamble_iff [OF tok] show ?thesis by blast
qed

theorem preamble_exact_witness:
  "read_preamble (replicate 32 5) (preamble (replicate 32 5) \<lparr>sa_ip = V6 1, sa_port = 443\<rparr> @ [8]) =
     Inr (\<lparr>sa_ip = V6 1, sa_port = 443\<rparr>, [8])"
proof -
  have len: "length (replicate 32 (5 :: u8)) = TOKEN_LEN" by (simp add: TOKEN_LEN_def)
  show ?thesis by (rule iffD2 [OF conjunct1 [OF preamble_exact [OF len]]]) (rule refl)
qed

text \<open>The decision byte is unambiguous: the three decisions have distinct one-byte encodings and a
  stream decodes to a decision exactly when it begins with that decision's byte.\<close>

theorem decision_exact: "decision_read s = Inr (d, rest) \<longleftrightarrow> s = decision_write d @ rest"
  using decision_wire.dec_iff [of s d rest] by simp

end
