(* ===== verification/Opening.thy ===== *)
theory Opening
  imports Bytes
begin

text \<open>
  What the first bytes of a guest's TCP connection say (\<open>crates/smolvm-network/src/opening.rs\<close>, with
  the ClientHello parser of \<open>crates/smolvm-protocol/src/sni.rs\<close>). The JSON parser is a parameter; the
  TLS structures are parsed here.
\<close>

section \<open>The server name of a ClientHello\<close>

definition MAX_CLIENT_HELLO :: nat where "MAX_CLIENT_HELLO = 16 * 1024"

datatype peek = Incomplete | ServerName string | NoServerName

definition name_char :: "char \<Rightarrow> bool" where
  "name_char c \<longleftrightarrow> is_ascii_alphanumeric c \<or> c = CHR ''.'' \<or> c = CHR ''-'' \<or> c = CHR ''_''"

text \<open>The loop over the entries of the server name list.\<close>

function server_name_loop :: "bytes \<Rightarrow> peek option" where
  "server_name_loop entries =
     (if 3 \<le> length entries then
        let name_type = entries ! 0; len = be_nat [entries ! 1, entries ! 2]
        in case get_range entries 3 (3 + len) of
             None \<Rightarrow> None
           | Some name \<Rightarrow>
               if name_type = 0 then
                 (case from_utf8 name of
                    None \<Rightarrow> None
                  | Some n \<Rightarrow>
                      if n = [] \<or> \<not> list_all name_char n then Some NoServerName
                      else Some (ServerName (to_ascii_lowercase (trim_end_matches (CHR ''.'') n))))
               else server_name_loop (drop (3 + len) entries)
      else Some NoServerName)"
  by pat_completeness auto
termination
  by (relation "measure length") auto

declare server_name_loop.simps [simp del]

definition parse_server_name :: "bytes \<Rightarrow> peek option" where
  "parse_server_name data =
     (case (get_at data 0, get_at data 1) of
        (Some a, Some b) \<Rightarrow>
          (case get_range data 2 (2 + be_nat [a, b]) of
             None \<Rightarrow> None
           | Some entries \<Rightarrow> server_name_loop entries)
      | _ \<Rightarrow> None)"

text \<open>The loop over the extensions.\<close>

function extensions_loop :: "bytes \<Rightarrow> peek option" where
  "extensions_loop exts =
     (if 4 \<le> length exts then
        let ext_type = be_nat [exts ! 0, exts ! 1]; len = be_nat [exts ! 2, exts ! 3]
        in case get_range exts 4 (4 + len) of
             None \<Rightarrow> None
           | Some data \<Rightarrow>
               if ext_type = 0 then
                 Some (case parse_server_name data of Some p \<Rightarrow> p | None \<Rightarrow> NoServerName)
               else extensions_loop (drop (4 + len) exts)
      else Some NoServerName)"
  by pat_completeness auto
termination
  by (relation "measure length") auto

declare extensions_loop.simps [simp del]

definition skip_u8_vector :: "bytes \<Rightarrow> bytes option" where
  "skip_u8_vector body =
     (case get_at body 0 of None \<Rightarrow> None | Some n \<Rightarrow> get_from body (1 + unat n))"

definition skip_u16_vector :: "bytes \<Rightarrow> bytes option" where
  "skip_u16_vector body =
     (case (get_at body 0, get_at body 1) of
        (Some a, Some b) \<Rightarrow> get_from body (2 + be_nat [a, b])
      | _ \<Rightarrow> None)"

definition parse_client_hello :: "bytes \<Rightarrow> peek option" where
  "parse_client_hello body0 =
     (case get_from body0 34 of None \<Rightarrow> None | Some body1 \<Rightarrow>
      (case skip_u8_vector body1 of None \<Rightarrow> None | Some body2 \<Rightarrow>
       (case skip_u16_vector body2 of None \<Rightarrow> None | Some body3 \<Rightarrow>
        (case skip_u8_vector body3 of None \<Rightarrow> None | Some body \<Rightarrow>
           if body = [] then Some NoServerName
           else (case (get_at body 0, get_at body 1) of
                   (Some a, Some b) \<Rightarrow>
                     (case get_range body 2 (2 + be_nat [a, b]) of
                        None \<Rightarrow> None
                      | Some exts \<Rightarrow> extensions_loop exts)
                 | _ \<Rightarrow> None)))))"

definition peek_client_hello :: "bytes \<Rightarrow> peek" where
  "peek_client_hello buf =
     (if length buf < 5 then (if buf = [] \<or> buf ! 0 = 0x16 then Incomplete else NoServerName)
      else if buf ! 0 \<noteq> 0x16 \<or> buf ! 1 \<noteq> 0x03 then NoServerName
      else
        let record_len = be_nat [buf ! 3, buf ! 4]
        in if record_len = 0 \<or> MAX_CLIENT_HELLO < record_len then NoServerName
           else if length buf < 5 + record_len then Incomplete
           else
             let hs = take record_len (drop 5 buf)
             in if length hs < 4 \<or> hs ! 0 \<noteq> 0x01 then NoServerName
                else
                  let hs_len = be_nat [0, hs ! 1, hs ! 2, hs ! 3]
                  in if length hs < 4 + hs_len then NoServerName
                     else (case parse_client_hello (take hs_len (drop 4 hs)) of
                             Some p \<Rightarrow> p | None \<Rightarrow> NoServerName))"

section \<open>Openings\<close>

definition MAX_OPENING_BYTES :: nat where "MAX_OPENING_BYTES = 5 + MAX_CLIENT_HELLO"
definition MAX_STRATUM_LINE :: nat where "MAX_STRATUM_LINE = 4096"

definition STRATUM_METHODS :: "string list" where
  "STRATUM_METHODS =
     [''mining.subscribe'', ''mining.authorize'', ''mining.configure'', ''mining.extranonce.subscribe'',
      ''eth_submitLogin'']"

datatype opening_kind = Stratum string | OpeningName string | OtherOpening

text \<open>A parsed JSON value, as \<open>serde_json::Value\<close>; numbers are left opaque.\<close>

datatype json =
    JNull | JBool bool | JNumber string | JString string | JArray "json list" | JObject "(string \<times> json) list"

definition json_get :: "json \<Rightarrow> string \<Rightarrow> json option" where
  "json_get v k = (case v of JObject m \<Rightarrow> map_of m k | _ \<Rightarrow> None)"

definition json_as_str :: "json \<Rightarrow> string option" where
  "json_as_str v = (case v of JString s \<Rightarrow> Some s | _ \<Rightarrow> None)"

definition json_as_object :: "json \<Rightarrow> (string \<times> json) list option" where
  "json_as_object v = (case v of JObject m \<Rightarrow> Some m | _ \<Rightarrow> None)"

definition stratum_method :: "(bytes \<Rightarrow> json option) \<Rightarrow> bytes \<Rightarrow> string option" where
  "stratum_method from_slice line =
     (case from_slice line of
        None \<Rightarrow> None
      | Some request \<Rightarrow>
          (case Option.bind (json_get request ''method'') json_as_str of
             None \<Rightarrow> None
           | Some meth \<Rightarrow>
               (case find (\<lambda>m. m = meth) STRATUM_METHODS of
                  Some known \<Rightarrow> Some known
                | None \<Rightarrow>
                    (case Option.bind (json_get request ''params'') json_as_object of
                       None \<Rightarrow> None
                     | Some params \<Rightarrow>
                         if meth = ''login'' \<and> map_of params ''login'' \<noteq> None \<and> map_of params ''pass'' \<noteq> None
                         then Some ''login'' else None))))"

definition classify :: "(bytes \<Rightarrow> json option) \<Rightarrow> bytes \<Rightarrow> opening_kind option" where
  "classify from_slice bs =
     (case bs of
        [] \<Rightarrow> None
      | first # _ \<Rightarrow>
          let verdict =
            (if first = 0x16 then
               (case peek_client_hello bs of
                  Incomplete \<Rightarrow> None
                | ServerName name \<Rightarrow> Some (OpeningName name)
                | NoServerName \<Rightarrow> Some OtherOpening)
             else if first = 0x7B then
               (if 0x0A \<in> set bs then
                  Some (case stratum_method from_slice (takeWhile (\<lambda>b. b \<noteq> 0x0A) bs) of
                          None \<Rightarrow> OtherOpening | Some m \<Rightarrow> Stratum m)
                else if MAX_STRATUM_LINE \<le> length bs then Some OtherOpening
                else None)
             else Some OtherOpening)
          in case verdict of
               None \<Rightarrow> if MAX_OPENING_BYTES \<le> length bs then Some OtherOpening else None
             | Some v \<Rightarrow> Some v)"

section \<open>Decisions are final\<close>

lemma peek_stable:
  assumes "peek_client_hello buf \<noteq> Incomplete" "buf \<noteq> []"
  shows "peek_client_hello (buf @ more) = peek_client_hello buf"
proof -
  from assms have "5 \<le> length buf \<or> buf ! 0 \<noteq> 0x16" by (auto simp: peek_client_hello_def split: if_splits)
  then consider (long) "5 \<le> length buf" | (short) "length buf < 5" "buf ! 0 \<noteq> 0x16" by linarith
  then show ?thesis
  proof cases
    case long
    then have same: "(buf @ more) ! i = buf ! i" if "i < 5" for i using that by (simp add: nth_append)
    define n where "n = be_nat [buf ! 3, buf ! 4]"
    show ?thesis
    proof (cases "buf ! 0 \<noteq> 0x16 \<or> buf ! 1 \<noteq> 0x03 \<or> n = 0 \<or> MAX_CLIENT_HELLO < n")
      case True
      with long show ?thesis by (auto simp: peek_client_hello_def same n_def Let_def)
    next
      case False
      with assms long have "5 + n \<le> length buf"
        by (auto simp: peek_client_hello_def n_def Let_def not_less split: if_splits)
      moreover from this have "take n (drop 5 (buf @ more)) = take n (drop 5 buf)" by simp
      ultimately show ?thesis using long by (simp add: peek_client_hello_def same n_def Let_def)
    qed
  next
    case short
    with assms(2) have "(buf @ more) ! 0 = buf ! 0" by (simp add: nth_append)
    with short assms(2) show ?thesis by (simp add: peek_client_hello_def Let_def)
  qed
qed

lemma server_name_loop_decides: "server_name_loop es \<noteq> Some Incomplete"
  by (induction es rule: server_name_loop.induct)
    (subst server_name_loop.simps, simp add: Let_def split: option.splits)

lemma extensions_loop_decides: "extensions_loop es \<noteq> Some Incomplete"
proof (induction es rule: extensions_loop.induct)
  case (1 es)
  have "parse_server_name data \<noteq> Some Incomplete" for data
    using server_name_loop_decides by (simp add: parse_server_name_def split: option.splits)
  with 1 show ?case by (subst extensions_loop.simps) (auto simp: Let_def split: option.splits)
qed

lemma parse_client_hello_decides: "parse_client_hello b \<noteq> Some Incomplete"
  using extensions_loop_decides by (simp add: parse_client_hello_def split: option.splits)

lemma peek_complete: "MAX_OPENING_BYTES \<le> length buf \<Longrightarrow> peek_client_hello buf \<noteq> Incomplete"
  using parse_client_hello_decides
  by (auto simp: peek_client_hello_def MAX_OPENING_BYTES_def MAX_CLIENT_HELLO_def Let_def
      split: if_splits option.splits)

section \<open>A ClientHello with a server name\<close>

definition sni_entry :: "bytes \<Rightarrow> bytes" where
  "sni_entry name = [0] @ nat_be 2 (length name) @ name"

definition extension :: "nat \<Rightarrow> bytes \<Rightarrow> bytes" where
  "extension t data = nat_be 2 t @ nat_be 2 (length data) @ data"

definition sni_extension :: "bytes \<Rightarrow> bytes" where
  "sni_extension name = extension 0 (nat_be 2 (length (sni_entry name)) @ sni_entry name)"

definition hello_body :: "bytes \<Rightarrow> bytes \<Rightarrow> bytes \<Rightarrow> bytes \<Rightarrow> bytes \<Rightarrow> bytes" where
  "hello_body version_random session ciphers compression exts =
     version_random @ of_nat (length session) # session @ nat_be 2 (length ciphers) @ ciphers @
     of_nat (length compression) # compression @ nat_be 2 (length exts) @ exts"

definition hello_record :: "u8 \<Rightarrow> bytes \<Rightarrow> bytes" where
  "hello_record minor body =
     [0x16, 3, minor] @ nat_be 2 (4 + length body) @ [1] @ nat_be 3 (length body) @ body"

lemma server_name_loop_entry:
  assumes "length name < 65536" "name \<noteq> []" "list_all name_char (bytes_str name)"
  shows "server_name_loop (sni_entry name @ rest) =
    Some (ServerName (to_ascii_lowercase (trim_end_matches (CHR ''.'') (bytes_str name))))"
proof -
  let ?es = "sni_entry name @ rest"
  have es: "?es ! 0 = 0" "?es ! 1 = nat_be 2 (length name) ! 0" "?es ! 2 = nat_be 2 (length name) ! 1"
    by (simp_all add: sni_entry_def nth_append nth_Cons')
  have "be_nat [?es ! 1, ?es ! 2] = length name" unfolding es by (rule be_two) (rule assms)
  moreover have "get_range ?es 3 (3 + length name) = Some name"
    using get_range_append [of 3 "[0] @ nat_be 2 (length name)" "3 + length name" name rest] by (simp add: sni_entry_def)
  moreover have "from_utf8 name = Some (bytes_str name)"
  proof -
    have "c \<in> set (bytes_str name) \<Longrightarrow> (of_char c :: nat) < 128" for c
      using assms(3) by (auto simp: list_all_iff name_char_def is_ascii_alphanumeric_def is_ascii_digit_def)
    moreover have "char_of (unat b) \<in> set (bytes_str name)" if "b \<in> set name" for b
      using that by (simp add: bytes_str_def)
    ultimately have "unat b < 128" if "b \<in> set name" for b
      using that unat_u8_lt [of b] by (metis mod_less of_char_of)
    then have "b \<le> 0x7F" if "b \<in> set name" for b using that by (fastforce simp: word_le_nat_alt)
    then show ?thesis by (simp add: from_utf8_def valid_utf8_ascii)
  qed
  moreover have "3 \<le> length ?es" "bytes_str name \<noteq> []" using assms(2) by (simp_all add: sni_entry_def bytes_str_def)
  ultimately show ?thesis
    by (subst server_name_loop.simps) (use assms(3) in \<open>simp add: Let_def es(1)\<close>)
qed

lemma parse_server_name_hit:
  assumes "length name < 65533" "name \<noteq> []" "list_all name_char (bytes_str name)"
  shows "parse_server_name (nat_be 2 (length (sni_entry name)) @ sni_entry name) =
    Some (ServerName (to_ascii_lowercase (trim_end_matches (CHR ''.'') (bytes_str name))))"
proof -
  let ?d = "nat_be 2 (length (sni_entry name)) @ sni_entry name"
  have len: "length (sni_entry name) < 65536" using assms(1) by (simp add: sni_entry_def)
  have "get_at ?d 0 = Some (nat_be 2 (length (sni_entry name)) ! 0)" "get_at ?d 1 = Some (nat_be 2 (length (sni_entry name)) ! 1)"
    by (simp_all add: get_at_def nth_append)
  moreover have "get_range ?d 2 (2 + length (sni_entry name)) = Some (sni_entry name)"
    using get_range_append [of 2 "nat_be 2 (length (sni_entry name))" "2 + length (sni_entry name)" "sni_entry name" "[]"] by simp
  ultimately show ?thesis
    using server_name_loop_entry [of name "[]"] assms be_two [OF len] by (simp add: parse_server_name_def)
qed

lemma extension_head:
  fixes rest :: bytes
  assumes "t < 65536" "length d < 65536"
  defines "es \<equiv> extension t d @ rest"
  shows "4 \<le> length es" "be_nat [es ! 0, es ! 1] = t" "be_nat [es ! 2, es ! 3] = length d"
    "get_range es 4 (4 + length d) = Some d" "drop (4 + length d) es = rest"
proof -
  have "es ! 0 = nat_be 2 t ! 0" "es ! 1 = nat_be 2 t ! 1" "es ! 2 = nat_be 2 (length d) ! 0" "es ! 3 = nat_be 2 (length d) ! 1"
    by (simp_all add: es_def extension_def nth_append)
  note ix = this
  show "be_nat [es ! 0, es ! 1] = t" "be_nat [es ! 2, es ! 3] = length d"
    unfolding ix using assms(1,2) by (simp_all only: be_two)
  show "get_range es 4 (4 + length d) = Some d"
    using get_range_append [of 4 "nat_be 2 t @ nat_be 2 (length d)" "4 + length d" d rest] by (simp add: es_def extension_def)
  show "4 \<le> length es" "drop (4 + length d) es = rest" by (simp_all add: es_def extension_def)
qed

lemma extensions_loop_skip:
  assumes "t < 65536" "t \<noteq> 0" "length d < 65536"
  shows "extensions_loop (extension t d @ rest) = extensions_loop rest"
proof -
  define es where "es = extension t d @ rest"
  note h = extension_head [OF assms(1,3), of rest, folded es_def]
  show ?thesis
    unfolding es_def [symmetric] extensions_loop.simps [of es] Let_def h option.case using h(1) assms(2) by simp
qed

lemma extensions_loop_skip_all:
  "\<forall>(t, d)\<in>set others. t < 65536 \<and> t \<noteq> 0 \<and> length d < 65536 \<Longrightarrow>
   extensions_loop (concat (map (\<lambda>(t, d). extension t d) others) @ rest) = extensions_loop rest"
  by (induction others) (auto simp: extensions_loop_skip)

lemma extensions_loop_hit:
  assumes "length name < 65000" "name \<noteq> []" "list_all name_char (bytes_str name)"
  shows "extensions_loop (sni_extension name @ rest) =
    Some (ServerName (to_ascii_lowercase (trim_end_matches (CHR ''.'') (bytes_str name))))"
proof -
  let ?d = "nat_be 2 (length (sni_entry name)) @ sni_entry name"
  have "length ?d < 65536" using assms(1) by (simp add: sni_entry_def)
  define es where "es = extension 0 ?d @ rest"
  have "parse_server_name ?d = Some (ServerName (to_ascii_lowercase (trim_end_matches (CHR ''.'') (bytes_str name))))"
    using parse_server_name_hit [of name] assms by simp
  moreover note h = extension_head [of 0, OF _ \<open>length ?d < 65536\<close>, of rest, folded es_def, simplified (no_asm)]
  ultimately show ?thesis
    unfolding sni_extension_def es_def [symmetric] extensions_loop.simps [of es] Let_def
    using h by simp
qed

lemma skip_u8_vector_append [simp]: "length v < 256 \<Longrightarrow> skip_u8_vector (of_nat (length v) # v @ rest) = Some rest"
  by (simp add: skip_u8_vector_def get_at_def get_from_def unat_of_nat_u8)

lemma skip_u16_vector_append [simp]: "length v < 65536 \<Longrightarrow> skip_u16_vector (nat_be 2 (length v) @ v @ rest) = Some rest"
  by (simp add: skip_u16_vector_def get_at_def get_from_def nth_append be_two [simplified])

lemma parse_client_hello_body:
  assumes "length version_random = 34" "length session < 256" "length ciphers < 65536" "length compression < 256"
    and "length exts < 65536"
  shows "parse_client_hello (hello_body version_random session ciphers compression exts) = extensions_loop exts"
proof -
  define tail where "tail = nat_be 2 (length exts) @ exts"
  define r3 where "r3 = of_nat (length compression) # compression @ tail"
  define r2 where "r2 = nat_be 2 (length ciphers) @ ciphers @ r3"
  define r1 where "r1 = of_nat (length session) # session @ r2"
  have skips: "get_from (hello_body version_random session ciphers compression exts) 34 = Some r1"
    "skip_u8_vector r1 = Some r2" "skip_u16_vector r2 = Some r3" "skip_u8_vector r3 = Some tail"
    using assms by (simp_all add: r1_def r2_def r3_def tail_def) (simp add: get_from_def hello_body_def)
  have at: "get_at tail 0 = Some (nat_be 2 (length exts) ! 0)" "get_at tail 1 = Some (nat_be 2 (length exts) ! 1)"
    by (simp_all add: tail_def get_at_def nth_append)
  have range: "get_range tail 2 (2 + length exts) = Some exts"
    using get_range_append [of 2 "nat_be 2 (length exts)" "2 + length exts" exts "[]"] by (simp add: tail_def)
  have ne: "tail \<noteq> []" using length_nat_be [of 2 "length exts"] unfolding tail_def by (cases "nat_be 2 (length exts)") simp_all
  show ?thesis
    unfolding parse_client_hello_def skips option.case at prod.case be_two [OF assms(5)] range using ne by simp
qed

lemma be_three: "v < 65536 * 256 \<Longrightarrow> be_nat [0, nat_be 3 v ! 0, nat_be 3 v ! 1, nat_be 3 v ! 2] = v"
proof -
  assume "v < 65536 * 256"
  then have v: "be_nat (nat_be 3 v) = v" by (simp add: be_nat_nat_be_id)
  have "nat_be 3 v = [nat_be 3 v ! 0, nat_be 3 v ! 1, nat_be 3 v ! 2]"
    using length_nat_be [of 3 v] by (intro nth_equalityI) (auto simp: less_Suc_eq numeral_3_eq_3 nth_Cons')
  moreover have "be_nat (0 # xs) = be_nat xs" for xs by (simp add: be_nat_def)
  ultimately show ?thesis using v by metis
qed

lemma peek_hello_record:
  assumes "4 + length body \<le> MAX_CLIENT_HELLO"
  shows "peek_client_hello (hello_record minor body @ rest) =
    (case parse_client_hello body of Some p \<Rightarrow> p | None \<Rightarrow> NoServerName)"
proof -
  define hs where "hs = [1] @ nat_be 3 (length body) @ body"
  define buf where "buf = hello_record minor body @ rest"
  have buf: "buf = [0x16, 3, minor] @ nat_be 2 (4 + length body) @ hs @ rest" and len_hs: "length hs = 4 + length body"
    by (simp_all add: buf_def hello_record_def hs_def)
  have n: "buf ! 0 = 0x16" "buf ! 1 = 3" "buf ! 3 = nat_be 2 (4 + length body) ! 0" "buf ! 4 = nat_be 2 (4 + length body) ! 1"
    by (simp_all add: buf nth_append nth_Cons')
  have "4 + length body < 65536" using assms by (simp add: MAX_CLIENT_HELLO_def)
  then have rl: "be_nat [buf ! 3, buf ! 4] = 4 + length body" unfolding n by (rule be_two)
  have h: "hs ! 0 = 1" "hs ! 1 = nat_be 3 (length body) ! 0" "hs ! 2 = nat_be 3 (length body) ! 1"
    "hs ! 3 = nat_be 3 (length body) ! 2" "take (length body) (drop 4 hs) = body"
    by (simp_all add: hs_def nth_append nth_Cons')
  have "length body < 65536 * 256" using assms by (simp add: MAX_CLIENT_HELLO_def)
  then have hl: "be_nat [0, hs ! 1, hs ! 2, hs ! 3] = length body" unfolding h by (rule be_three)
  have cut: "take (4 + length body) (drop 5 buf) = hs" using len_hs by (simp add: buf)
  have lens: "\<not> length buf < 5" "\<not> length buf < 5 + (4 + length body)" using len_hs by (simp_all add: buf)
  show ?thesis
    unfolding buf_def [symmetric] peek_client_hello_def Let_def rl cut hl n(1,2) h(1,5)
    using lens len_hs assms by simp
qed

section \<open>Properties\<close>

text \<open>the server name of a TLS ClientHello is read exactly: for every record carrying a hello with
  any session, cipher suites, compression methods and any extensions before and after a
  \<open>server_name\<close> extension with a host name, the peek returns that name in lower case without
  trailing dots, whatever bytes follow the record.\<close>

theorem sni_extracted:
  assumes "length version_random = 34" "length session < 256" "length ciphers < 65536" "length compression < 256"
    and "\<forall>(t, d)\<in>set others. t < 65536 \<and> t \<noteq> 0 \<and> length d < 65536"
    and "name \<noteq> []" "list_all name_char (bytes_str name)"
    and "body = hello_body version_random session ciphers compression
      (concat (map (\<lambda>(t, d). extension t d) others) @ sni_extension name @ after)"
    and "4 + length body \<le> MAX_CLIENT_HELLO"
  shows "peek_client_hello (hello_record minor body @ rest) =
    ServerName (to_ascii_lowercase (trim_end_matches (CHR ''.'') (bytes_str name)))"
proof -
  let ?exts = "concat (map (\<lambda>(t, d). extension t d) others) @ sni_extension name @ after"
  have "length ?exts < 65536" "length name < 65000"
    using assms(8,9) by (simp_all add: hello_body_def MAX_CLIENT_HELLO_def sni_extension_def extension_def sni_entry_def)
  then have "parse_client_hello body = extensions_loop ?exts"
    unfolding assms(8) using assms(1-4) by (intro parse_client_hello_body)
  also have "\<dots> = extensions_loop (sni_extension name @ after)" using assms(5) by (rule extensions_loop_skip_all)
  also have "\<dots> = Some (ServerName (to_ascii_lowercase (trim_end_matches (CHR ''.'') (bytes_str name))))"
    using assms(6,7) \<open>length name < 65000\<close> by (intro extensions_loop_hit)
  finally show ?thesis using peek_hello_record [OF assms(9)] by simp
qed

theorem sni_extracted_witness:
  "peek_client_hello (hello_record 1 (hello_body (replicate 34 7) [] [0x13, 1] [0] (extension 10 [0, 0] @ sni_extension [0x41, 0x2E, 0x62] @ [])) @ [9]) =
     ServerName ''a.b''"
proof -
  have "list_all name_char (bytes_str [0x41, 0x2E, 0x62])" by code_simp
  moreover have "4 + length (hello_body (replicate 34 7) [] [0x13, 1] [0]
      (concat (map (\<lambda>(t, d). extension t d) [(10, [0, 0])]) @ sni_extension [0x41, 0x2E, 0x62] @ [])) \<le> MAX_CLIENT_HELLO" by code_simp
  moreover have "to_ascii_lowercase (trim_end_matches (CHR ''.'') (bytes_str [0x41, 0x2E, 0x62])) = ''a.b''" by code_simp
  ultimately show ?thesis
    using sni_extracted [OF _ _ _ _ _ _ _ refl, of "replicate 34 7" "[]" "[0x13, 1]" "[0]" "[(10, [0, 0])]" "[0x41, 0x2E, 0x62]" "[]" 1 "[9]"]
    by simp
qed

text \<open>The classifier waits for a bounded number of bytes: once \<open>MAX_OPENING_BYTES\<close> have arrived it
  always has a verdict, and before the first byte it never has one.\<close>

theorem classify_decides:
  "classify from_slice [] = None \<and> (MAX_OPENING_BYTES \<le> length bs \<longrightarrow> classify from_slice bs \<noteq> None)"
  by (auto simp: classify_def MAX_OPENING_BYTES_def Let_def split: list.splits option.splits)

theorem classify_decides_witness:
  "classify (\<lambda>_. None) (replicate MAX_OPENING_BYTES 0x16) \<noteq> None"
  using classify_decides [of "\<lambda>_. None" "replicate MAX_OPENING_BYTES 0x16"] by simp

text \<open>a verdict is final: bytes that arrive after a verdict never change it, except that an
  over-long first line of a JSON opening counts as other traffic before its end is seen.\<close>

theorem classify_final:
  assumes "classify from_slice bs = Some v" "hd bs = 0x7B \<longrightarrow> 0x0A \<in> set bs"
  shows "classify from_slice (bs @ more) = Some v"
proof (cases bs)
  case Nil
  with assms show ?thesis by (simp add: classify_def)
next
  case (Cons first r)
  consider (tls) "first = 0x16" | (json) "first = 0x7B" | (other) "first \<noteq> 0x16" "first \<noteq> 0x7B" by blast
  then show ?thesis
  proof cases
    case tls
    have "peek_client_hello bs \<noteq> Incomplete"
    proof
      assume inc: "peek_client_hello bs = Incomplete"
      then have "\<not> MAX_OPENING_BYTES \<le> length bs" using peek_complete by blast
      with inc assms(1) Cons tls show False by (simp add: classify_def Let_def)
    qed
    with Cons have "peek_client_hello (bs @ more) = peek_client_hello bs" by (intro peek_stable) auto
    with assms(1) Cons tls \<open>peek_client_hello bs \<noteq> Incomplete\<close> show ?thesis
      by (auto simp: classify_def Let_def split: peek.splits)
  next
    case json
    with assms(2) Cons have "0x0A \<in> set bs" by simp
    moreover from this have "takeWhile (\<lambda>b. b \<noteq> 0x0A) (bs @ more) = takeWhile (\<lambda>b. b \<noteq> 0x0A) bs"
      by (intro takeWhile_append1) auto
    ultimately show ?thesis using assms(1) Cons json by (simp add: classify_def Let_def)
  next
    case other
    with assms(1) Cons show ?thesis by (simp add: classify_def Let_def)
  qed
qed

theorem classify_final_witness:
  "classify (\<lambda>_. None) ([0x47, 0x45, 0x54] @ [0x0A]) = Some OtherOpening"
proof (rule classify_final)
  show "classify (\<lambda>_. None) [0x47, 0x45, 0x54] = Some OtherOpening" by code_simp
qed simp

end
