(* ===== verification/Gateway.thy ===== *)
theory Gateway
  imports Egress_Safety Opening Transition
begin

text \<open>
  The DNS side of the gateway's poll loop (\<open>crates/smolvm-network/src/stack.rs\<close>): the decision on a
  guest query, the UDP dispatch with its table of pending queries, the delivery of answers from the
  offload thread, and the per-connection state machine of DNS over TCP; and the policy's reaction to
  a connection's opening bytes (\<open>EgressPolicy::observe_opening\<close>).

  The smoltcp sockets and the relay channel are the environment: the datagrams and bytes received,
  whether a socket is open, how many bytes each \<open>send_slice\<close> accepts, and the result of each
  \<open>try_send\<close> are arguments; what the code writes to a socket, closes or sends to the relay is part
  of the result.
\<close>

section \<open>Classifying a query\<close>

datatype dns_decision = Immediate bytes | Forward bool

record observer =
  obs_digest :: "string \<Rightarrow> bytes"
  obs_file :: watch_file
  obs_now :: instant
  obs_audit_ok :: bool

definition watch_blocks :: "observer \<Rightarrow> bytes \<Rightarrow> egress_policy \<Rightarrow> bool \<times> egress_policy" where
  "watch_blocks ob query p =
     (if watching p then
        (case question_name query of
           Some name \<Rightarrow>
             (case observe_dns (obs_digest ob) (obs_file ob) (obs_now ob) name p of (b, _, p') \<Rightarrow> (b, p'))
         | None \<Rightarrow> (False, p))
      else (False, p))"

definition classify_dns_query :: "observer \<Rightarrow> bytes \<Rightarrow> egress_policy \<Rightarrow> u32 \<Rightarrow> dns_decision \<times> egress_policy" where
  "classify_dns_query ob query p0 gateway_ipv4 =
     (case watch_blocks ob query p0 of (blocked, p) \<Rightarrow>
        (if blocked then Immediate (error_response query DNS_RCODE_NXDOMAIN)
         else if Option.bind (question_name query) normalize_hostname = Some GATEWAY_HOSTNAME then
           (if \<not> record_decision p (obs_audit_ok ob) then Immediate (error_response query DNS_RCODE_SERVFAIL)
            else Immediate (gateway_response query gateway_ipv4))
         else if \<not> dns_filter_active p then
           (if \<not> record_decision p (obs_audit_ok ob) then Immediate (error_response query DNS_RCODE_SERVFAIL)
            else Forward False)
         else
           (case question_name query of
              Some name \<Rightarrow>
                if policy_hostname_allowed p (obs_audit_ok ob) name then Forward True
                else Immediate (error_response query DNS_RCODE_NXDOMAIN)
            | None \<Rightarrow> Immediate (error_response query DNS_RCODE_SERVFAIL)), p))"

definition observe_opening ::
  "observer \<Rightarrow> opening_kind \<Rightarrow> egress_policy \<Rightarrow> bool \<times> string option \<times> egress_policy" where
  "observe_opening ob op p =
     (case op of
        Stratum _ \<Rightarrow> (False, Some ''stratum'', p)
      | OpeningName name \<Rightarrow> observe_dns (obs_digest ob) (obs_file ob) (obs_now ob) name p
      | OtherOpening \<Rightarrow> (False, None, p))"

section \<open>UDP\<close>

definition MAX_PENDING_DNS :: nat where "MAX_PENDING_DNS = 512"

text \<open>\<open>'e\<close> is a guest endpoint with the local address it wrote to, as smoltcp reports them.\<close>

record 'e pending_dns_udp =
  pend_endpoint :: 'e
  pend_learn :: bool

record 'e dns_gateway =
  gw_next_id :: u64
  pending_udp :: "(u64 \<times> 'e pending_dns_udp) list"

definition gateway_new :: "'e dns_gateway" where
  "gateway_new = \<lparr>gw_next_id = 0, pending_udp = []\<rparr>"

definition take_id :: "'e dns_gateway \<Rightarrow> u64 \<times> 'e dns_gateway" where
  "take_id g = (gw_next_id g, g\<lparr>gw_next_id := gw_next_id g + 1\<rparr>)"

definition hm_remove :: "'k \<Rightarrow> ('k \<times> 'v) list \<Rightarrow> ('k \<times> 'v) list" where
  "hm_remove k m = filter (\<lambda>(k', _). k' \<noteq> k) m"

datatype send_result = Sent | QueueFull | Disconnected

datatype dns_transport = OverUdp | OverTcp

record relay_query =
  qry_id :: u64
  qry_transport :: dns_transport
  qry_upstream :: u32
  qry_bytes :: bytes

record dns_routing =
  route_upstream :: u32
  route_gateway :: u32

text \<open>What one pass over the UDP socket does to the outside: replies written and queries handed to
  the relay; the function's result \<open>queued\<close> is whether a query was handed over. A received datagram
  comes with its sender, the clock and watch file at that moment, and the answer the relay's queue
  would give.\<close>

record 'e udp_effects =
  udp_replies :: "('e \<times> bytes) list"
  udp_queued :: "relay_query list"

fun dispatch_dns_udp ::
  "dns_routing \<Rightarrow> (observer \<times> bytes \<times> 'e \<times> send_result) list \<Rightarrow> 'e dns_gateway \<Rightarrow> egress_policy \<Rightarrow>
   'e udp_effects \<times> 'e dns_gateway \<times> egress_policy" where
  "dispatch_dns_udp rt [] g p = (\<lparr>udp_replies = [], udp_queued = []\<rparr>, g, p)"
| "dispatch_dns_udp rt ((ob, query, endpoint, offered) # rest) g p =
     (case classify_dns_query ob query p (route_gateway rt) of
        (Immediate response, p') \<Rightarrow>
          (case dispatch_dns_udp rt rest g p' of (fx, g', p'') \<Rightarrow>
             (fx\<lparr>udp_replies := (endpoint, response) # udp_replies fx\<rparr>, g', p''))
      | (Forward lrn, p') \<Rightarrow>
          if MAX_PENDING_DNS \<le> length (pending_udp g) then dispatch_dns_udp rt rest g p'
          else
            (case take_id g of (i, g1) \<Rightarrow>
               let g2 = g1\<lparr>pending_udp := hm_insert i \<lparr>pend_endpoint = endpoint, pend_learn = lrn\<rparr> (pending_udp g1)\<rparr>
               in case offered of
                    Sent \<Rightarrow>
                      (case dispatch_dns_udp rt rest g2 p' of (fx, g', p'') \<Rightarrow>
                         (fx\<lparr>udp_queued :=
                             \<lparr>qry_id = i, qry_transport = OverUdp, qry_upstream = route_upstream rt, qry_bytes = query\<rparr> # udp_queued fx\<rparr>, g', p''))
                  | QueueFull \<Rightarrow> dispatch_dns_udp rt rest (g2\<lparr>pending_udp := hm_remove i (pending_udp g2)\<rparr>) p'
                  | Disconnected \<Rightarrow>
                      (\<lparr>udp_replies = [], udp_queued = []\<rparr>, g2\<lparr>pending_udp := hm_remove i (pending_udp g2)\<rparr>, p')))"

section \<open>TCP\<close>

definition DNS_TCP_MAX_MSG :: nat where "DNS_TCP_MAX_MSG = 4096"

record dns_tcp_conn =
  conn_rx :: bytes
  conn_tx :: bytes
  conn_tx_sent :: nat
  conn_done :: bool
  conn_awaiting :: "(u64 \<times> bool) option"

definition conn_default :: dns_tcp_conn where
  "conn_default = \<lparr>conn_rx = [], conn_tx = [], conn_tx_sent = 0, conn_done = False, conn_awaiting = None\<rparr>"

definition frame_dns_tcp_response :: "bytes \<Rightarrow> dns_tcp_conn \<Rightarrow> dns_tcp_conn" where
  "frame_dns_tcp_response response c =
     (if length response < 65536
      then c\<lparr>conn_tx := conn_tx c @ nat_be 2 (length response) @ response\<rparr> else c)"

text \<open>The send loop: one number per iteration in which \<open>can_send\<close> holds, the bytes \<open>send_slice\<close>
  accepts. The result is what was written.\<close>

fun drain_loop :: "nat list \<Rightarrow> dns_tcp_conn \<Rightarrow> bytes \<times> dns_tcp_conn" where
  "drain_loop [] c = ([], c)"
| "drain_loop (n # ns) c =
     (if conn_tx_sent c < length (conn_tx c) \<and> 0 < n then
        let chunk = take n (drop (conn_tx_sent c) (conn_tx c))
        in case drain_loop ns (c\<lparr>conn_tx_sent := conn_tx_sent c + length chunk\<rparr>) of
             (out, c') \<Rightarrow> (chunk @ out, c')
      else ([], c))"

record tcp_effects =
  tcp_written :: bytes
  tcp_closed :: bool
  tcp_query :: "relay_query option"

definition drain_dns_tcp_tx :: "nat list \<Rightarrow> dns_tcp_conn \<Rightarrow> tcp_effects \<times> dns_tcp_conn" where
  "drain_dns_tcp_tx accepts c =
     (case drain_loop accepts c of (out, c') \<Rightarrow>
        (\<lparr>tcp_written = out, tcp_closed = (length (conn_tx c') \<le> conn_tx_sent c'), tcp_query = None\<rparr>, c'))"

definition no_effect :: tcp_effects where
  "no_effect = \<lparr>tcp_written = [], tcp_closed = False, tcp_query = None\<rparr>"

definition close_effect :: tcp_effects where
  "close_effect = \<lparr>tcp_written = [], tcp_closed = True, tcp_query = None\<rparr>"

record poll_env =
  sock_open :: bool
  sock_incoming :: bytes
  sock_accepts :: "nat list"
  relay_offer :: send_result

text \<open>One listener in one pass of \<open>process_dns_tcp\<close>.\<close>

definition process_dns_tcp_conn ::
  "observer \<Rightarrow> dns_routing \<Rightarrow> poll_env \<Rightarrow> dns_tcp_conn \<Rightarrow> 'e dns_gateway \<Rightarrow> egress_policy \<Rightarrow>
   tcp_effects \<times> dns_tcp_conn \<times> 'e dns_gateway \<times> egress_policy" where
  "process_dns_tcp_conn ob rt env c0 g p =
     (if \<not> sock_open env then
        (no_effect,
         if conn_rx c0 \<noteq> [] \<or> conn_tx c0 \<noteq> [] \<or> conn_done c0 \<or> conn_awaiting c0 \<noteq> None then conn_default else c0,
         g, p)
      else if conn_awaiting c0 \<noteq> None then (no_effect, c0, g, p)
      else if conn_done c0 then
        (case drain_dns_tcp_tx (sock_accepts env) c0 of (fx, c) \<Rightarrow> (fx, c, g, p))
      else
        let c = c0\<lparr>conn_rx := conn_rx c0 @ sock_incoming env\<rparr>
        in if DNS_TCP_MAX_MSG + 2 < length (conn_rx c) then (close_effect, c\<lparr>conn_done := True\<rparr>, g, p)
           else if 2 \<le> length (conn_rx c) then
             let msg_len = be_nat [conn_rx c ! 0, conn_rx c ! 1]
             in if msg_len = 0 \<or> DNS_TCP_MAX_MSG < msg_len then (close_effect, c\<lparr>conn_done := True\<rparr>, g, p)
                else if 2 + msg_len \<le> length (conn_rx c) then
                  let query = take msg_len (drop 2 (conn_rx c))
                  in case classify_dns_query ob query p (route_gateway rt) of
                       (Immediate response, p') \<Rightarrow>
                         (case drain_dns_tcp_tx (sock_accepts env) ((frame_dns_tcp_response response c)\<lparr>conn_done := True\<rparr>) of
                            (fx, c') \<Rightarrow> (fx, c', g, p'))
                     | (Forward lrn, p') \<Rightarrow>
                         (case take_id g of (i, g') \<Rightarrow>
                            (case relay_offer env of
                               Sent \<Rightarrow> (no_effect\<lparr>tcp_query :=
                                  Some \<lparr>qry_id = i, qry_transport = OverTcp, qry_upstream = route_upstream rt, qry_bytes = query\<rparr>\<rparr>, c\<lparr>conn_awaiting := Some (i, lrn)\<rparr>, g', p')
                             | _ \<Rightarrow> (close_effect, c\<lparr>conn_done := True\<rparr>, g', p')))
                else (no_effect, c, g, p)
           else (no_effect, c, g, p))"

text \<open>The pass over all listeners; the pool of listeners is fixed, so each connection comes with the
  environment of its socket.\<close>

fun process_dns_tcp ::
  "dns_routing \<Rightarrow> (observer \<times> poll_env) list \<Rightarrow> dns_tcp_conn list \<Rightarrow> 'e dns_gateway \<Rightarrow> egress_policy \<Rightarrow>
   tcp_effects list \<times> dns_tcp_conn list \<times> 'e dns_gateway \<times> egress_policy" where
  "process_dns_tcp rt ((ob, env) # envs) (c # conns) g p =
     (case process_dns_tcp_conn ob rt env c g p of (fx, c', g', p') \<Rightarrow>
        (case process_dns_tcp rt envs conns g' p' of (fxs, conns', g'', p'') \<Rightarrow> (fx # fxs, c' # conns', g'', p'')))"
| "process_dns_tcp rt [] conns g p = ([], conns, g, p)"
| "process_dns_tcp rt envs [] g p = ([], [], g, p)"

section \<open>Delivery\<close>

definition find_awaiting :: "u64 \<Rightarrow> dns_tcp_conn list \<Rightarrow> nat option" where
  "find_awaiting i conns =
     find (\<lambda>k. case conn_awaiting (conns ! k) of Some (j, _) \<Rightarrow> j = i | None \<Rightarrow> False) [0..<length conns]"

datatype 'e delivery = ToUdp 'e bytes | ToTcp nat tcp_effects | Dropped

definition deliver_dns_response ::
  "instant \<Rightarrow> (nat \<Rightarrow> nat list) \<Rightarrow> u64 \<times> bytes option \<Rightarrow> 'e dns_gateway \<Rightarrow> dns_tcp_conn list \<Rightarrow> egress_policy \<Rightarrow>
   'e delivery \<times> 'e dns_gateway \<times> dns_tcp_conn list \<times> egress_policy" where
  "deliver_dns_response now accepts response g conns p =
     (case response of (i, answer) \<Rightarrow>
        (case map_of (pending_udp g) i of
           Some pend \<Rightarrow>
             let g' = g\<lparr>pending_udp := hm_remove i (pending_udp g)\<rparr>
             in (case answer of
                   None \<Rightarrow> (Dropped, g', conns, p)
                 | Some a \<Rightarrow>
                     (ToUdp (pend_endpoint pend) a, g', conns, if pend_learn pend then learn_dns_answer now a p else p))
         | None \<Rightarrow>
             (case find_awaiting i conns of
                None \<Rightarrow> (Dropped, g, conns, p)
              | Some k \<Rightarrow>
                  let c = (conns ! k)\<lparr>conn_awaiting := None\<rparr>;
                      lrn = (case conn_awaiting (conns ! k) of Some (_, l) \<Rightarrow> l | None \<Rightarrow> False);
                      p' = (case answer of Some a \<Rightarrow> if lrn then learn_dns_answer now a p else p | None \<Rightarrow> p);
                      c1 = (case answer of Some a \<Rightarrow> frame_dns_tcp_response a c | None \<Rightarrow> c)
                  in (case drain_dns_tcp_tx (accepts k) (c1\<lparr>conn_done := True\<rparr>) of
                        (fx, c2) \<Rightarrow> (ToTcp k fx, g, conns[k := c2], p')))))"

fun deliver_dns_responses ::
  "(instant \<times> (nat \<Rightarrow> nat list) \<times> u64 \<times> bytes option) list \<Rightarrow> 'e dns_gateway \<Rightarrow> dns_tcp_conn list \<Rightarrow>
   egress_policy \<Rightarrow> 'e delivery list \<times> 'e dns_gateway \<times> dns_tcp_conn list \<times> egress_policy" where
  "deliver_dns_responses [] g conns p = ([], g, conns, p)"
| "deliver_dns_responses ((now, accepts, response) # rest) g conns p =
     (case deliver_dns_response now accepts response g conns p of (d, g', conns', p') \<Rightarrow>
        (case deliver_dns_responses rest g' conns' p' of (ds, g'', conns'', p'') \<Rightarrow> (d # ds, g'', conns'', p'')))"

section \<open>Forwarding\<close>

lemma watch_blocks_inner [simp]:
  "watch_blocks ob q p = (b, p') \<Longrightarrow> inner p' = inner p \<and> decision_log p' = decision_log p"
  by (auto simp: watch_blocks_def observe_dns_def split: if_splits option.splits prod.splits)

lemma classify_forward:
  assumes "classify_dns_query ob q p ip = (Forward lrn, p')" "inner p = Some l" "allowed_hosts (list_rules l) = Some hosts"
  shows "lrn \<and> (\<exists>name. question_name q = Some name \<and> hostname_allowed name hosts)"
  using assms
  by (auto simp: classify_dns_query_def dns_filter_active_def policy_hostname_allowed_def rules_hostname_allowed_def
      split: prod.splits if_splits option.splits dest!: watch_blocks_inner)

lemma classify_forward_unblocked:
  assumes "classify_dns_query ob q p ip = (Forward lrn, p')"
  shows "\<not> fst (watch_blocks ob q p)"
  using assms by (auto simp: classify_dns_query_def split: prod.splits if_splits)

section \<open>The table of pending queries\<close>

definition pending_ok :: "'e dns_gateway \<Rightarrow> bool" where
  "pending_ok g \<longleftrightarrow> distinct (map fst (pending_udp g)) \<and> length (pending_udp g) \<le> MAX_PENDING_DNS"

lemma hm_remove_ok: "distinct (map fst m) \<Longrightarrow> distinct (map fst (hm_remove k m))"
  by (induction m) (auto simp: hm_remove_def)

lemma hm_remove_length: "length (hm_remove k m) \<le> length m"
  by (simp add: hm_remove_def)

lemma hm_remove_mem [simp]: "(k', v) \<in> set (hm_remove k m) \<longleftrightarrow> (k', v) \<in> set m \<and> k' \<noteq> k"
  by (auto simp: hm_remove_def)

lemma take_id_fields: "take_id g = (i, g') \<Longrightarrow> i = gw_next_id g \<and> gw_next_id g' = gw_next_id g + 1 \<and> pending_udp g' = pending_udp g"
  by (auto simp: take_id_def)

lemma insert_remove_ok:
  assumes "pending_ok g" "\<not> MAX_PENDING_DNS \<le> length (pending_udp g)"
  shows "distinct (map fst (hm_insert i v (pending_udp g)))" "length (hm_insert i v (pending_udp g)) \<le> MAX_PENDING_DNS"
    "distinct (map fst (hm_remove i (hm_insert i v (pending_udp g))))"
    "length (hm_remove i (hm_insert i v (pending_udp g))) \<le> MAX_PENDING_DNS"
  using assms hm_insert_length [of "pending_udp g" i v] hm_remove_length [of i "hm_insert i v (pending_udp g)"]
  by (auto simp: pending_ok_def hm_insert_distinct hm_remove_ok)

lemma dispatch_pending_ok:
  "dispatch_dns_udp rt ds g p = (fx, g', p') \<Longrightarrow> pending_ok g \<Longrightarrow> pending_ok g'"
proof (induction ds arbitrary: g p fx g' p')
  case (Cons d ds)
  obtain ob q e offered where d: "d = (ob, q, e, offered)" by (cases d)
  obtain dec p1 where cl: "classify_dns_query ob q p (route_gateway rt) = (dec, p1)"
    by (cases "classify_dns_query ob q p (route_gateway rt)")
  show ?case
  proof (cases dec)
    case (Immediate r)
    with Cons.prems Cons.IH [of g p1] show ?thesis by (auto simp: d cl split: prod.splits)
  next
    case (Forward lrn)
    show ?thesis
    proof (cases "MAX_PENDING_DNS \<le> length (pending_udp g)")
      case True
      with Forward Cons.prems Cons.IH [of g p1] show ?thesis by (auto simp: d cl)
    next
      case False
      obtain i g1 where t: "take_id g = (i, g1)" by (cases "take_id g")
      note f = take_id_fields [OF t] insert_remove_ok [OF Cons.prems(2) False, of i]
      show ?thesis
      proof (cases offered)
        case Sent
        with Forward False Cons.prems(1) obtain fx1 where
          "dispatch_dns_udp rt ds (g1\<lparr>pending_udp := hm_insert i \<lparr>pend_endpoint = e, pend_learn = lrn\<rparr> (pending_udp g1)\<rparr>) p1 = (fx1, g', p')"
          by (auto simp: d cl t Let_def split: prod.splits)
        from Cons.IH [OF this] f show ?thesis by (simp add: pending_ok_def)
      next
        case QueueFull
        with Forward False Cons.prems(1) have
          "dispatch_dns_udp rt ds (g1\<lparr>pending_udp := hm_remove i (hm_insert i \<lparr>pend_endpoint = e, pend_learn = lrn\<rparr> (pending_udp g1))\<rparr>) p1 = (fx, g', p')"
          by (simp add: d cl t Let_def)
        from Cons.IH [OF this] f show ?thesis by (simp add: pending_ok_def)
      next
        case Disconnected
        with Forward False Cons.prems(1) f show ?thesis by (auto simp: d cl t Let_def pending_ok_def)
      qed
    qed
  qed
qed simp

lemma process_tcp_pending:
  "process_dns_tcp_conn ob rt env c g p = (fx, c', g', p') \<Longrightarrow> pending_udp g' = pending_udp g"
  by (auto simp: process_dns_tcp_conn_def Let_def take_id_def split: if_splits prod.splits dns_decision.splits send_result.splits)

lemma deliver_pending_ok:
  "deliver_dns_response now acc r g conns p = (d, g', conns', p') \<Longrightarrow> pending_ok g \<Longrightarrow> pending_ok g'"
  by (auto simp: deliver_dns_response_def pending_ok_def Let_def hm_remove_ok intro: order_trans [OF hm_remove_length]
      split: prod.splits option.splits)

section \<open>The response stream of a TCP connection\<close>

lemma drain_loop_writes:
  "drain_loop ns c = (out, c') \<Longrightarrow> conn_tx_sent c \<le> length (conn_tx c) \<Longrightarrow>
   conn_tx c' = conn_tx c \<and> conn_tx_sent c' \<le> length (conn_tx c) \<and>
   take (conn_tx_sent c) (conn_tx c) @ out = take (conn_tx_sent c') (conn_tx c)"
proof (induction ns arbitrary: c out c')
  case (Cons n ns)
  show ?case
  proof (cases "conn_tx_sent c < length (conn_tx c) \<and> 0 < n")
    case True
    define chunk where "chunk = take n (drop (conn_tx_sent c) (conn_tx c))"
    define c1 where "c1 = c\<lparr>conn_tx_sent := conn_tx_sent c + length chunk\<rparr>"
    from True Cons.prems(1) obtain out1 where rec: "drain_loop ns c1 = (out1, c')" and out: "out = chunk @ out1"
      by (auto simp: Let_def chunk_def c1_def split: prod.splits)
    have le: "conn_tx_sent c1 \<le> length (conn_tx c1)" using True by (auto simp: c1_def chunk_def min_def)
    have "take (conn_tx_sent c) (conn_tx c) @ chunk = take (conn_tx_sent c1) (conn_tx c)"
      using True by (simp add: c1_def chunk_def take_add [symmetric] min_def)
    with Cons.IH [OF rec le] show ?thesis by (simp add: out c1_def) (metis append.assoc)
  next
    case False
    with Cons.prems show ?thesis by (auto split: if_splits)
  qed
qed simp

section \<open>Answers and the guests that asked\<close>

text \<open>The gateway with the queries in flight at the relay, each with its origin, and the number of
  identifiers issued.\<close>

datatype 'e origin = UdpFrom 'e | TcpFrom nat

record 'e gw_state =
  st_gateway :: "'e dns_gateway"
  st_conns :: "dns_tcp_conn list"
  st_policy :: egress_policy
  st_flight :: "(u64 \<times> 'e origin \<times> bytes) list"
  st_issued :: nat

definition issued_by :: "'e dns_gateway \<Rightarrow> 'e dns_gateway \<Rightarrow> nat" where
  "issued_by g g' = (if gw_next_id g' = gw_next_id g then 0 else 1)"

inductive gw_step :: "'e gw_state \<Rightarrow> 'e gw_state \<Rightarrow> bool" where
  gw_udp:
    "dispatch_dns_udp rt [(ob, q, e, offered)] (st_gateway s) (st_policy s) = (fx, g', p') \<Longrightarrow>
     gw_step s (s\<lparr>st_gateway := g', st_policy := p',
       st_flight := st_flight s @ map (\<lambda>q. (qry_id q, UdpFrom e, qry_bytes q)) (udp_queued fx),
       st_issued := st_issued s + issued_by (st_gateway s) g'\<rparr>)"
| gw_tcp:
    "k < length (st_conns s) \<Longrightarrow>
     process_dns_tcp_conn ob rt env (st_conns s ! k) (st_gateway s) (st_policy s) = (fx, c', g', p') \<Longrightarrow>
     gw_step s (s\<lparr>st_gateway := g', st_policy := p', st_conns := (st_conns s)[k := c'],
       st_flight := st_flight s @ (case tcp_query fx of None \<Rightarrow> [] | Some q \<Rightarrow> [(qry_id q, TcpFrom k, qry_bytes q)]),
       st_issued := st_issued s + issued_by (st_gateway s) g'\<rparr>)"
| gw_answer:
    "(i, orig, q) \<in> set (st_flight s) \<Longrightarrow>
     deliver_dns_response now acc (i, answer) (st_gateway s) (st_conns s) (st_policy s) = (d, g', conns', p') \<Longrightarrow>
     gw_step s (s\<lparr>st_gateway := g', st_conns := conns', st_policy := p',
       st_flight := filter (\<lambda>(j, _). j \<noteq> i) (st_flight s)\<rparr>)"

definition gw_init :: "nat \<Rightarrow> egress_policy \<Rightarrow> 'e gw_state" where
  "gw_init n p =
     \<lparr>st_gateway = gateway_new, st_conns = replicate n conn_default, st_policy = p, st_flight = [], st_issued = 0\<rparr>"

definition gw_ok :: "'e dns_gateway \<Rightarrow> dns_tcp_conn list \<Rightarrow> (u64 \<times> 'e origin \<times> bytes) list \<Rightarrow> nat \<Rightarrow> bool" where
  "gw_ok g conns flight issued \<longleftrightarrow>
     gw_next_id g = of_nat issued \<and>
     distinct (map fst flight) \<and> (\<forall>i\<in>set (map fst flight). unat i < issued) \<and>
     (\<forall>i pend. (i, pend) \<in> set (pending_udp g) \<longrightarrow> (\<exists>q. (i, UdpFrom (pend_endpoint pend), q) \<in> set flight)) \<and>
     (\<forall>k i l. k < length conns \<longrightarrow> conn_awaiting (conns ! k) = Some (i, l) \<longrightarrow> (\<exists>q. (i, TcpFrom k, q) \<in> set flight))"

abbreviation gw_inv :: "'e gw_state \<Rightarrow> bool" where
  "gw_inv s \<equiv> gw_ok (st_gateway s) (st_conns s) (st_flight s) (st_issued s)"

lemma gw_okD:
  assumes "gw_ok g conns flight issued"
  shows "gw_next_id g = of_nat issued" "distinct (map fst flight)" "i \<in> set (map fst flight) \<Longrightarrow> unat i < issued"
    "(i, pend) \<in> set (pending_udp g) \<Longrightarrow> \<exists>q. (i, UdpFrom (pend_endpoint pend), q) \<in> set flight"
    "k < length conns \<Longrightarrow> conn_awaiting (conns ! k) = Some (i, l) \<Longrightarrow> \<exists>q. (i, TcpFrom k, q) \<in> set flight"
  using assms unfolding gw_ok_def by blast+

lemma fresh_id:
  assumes "gw_ok g conns flight issued" "issued + 1 < 2 ^ 64"
  shows "unat (gw_next_id g) = issued" "gw_next_id g \<notin> set (map fst flight)" "gw_next_id g + 1 = of_nat (issued + 1)"
proof -
  note next_id = gw_okD(1) [OF assms(1)]
  show u: "unat (gw_next_id g) = issued" using assms(2) next_id by (simp add: unat_of_nat)
  show "gw_next_id g \<notin> set (map fst flight)" using gw_okD(3) [OF assms(1)] u by (metis less_irrefl)
  show "gw_next_id g + 1 = of_nat (issued + 1)" using next_id by simp
qed

text \<open>What one datagram does: nothing to the table, or one fresh entry with its query in flight.\<close>

lemma dispatch_one:
  assumes "dispatch_dns_udp rt [(ob, q, e, offered)] g p = (fx, g', p')"
  shows "(g' = g \<and> udp_queued fx = []) \<or>
    (gw_next_id g' = gw_next_id g + 1 \<and> (\<exists>r. udp_queued fx = [r] \<and> qry_id r = gw_next_id g) \<and>
     (\<exists>l. pending_udp g' = hm_insert (gw_next_id g) \<lparr>pend_endpoint = e, pend_learn = l\<rparr> (pending_udp g))) \<or>
    (gw_next_id g' = gw_next_id g + 1 \<and> udp_queued fx = [] \<and>
     (\<exists>v. pending_udp g' = hm_remove (gw_next_id g) (hm_insert (gw_next_id g) v (pending_udp g))))"
  using assms
  by (auto simp: take_id_def Let_def split: prod.splits dns_decision.splits if_splits send_result.splits)

lemma gw_ok_extend:
  assumes inv: "gw_ok g conns flight issued" and small: "issued + 1 < 2 ^ 64" and g': "gw_next_id g' = gw_next_id g + 1"
    and f: "f = [] \<or> (\<exists>orig q. f = [(gw_next_id g, orig, q)])"
    and pend: "\<And>i pend. (i, pend) \<in> set (pending_udp g') \<Longrightarrow>
      (i, pend) \<in> set (pending_udp g) \<or> (\<exists>q. (i, UdpFrom (pend_endpoint pend), q) \<in> set f)"
    and conns: "length conns' = length conns"
      "\<And>k i l. k < length conns' \<Longrightarrow> conn_awaiting (conns' ! k) = Some (i, l) \<Longrightarrow>
        conn_awaiting (conns ! k) = Some (i, l) \<or> (\<exists>q. (i, TcpFrom k, q) \<in> set f)"
  shows "gw_ok g' conns' (flight @ f) (issued + 1)"
proof -
  note fresh = fresh_id [OF inv small] and old = gw_okD [OF inv]
  have "(gw_next_id g, x) \<notin> set flight" for x using fresh(2) by force
  then have ids: "distinct (map fst (flight @ f))" "\<forall>i\<in>set (map fst (flight @ f)). unat i < issued + 1"
    using old(2,3) f fresh(1) by (auto simp: less_Suc_eq)
  have "\<exists>q. (i, UdpFrom (pend_endpoint pend), q) \<in> set (flight @ f)" if "(i, pend) \<in> set (pending_udp g')" for i pend
    using pend [OF that] old(4) by auto
  moreover have "\<exists>q. (i, TcpFrom k, q) \<in> set (flight @ f)"
    if "k < length conns'" "conn_awaiting (conns' ! k) = Some (i, l)" for i k l
    using conns(2) [OF that] old(5) [of k i l] that(1) conns(1) by auto
  ultimately show ?thesis using ids g' fresh(3) unfolding gw_ok_def by simp
qed

lemma drain_loop_awaiting: "conn_awaiting (snd (drain_loop ns c)) = conn_awaiting c"
  by (induction ns c rule: drain_loop.induct) (auto simp: Let_def split: prod.splits)

lemma drain_awaiting: "drain_dns_tcp_tx acc c = (fx, c') \<Longrightarrow> conn_awaiting c' = conn_awaiting c \<and> tcp_query fx = None"
  using drain_loop_awaiting [of acc c] by (auto simp: drain_dns_tcp_tx_def split: prod.splits)

lemma frame_awaiting [simp]: "conn_awaiting (frame_dns_tcp_response r c) = conn_awaiting c"
  by (simp add: frame_dns_tcp_response_def)

lemma process_tcp_one:
  assumes "process_dns_tcp_conn ob rt env c g p = (fx, c', g', p')"
  shows "(g' = g \<and> tcp_query fx = None \<and> (conn_awaiting c' = None \<or> conn_awaiting c' = conn_awaiting c)) \<or>
    (gw_next_id g' = gw_next_id g + 1 \<and> pending_udp g' = pending_udp g \<and>
     ((\<exists>q l. tcp_query fx = Some q \<and> qry_id q = gw_next_id g \<and> conn_awaiting c' = Some (gw_next_id g, l)) \<or>
      tcp_query fx = None \<and> conn_awaiting c' = None))"
  using assms
  by (auto simp: process_dns_tcp_conn_def Let_def take_id_def no_effect_def close_effect_def conn_default_def
      dest!: drain_awaiting split: if_splits prod.splits dns_decision.splits send_result.splits)

lemma flight_unique:
  assumes "distinct (map fst flight)" "(i, x) \<in> set flight" "(i, y) \<in> set flight"
  shows "x = y"
  using assms by (metis map_of_is_SomeI option.inject)

lemma find_awaiting_Some:
  assumes "find_awaiting i conns = Some k"
  shows "k < length conns \<and> (\<exists>l. conn_awaiting (conns ! k) = Some (i, l))"
  using assms by (auto simp: find_awaiting_def find_Some_iff split: option.splits prod.splits)

lemma find_awaiting_None:
  assumes "find_awaiting i conns = None" "k < length conns"
  shows "conn_awaiting (conns ! k) \<noteq> Some (i, l)"
  using assms by (auto simp: find_awaiting_def find_None_iff)

text \<open>Delivery: which of the three destinations an answer takes.\<close>

lemma deliver_cases:
  assumes "deliver_dns_response now acc (i, answer) g conns p = (d, g', conns', p')"
  obtains
    (udp) pend where "map_of (pending_udp g) i = Some pend" "pending_udp g' = hm_remove i (pending_udp g)"
      "gw_next_id g' = gw_next_id g" "conns' = conns" "d = Dropped \<or> (\<exists>a. d = ToUdp (pend_endpoint pend) a)"
  | (tcp) k c fx l where "map_of (pending_udp g) i = None" "g' = g" "k < length conns"
      "conn_awaiting (conns ! k) = Some (i, l)" "conns' = conns[k := c]" "conn_awaiting c = None" "d = ToTcp k fx"
  | (none) "map_of (pending_udp g) i = None" "g' = g" "conns' = conns" "find_awaiting i conns = None" "d = Dropped"
proof (cases "map_of (pending_udp g) i")
  case (Some pend)
  with assms show thesis
    by (intro udp [of pend]) (auto simp: deliver_dns_response_def Let_def split: option.splits)
next
  case None
  note pend = this
  show thesis
  proof (cases "find_awaiting i conns")
    case None
    with assms pend show thesis by (intro none) (auto simp: deliver_dns_response_def)
  next
    case (Some k)
    then obtain l where l: "k < length conns" "conn_awaiting (conns ! k) = Some (i, l)" using find_awaiting_Some by blast
    from assms pend Some show thesis
      by (auto simp: deliver_dns_response_def Let_def split: prod.splits option.splits
          dest!: drain_awaiting intro!: tcp [OF pend _ l])
  qed
qed

lemma gw_ok_deliver:
  assumes inv: "gw_ok g conns flight issued"
    and del: "deliver_dns_response now acc (i, answer) g conns p = (d, g', conns', p')"
  shows "gw_ok g' conns' (filter (\<lambda>(j, _). j \<noteq> i) flight) issued"
proof -
  note old = gw_okD [OF inv]
  let ?flight = "filter (\<lambda>(j, _). j \<noteq> i) flight"
  have ids: "distinct (map fst ?flight)" "\<forall>j\<in>set (map fst ?flight). unat j < issued"
    using old(2,3) by (auto simp: distinct_map inj_on_def)
  have keep: "(j, x) \<in> set ?flight \<longleftrightarrow> (j, x) \<in> set flight \<and> j \<noteq> i" for j x by auto
  have unique: "x = y" if "(i, x) \<in> set flight" "(i, y) \<in> set flight" for x y
    using flight_unique [OF old(2) that] .
  from del show ?thesis
  proof (cases rule: deliver_cases)
    case (udp pend)
    then have mem: "(i, pend) \<in> set (pending_udp g)" by (simp add: map_of_SomeD)
    have "j \<noteq> i" if "k < length conns" "conn_awaiting (conns ! k) = Some (j, l)" for j k l
      using old(4) [OF mem] old(5) [OF that] unique by blast
    then have "\<exists>q. (j, TcpFrom k, q) \<in> set ?flight" if "k < length conns" "conn_awaiting (conns ! k) = Some (j, l)" for j k l
      using that old(5) [OF that] unfolding keep by blast
    moreover have "\<exists>q. (j, UdpFrom (pend_endpoint v), q) \<in> set ?flight" if "(j, v) \<in> set (pending_udp g')" for j v
    proof -
      from that udp(2) have "(j, v) \<in> set (pending_udp g)" "j \<noteq> i" by simp_all
      with old(4) show ?thesis unfolding keep by blast
    qed
    ultimately show ?thesis using udp(3,4) ids old(1) unfolding gw_ok_def by metis
  next
    case (tcp k c fx l)
    have other: "j \<noteq> i \<or> k' = k" if "k' < length conns" "conn_awaiting (conns ! k') = Some (j, l')" for j k' l'
      using old(5) [OF tcp(3,4)] old(5) [OF that] unique by blast
    have pend: "j \<noteq> i" if "(j, v) \<in> set (pending_udp g)" for j v
      using tcp(1) that by (force simp: map_of_eq_None_iff)
    have "\<exists>q. (j, TcpFrom k', q) \<in> set ?flight" if "k' < length conns'" "conn_awaiting (conns' ! k') = Some (j, l')" for j k' l'
    proof -
      from that tcp have "k' \<noteq> k" by (auto simp: nth_list_update)
      with that tcp have "k' < length conns" "conn_awaiting (conns ! k') = Some (j, l')" by simp_all
      with other [of k' j l'] old(5) [of k' j l'] \<open>k' \<noteq> k\<close> show ?thesis unfolding keep by blast
    qed
    moreover have "\<exists>q. (j, UdpFrom (pend_endpoint v), q) \<in> set ?flight" if "(j, v) \<in> set (pending_udp g)" for j v
      using old(4) [OF that] pend [OF that] unfolding keep by blast
    ultimately show ?thesis using tcp(2) ids old(1) unfolding gw_ok_def by blast
  next
    case none
    have "j \<noteq> i" if "(j, v) \<in> set (pending_udp g)" for j v
      using none(1) that by (force simp: map_of_eq_None_iff)
    then have "\<exists>q. (j, UdpFrom (pend_endpoint v), q) \<in> set ?flight" if "(j, v) \<in> set (pending_udp g)" for j v
      using that old(4) [OF that] unfolding keep by blast
    moreover have "\<exists>q. (j, TcpFrom k, q) \<in> set ?flight" if "k < length conns" "conn_awaiting (conns ! k) = Some (j, l)" for j k l
      using find_awaiting_None [OF none(4) that(1)] that old(5) [OF that] unfolding keep by blast
    ultimately show ?thesis using none(2,3) ids old(1) unfolding gw_ok_def by metis
  qed
qed

lemma issued_by_simps: "gw_next_id g' = gw_next_id g + 1 \<Longrightarrow> issued_by g g' = 1" "issued_by g g = 0"
  by (simp_all add: issued_by_def)

lemma gw_step_ok:
  assumes "gw_step s s'" "gw_inv s" "st_issued s' < 2 ^ 64"
  shows "gw_inv s'"
  using assms
proof (induction rule: gw_step.induct)
  case (gw_udp rt ob q e offered s fx g' p')
  note inv = gw_udp.prems(1) and one = dispatch_one [OF gw_udp.hyps]
  show ?case
  proof (cases "g' = st_gateway s \<and> udp_queued fx = []")
    case True
    with inv show ?thesis by (simp add: issued_by_simps)
  next
    case False
    with one have g': "gw_next_id g' = gw_next_id (st_gateway s) + 1" by auto
    let ?f = "map (\<lambda>q. (qry_id q, UdpFrom e, qry_bytes q)) (udp_queued fx)"
    have "gw_ok g' (st_conns s) (st_flight s @ ?f) (st_issued s + 1)"
    proof (rule gw_ok_extend [OF inv _ g'])
      show "st_issued s + 1 < 2 ^ 64" using gw_udp.prems(2) g' by (simp add: issued_by_simps)
      show "?f = [] \<or> (\<exists>orig q. ?f = [(gw_next_id (st_gateway s), orig, q)])" using one by auto
      show "(i, pend) \<in> set (pending_udp (st_gateway s)) \<or> (\<exists>q. (i, UdpFrom (pend_endpoint pend), q) \<in> set ?f)"
        if "(i, pend) \<in> set (pending_udp g')" for i pend
        using one that False by (auto dest!: hm_insert_mem)
    qed simp_all
    then show ?thesis by (simp add: g' issued_by_simps)
  qed
next
  case (gw_tcp k s ob rt env fx c' g' p')
  note inv = gw_tcp.prems(1) and one = process_tcp_one [OF gw_tcp.hyps(2)]
  let ?f = "case tcp_query fx of None \<Rightarrow> [] | Some q \<Rightarrow> [(qry_id q, TcpFrom k, qry_bytes q)]"
  show ?case
  proof (cases "g' = st_gateway s \<and> tcp_query fx = None")
    case True
    then have "conn_awaiting c' = None \<or> conn_awaiting c' = conn_awaiting (st_conns s ! k)" using one by auto
    then have "conn_awaiting ((st_conns s)[k := c'] ! j) = Some (i, l) \<Longrightarrow> conn_awaiting (st_conns s ! j) = Some (i, l)"
      if "j < length (st_conns s)" for j i l using that by (cases "j = k") auto
    with True inv show ?thesis unfolding gw_ok_def by (simp add: issued_by_simps)
  next
    case False
    with one have g': "gw_next_id g' = gw_next_id (st_gateway s) + 1" "pending_udp g' = pending_udp (st_gateway s)" by auto
    have "gw_ok g' ((st_conns s)[k := c']) (st_flight s @ ?f) (st_issued s + 1)"
    proof (rule gw_ok_extend [OF inv _ g'(1)])
      show "st_issued s + 1 < 2 ^ 64" using gw_tcp.prems(2) g' by (simp add: issued_by_simps)
      show "?f = [] \<or> (\<exists>orig q. ?f = [(gw_next_id (st_gateway s), orig, q)])" using one by (auto split: option.splits)
      show "conn_awaiting (st_conns s ! j) = Some (i, l) \<or> (\<exists>q. (i, TcpFrom j, q) \<in> set ?f)"
        if "j < length ((st_conns s)[k := c'])" "conn_awaiting ((st_conns s)[k := c'] ! j) = Some (i, l)" for j i l
        using one that False by (cases "j = k") auto
    qed (use g' in simp_all)
    then show ?thesis by (simp add: g' issued_by_simps)
  qed
next
  case (gw_answer i orig q s now acc answer d g' conns' p')
  from gw_ok_deliver [OF gw_answer.prems(1) gw_answer.hyps(2)] show ?case by simp
qed

lemma gw_step_issued: "gw_step s s' \<Longrightarrow> st_issued s \<le> st_issued s'"
  by (induction rule: gw_step.induct) simp_all

lemma gw_reachable_ok:
  assumes "gw_step\<^sup>*\<^sup>* (gw_init n p) s" "st_issued s < 2 ^ 64"
  shows "gw_inv s"
  using assms
proof (induction rule: rtranclp_induct)
  case base
  show ?case by (simp add: gw_ok_def gw_init_def gateway_new_def conn_default_def)
next
  case (step s s')
  from gw_step_issued [OF step.hyps(2)] step.prems have "st_issued s < 2 ^ 64" by simp
  from gw_step_ok [OF step.hyps(2) step.IH [OF this] step.prems] show ?case .
qed

lemma answer_to_asker:
  assumes inv: "gw_inv s" and flight: "(i, orig, q) \<in> set (st_flight s)"
    and del: "deliver_dns_response now acc (i, answer) (st_gateway s) (st_conns s) (st_policy s) = (d, g', conns', p')"
  shows "case d of ToUdp e a \<Rightarrow> orig = UdpFrom e \<and> answer = Some a | ToTcp k fx \<Rightarrow> orig = TcpFrom k | Dropped \<Rightarrow> True"
proof -
  note old = gw_okD [OF inv]
  have unique: "x = (orig, q)" if "(i, x) \<in> set (st_flight s)" for x
    using flight_unique [OF old(2) that flight] .
  from del show ?thesis
  proof (cases rule: deliver_cases)
    case (udp pend)
    then have "(i, pend) \<in> set (pending_udp (st_gateway s))" by (simp add: map_of_SomeD)
    then have "orig = UdpFrom (pend_endpoint pend)" using old(4) unique by blast
    moreover have "answer = Some a" if "d = ToUdp (pend_endpoint pend) a" for a
      using del udp(1) that by (auto simp: deliver_dns_response_def Let_def split: option.splits)
    ultimately show ?thesis using udp(5) by auto
  next
    case (tcp k c fx l)
    then have "orig = TcpFrom k" using old(5) [OF tcp(3,4)] unique by blast
    then show ?thesis using tcp(7) by simp
  next
    case none
    then show ?thesis by simp
  qed
qed

section \<open>What leaves through the relay\<close>

definition name_listed :: "string list \<Rightarrow> bytes \<Rightarrow> bool" where
  "name_listed hosts q \<longleftrightarrow> (\<exists>name. question_name q = Some name \<and> hostname_allowed name hosts)"

definition filters :: "string list \<Rightarrow> egress_policy \<Rightarrow> bool" where
  "filters hosts p \<longleftrightarrow> (\<exists>l. inner p = Some l \<and> allowed_hosts (list_rules l) = Some hosts)"

lemma classify_filters: "classify_dns_query ob q p ip = (d, p') \<Longrightarrow> filters hosts p \<Longrightarrow> filters hosts p'"
  by (auto simp: classify_dns_query_def filters_def split: prod.splits dest!: watch_blocks_inner)

lemma classify_forward_listed:
  "classify_dns_query ob q p ip = (Forward lrn, p') \<Longrightarrow> filters hosts p \<Longrightarrow> name_listed hosts q"
  using classify_forward by (auto simp: filters_def name_listed_def)

lemma classify_listed:
  "classify_dns_query ob q p ip = (d, p') \<Longrightarrow> filters hosts p \<Longrightarrow>
   filters hosts p' \<and> (\<forall>lrn. d = Forward lrn \<longrightarrow> name_listed hosts q)"
  using classify_filters classify_forward_listed by blast

lemma dispatch_listed:
  "dispatch_dns_udp rt ds g p = (fx, g', p') \<Longrightarrow> filters hosts p \<Longrightarrow>
   list_all (\<lambda>q. name_listed hosts (qry_bytes q)) (udp_queued fx)"
proof (induction ds arbitrary: g p fx g' p')
  case (Cons d ds)
  obtain ob q e offered where d: "d = (ob, q, e, offered)" by (cases d)
  obtain dec p1 where cl: "classify_dns_query ob q p (route_gateway rt) = (dec, p1)"
    by (cases "classify_dns_query ob q p (route_gateway rt)")
  note keep = classify_filters [OF cl Cons.prems(2)]
  have IH: "list_all (\<lambda>q. name_listed hosts (qry_bytes q)) (udp_queued fx1)"
    if "dispatch_dns_udp rt ds g1 p1 = (fx1, g2, p2)" for fx1 g1 g2 p2 using Cons.IH [OF that keep] .
  show ?case
  proof (cases dec)
    case (Immediate r)
    with Cons.prems(1) show ?thesis by (auto simp: d cl split: prod.splits dest!: IH)
  next
    case (Forward lrn)
    from classify_forward_listed [OF cl [unfolded Forward] Cons.prems(2)] Cons.prems(1) Forward show ?thesis
      by (auto simp: d cl take_id_def Let_def split: prod.splits if_splits send_result.splits dest!: IH)
  qed
qed simp

lemma process_conn_query:
  assumes "process_dns_tcp_conn ob rt env c g p = (fx, c', g', p')"
  shows "(p' = p \<and> tcp_query fx = None) \<or>
    (\<exists>query d. classify_dns_query ob query p (route_gateway rt) = (d, p') \<and>
      (tcp_query fx = None \<or> (\<exists>q lrn. tcp_query fx = Some q \<and> qry_bytes q = query \<and> d = Forward lrn)))"
  using assms
  by (auto simp: process_dns_tcp_conn_def Let_def take_id_def no_effect_def close_effect_def
      dest!: drain_awaiting split: if_splits prod.splits dns_decision.splits send_result.splits)

lemma process_conn_listed:
  assumes "process_dns_tcp_conn ob rt env c g p = (fx, c', g', p')" "filters hosts p"
  shows "filters hosts p'" "tcp_query fx = Some q \<Longrightarrow> name_listed hosts (qry_bytes q)"
  using process_conn_query [OF assms(1)] assms(2) classify_listed [where hosts = hosts] by fastforce+

lemma process_listed:
  "process_dns_tcp rt envs conns g p = (fxs, conns', g', p') \<Longrightarrow> filters hosts p \<Longrightarrow>
   list_all (\<lambda>fx. case tcp_query fx of Some q \<Rightarrow> name_listed hosts (qry_bytes q) | None \<Rightarrow> True) fxs"
proof (induction envs conns arbitrary: g p fxs conns' g' p' rule: list_induct2')
  case (4 oe envs c conns)
  obtain ob env where oe: "oe = (ob, env)" by (cases oe)
  obtain fx c1 g1 p1 where one: "process_dns_tcp_conn ob rt env c g p = (fx, c1, g1, p1)"
    by (cases "process_dns_tcp_conn ob rt env c g p")
  obtain fxs2 conns2 g2 p2 where rest: "process_dns_tcp rt envs conns g1 p1 = (fxs2, conns2, g2, p2)"
    by (cases "process_dns_tcp rt envs conns g1 p1")
  from 4(1) [OF rest process_conn_listed(1) [OF one 4(3)]] process_conn_listed(2) [OF one 4(3)] 4(2)
  show ?case by (auto simp: oe one rest split: option.splits)
qed auto

section \<open>The pending table along a run\<close>

lemma gw_step_pending: "gw_step s s' \<Longrightarrow> pending_ok (st_gateway s) \<Longrightarrow> pending_ok (st_gateway s')"
proof (induction rule: gw_step.induct)
  case gw_udp
  then show ?case by (simp del: dispatch_dns_udp.simps add: dispatch_pending_ok)
next
  case gw_tcp
  then show ?case by (simp add: pending_ok_def process_tcp_pending)
next
  case gw_answer
  then show ?case by (simp add: deliver_pending_ok)
qed

definition gw_initial :: "'e gw_state \<Rightarrow> bool" where
  "gw_initial s \<longleftrightarrow> (\<exists>n p. s = gw_init n p)"

interpretation gw_runs: invariant_system gw_step gw_initial "\<lambda>s. pending_ok (st_gateway s)"
proof
  show "pending_ok (st_gateway s)" if "gw_initial s" for s :: "'e gw_state"
    using that by (auto simp: gw_initial_def gw_init_def gateway_new_def pending_ok_def)
qed (rule gw_step_pending)

lemma gw_reachable_pending: "gw_step\<^sup>*\<^sup>* (gw_init n p) s \<Longrightarrow> pending_ok (st_gateway s)"
  by (rule gw_runs.reachable_inv) (auto simp: gw_initial_def)

section \<open>A TCP answer as the guest reads it\<close>

text \<open>Repeated passes over a connection that has its answer: what is written until the first close.\<close>

fun drain_passes :: "nat list list \<Rightarrow> dns_tcp_conn \<Rightarrow> bytes \<times> bool" where
  "drain_passes [] c = ([], False)"
| "drain_passes (acc # accs) c =
     (case drain_dns_tcp_tx acc c of (fx, c') \<Rightarrow>
        if tcp_closed fx then (tcp_written fx, True)
        else (case drain_passes accs c' of (out, closed) \<Rightarrow> (tcp_written fx @ out, closed)))"

lemma drain_writes:
  assumes "drain_dns_tcp_tx acc c = (fx, c')" "conn_tx_sent c \<le> length (conn_tx c)"
  shows "conn_tx c' = conn_tx c" "conn_tx_sent c' \<le> length (conn_tx c)"
    "take (conn_tx_sent c) (conn_tx c) @ tcp_written fx = take (conn_tx_sent c') (conn_tx c)"
    "tcp_closed fx \<longleftrightarrow> conn_tx_sent c' = length (conn_tx c)"
proof -
  obtain out where o: "drain_loop acc c = (out, c')" "tcp_written fx = out" "tcp_closed fx = (length (conn_tx c') \<le> conn_tx_sent c')"
    using assms(1) by (auto simp: drain_dns_tcp_tx_def split: prod.splits)
  from drain_loop_writes [OF o(1) assms(2)] o
  show "conn_tx c' = conn_tx c" "conn_tx_sent c' \<le> length (conn_tx c)"
    "take (conn_tx_sent c) (conn_tx c) @ tcp_written fx = take (conn_tx_sent c') (conn_tx c)"
    "tcp_closed fx \<longleftrightarrow> conn_tx_sent c' = length (conn_tx c)" by auto
qed

lemma drain_passes_writes:
  "drain_passes accs c = (out, closed) \<Longrightarrow> conn_tx_sent c \<le> length (conn_tx c) \<Longrightarrow>
   \<exists>rest. take (conn_tx_sent c) (conn_tx c) @ out @ rest = conn_tx c \<and> (closed \<longrightarrow> rest = [])"
proof (induction accs arbitrary: c out closed)
  case Nil
  then show ?case by (metis append_Nil append_take_drop_id drain_passes.simps(1) prod.inject)
next
  case (Cons acc accs)
  obtain fx c' where d: "drain_dns_tcp_tx acc c = (fx, c')" by (cases "drain_dns_tcp_tx acc c")
  note w = drain_writes [OF d Cons.prems(2)]
  show ?case
  proof (cases "tcp_closed fx")
    case True
    with w Cons.prems(1) show ?thesis by (auto simp: d)
  next
    case False
    obtain out1 closed1 where r: "drain_passes accs c' = (out1, closed1)" by (cases "drain_passes accs c'")
    have le: "conn_tx_sent c' \<le> length (conn_tx c')" using w(1,2) by simp
    from Cons.IH [OF r le] obtain rest where
      "take (conn_tx_sent c') (conn_tx c) @ out1 @ rest = conn_tx c" "closed1 \<longrightarrow> rest = []" using w(1) by auto
    then have "(take (conn_tx_sent c) (conn_tx c) @ tcp_written fx) @ out1 @ rest = conn_tx c" "closed1 \<longrightarrow> rest = []"
      by (simp_all only: w(3))
    then have "take (conn_tx_sent c) (conn_tx c) @ (tcp_written fx @ out1) @ rest = conn_tx c" "closed1 \<longrightarrow> rest = []"
      by (simp_all only: append.assoc)
    moreover have "out = tcp_written fx @ out1" "closed = closed1" using False Cons.prems(1) r by (simp_all add: d)
    ultimately show ?thesis by blast
  qed
qed

section \<open>Properties\<close>

text \<open>C36: With a host list in force, no DNS query leaves through the relay, over UDP or TCP, unless its
  question is for a name the list allows: every query queued by a pass over the UDP socket and every
  query queued by a pass over the TCP listeners has an allowed name.\<close>

theorem relayed_names_allowed:
  assumes "inner p = Some l" "allowed_hosts (list_rules l) = Some hosts"
  shows "list_all (\<lambda>q. name_listed hosts (qry_bytes q)) (udp_queued (fst (dispatch_dns_udp rt datagrams g p))) \<and>
    list_all (\<lambda>fx. case tcp_query fx of Some q \<Rightarrow> name_listed hosts (qry_bytes q) | None \<Rightarrow> True)
      (fst (process_dns_tcp rt envs conns g p))"
proof -
  have f: "filters hosts p" using assms by (auto simp: filters_def)
  obtain fx g' p' where u: "dispatch_dns_udp rt datagrams g p = (fx, g', p')" by (cases "dispatch_dns_udp rt datagrams g p")
  obtain fxs conns' g'' p'' where t: "process_dns_tcp rt envs conns g p = (fxs, conns', g'', p'')"
    by (cases "process_dns_tcp rt envs conns g p")
  from dispatch_listed [OF u f] process_listed [OF t f] show ?thesis by (simp add: u t)
qed

definition sample_query :: bytes where
  "sample_query = [0x12, 0x34, 1, 0, 0, 1, 0, 0, 0, 0, 0, 0, 1, 0x61, 1, 0x62, 0, 0, 1, 0, 1]"

definition sample_observer :: observer where
  "sample_observer =
     \<lparr>obs_digest = (\<lambda>_. []), obs_file = \<lparr>file_modified = None, file_text = None\<rparr>, obs_now = 0, obs_audit_ok = True\<rparr>"

definition sample_routing :: dns_routing where
  "sample_routing = \<lparr>route_upstream = 0x01010101, route_gateway = 0x64400001\<rparr>"

definition sample_policy :: egress_policy where
  "sample_policy = policy_new (\<lambda>_. None) None (Some [''b''])"

definition sample_socket :: poll_env where
  "sample_socket = \<lparr>sock_open = True, sock_incoming = [0, 21] @ sample_query, sock_accepts = [], relay_offer = Sent\<rparr>"

theorem relayed_names_allowed_witness:
  "map qry_bytes (udp_queued (fst (dispatch_dns_udp sample_routing [(sample_observer, sample_query, 7 :: nat, Sent)]
     gateway_new sample_policy))) = [sample_query] \<and>
   map tcp_query (fst (process_dns_tcp sample_routing [(sample_observer, sample_socket)] [conn_default]
     (gateway_new :: nat dns_gateway) sample_policy)) \<noteq> [None] \<and>
   name_listed [''b''] sample_query"
proof -
  have n: "filter_map normalize_hostname [''b''] = [''b'']" by code_simp
  obtain l where l: "inner sample_policy = Some l" "allowed_hosts (list_rules l) = Some [''b'']"
    by (simp add: sample_policy_def policy_new_def rules_build_def n del: filter_map.simps)
  have q: "map qry_bytes (udp_queued (fst (dispatch_dns_udp sample_routing [(sample_observer, sample_query, 7 :: nat, Sent)]
     gateway_new sample_policy))) = [sample_query]" by code_simp
  have t: "map tcp_query (fst (process_dns_tcp sample_routing [(sample_observer, sample_socket)] [conn_default]
     (gateway_new :: nat dns_gateway) sample_policy)) \<noteq> [None]" by code_simp
  from relayed_names_allowed [OF l, of sample_routing "[(sample_observer, sample_query, 7 :: nat, Sent)]" gateway_new]
  have "list_all (\<lambda>q. name_listed [''b''] (qry_bytes q)) (udp_queued (fst (dispatch_dns_udp sample_routing
    [(sample_observer, sample_query, 7 :: nat, Sent)] gateway_new sample_policy)))" by blast
  then have "list_all (name_listed [''b'']) (map qry_bytes (udp_queued (fst (dispatch_dns_udp sample_routing
    [(sample_observer, sample_query, 7 :: nat, Sent)] gateway_new sample_policy))))" by (simp add: list_all_iff)
  with q t show ?thesis by simp
qed


definition sample_gateway :: "nat dns_gateway" where
  "sample_gateway = \<lparr>gw_next_id = 1, pending_udp = [(0, \<lparr>pend_endpoint = 7, pend_learn = True\<rparr>)]\<rparr>"

lemma sample_dispatch:
  "dispatch_dns_udp sample_routing [(sample_observer, sample_query, 7, Sent)] gateway_new sample_policy =
     (\<lparr>udp_replies = [], udp_queued = [\<lparr>qry_id = 0, qry_transport = OverUdp, qry_upstream = 0x01010101, qry_bytes = sample_query\<rparr>]\<rparr>,
      sample_gateway, sample_policy)"
proof -
  have "fst (classify_dns_query sample_observer sample_query sample_policy (route_gateway sample_routing)) = Forward True"
    by code_simp
  moreover have "snd (classify_dns_query sample_observer sample_query sample_policy (route_gateway sample_routing)) = sample_policy"
    by (simp add: classify_dns_query_def watch_blocks_def watching_def sample_policy_def policy_new_def unrestricted_def)
  ultimately have "classify_dns_query sample_observer sample_query sample_policy (route_gateway sample_routing) = (Forward True, sample_policy)"
    by (metis prod.collapse)
  then show ?thesis
    by (simp add: take_id_def gateway_new_def sample_gateway_def sample_routing_def MAX_PENDING_DNS_def)
qed


text \<open>Whatever the socket accepts in each pass, the bytes a guest reads on a DNS-over-TCP connection
  are a prefix of the framed answer, and the connection is closed only after all of it was written: a
  guest that reads up to the close has the two-byte length and exactly the answer.\<close>

theorem tcp_answer_complete:
  assumes "conn_tx c = []" "conn_tx_sent c = 0" "length response < 65536"
    "drain_passes accs (frame_dns_tcp_response response c) = (out, closed)"
  shows "\<exists>rest. out @ rest = nat_be 2 (length response) @ response \<and> (closed \<longrightarrow> rest = [])"
  using drain_passes_writes [OF assms(4)] assms(1-3) by (simp add: frame_dns_tcp_response_def)

theorem tcp_answer_complete_witness:
  "drain_passes [[2, 1], [], [9]] (frame_dns_tcp_response [5, 6, 7] conn_default) = ([0, 3, 5, 6, 7], True) \<and>
   [0, 3, 5, 6, 7] = nat_be 2 (length [5, 6, 7 :: u8]) @ [5, 6, 7 :: u8]"
proof -
  have d: "drain_passes [[2, 1], [], [9]] (frame_dns_tcp_response [5, 6, 7] conn_default) = ([0, 3, 5, 6, 7], True)"
    by code_simp
  have "conn_tx conn_default = []" "conn_tx_sent conn_default = 0" "length [5, 6, 7 :: u8] < 65536"
    by (simp_all add: conn_default_def)
  from tcp_answer_complete [OF this d] d show ?thesis by simp
qed

end
