(* ===== verification/Machine_Ints.thy ===== *)
theory Machine_Ints
  imports Main
begin

text \<open>
  The unsigned integers of the controllers: \<open>u32\<close> and \<open>u64\<close> values as natural numbers, with the
  saturating operations of the standard library written out. \<open>saturating_sub\<close> is the subtraction of
  natural numbers.
\<close>

definition U32_MAX :: nat where "U32_MAX = 4294967295"
definition U64_MAX :: nat where "U64_MAX = 18446744073709551615"

definition u32_add :: "nat \<Rightarrow> nat \<Rightarrow> nat" where "u32_add a b = min (a + b) U32_MAX"
definition u64_add :: "nat \<Rightarrow> nat \<Rightarrow> nat" where "u64_add a b = min (a + b) U64_MAX"
definition u32_mul :: "nat \<Rightarrow> nat \<Rightarrow> nat" where "u32_mul a b = min (a * b) U32_MAX"
definition u64_mul :: "nat \<Rightarrow> nat \<Rightarrow> nat" where "u64_mul a b = min (a * b) U64_MAX"

definition div_ceil :: "nat \<Rightarrow> nat \<Rightarrow> nat" where
  "div_ceil a b = a div b + (if a mod b = 0 then 0 else 1)"

named_theorems saturating

lemmas [saturating] = u32_add_def u64_add_def u32_mul_def u64_mul_def

lemma u32_add_le [simp]: "u32_add a b \<le> U32_MAX" "u32_add a b \<le> a + b"
  by (simp_all add: u32_add_def)

lemma u64_add_le [simp]: "u64_add a b \<le> U64_MAX" "u64_add a b \<le> a + b"
  by (simp_all add: u64_add_def)

lemma u64_mul_mono: "a \<le> a' \<Longrightarrow> b \<le> b' \<Longrightarrow> u64_mul a b \<le> u64_mul a' b'"
  unfolding u64_mul_def by (intro min.mono mult_le_mono) simp_all

lemma u64_add_mono: "a \<le> a' \<Longrightarrow> b \<le> b' \<Longrightarrow> u64_add a b \<le> u64_add a' b'"
  unfolding u64_add_def by (intro min.mono) simp_all

lemma div_ceil_mono:
  assumes "a \<le> a'"
  shows "div_ceil a b \<le> div_ceil a' b"
proof (cases "a div b < a' div b")
  case True
  then show ?thesis by (simp add: div_ceil_def)
next
  case False
  with assms have eq: "a div b = a' div b" by (simp add: div_le_mono le_antisym not_less)
  have "a mod b \<le> a' mod b" using assms by (simp add: modulo_nat_def eq diff_le_mono)
  then show ?thesis by (auto simp: div_ceil_def eq)
qed

lemma div_ceil_pos: "0 < a \<Longrightarrow> 0 < b \<Longrightarrow> 0 < div_ceil a b"
  by (auto simp: div_ceil_def div_eq_0_iff)

lemma div_ceil_le:
  assumes "0 < b"
  shows "div_ceil a b \<le> a"
proof (cases "a mod b = 0")
  case True
  then show ?thesis by (simp add: div_ceil_def)
next
  case False
  then have "a \<noteq> 0" "b \<noteq> 1" by (metis mod_0, metis mod_by_1)
  with assms have "a div b < a" by (intro div_less_dividend) auto
  then show ?thesis by (simp add: div_ceil_def)
qed

end
