(* ===== verification/Retry.thy ===== *)
theory Retry
  imports Prelude Machine_Ints
begin

text \<open>
  Retrying operations that may fail transiently (\<open>smolvm-protocol/src/retry.rs\<close>): the retry loop and
  the classification of error messages. The n-th call of the operation is an argument, and so is the
  floating point product of a delay and the multiplier, as a function from a delay to a delay in
  nanoseconds. The loop returns the result of its last call and the delays it slept.
\<close>

section \<open>Searching in messages\<close>

fun contains_str :: "string \<Rightarrow> string \<Rightarrow> bool" where
  "contains_str [] pat \<longleftrightarrow> pat = []"
| "contains_str (c # s) pat \<longleftrightarrow> starts_with (c # s) pat \<or> contains_str s pat"

text \<open>\<open>str::to_lowercase\<close>, on messages searched for ASCII text. The two characters outside ASCII whose
  lower case holds an ASCII letter are U+212A, which becomes k, and U+0130, which becomes i and a
  combining dot; the other characters outside ASCII are kept, their lower case has no ASCII letter.\<close>

fun to_lowercase :: "string \<Rightarrow> string" where
  "to_lowercase [] = []"
| "to_lowercase (c # s) =
     (if take 3 (c # s) = [CHR 0xE2, CHR 0x84, CHR 0xAA] then CHR ''k'' # to_lowercase (drop 2 s)
      else if take 2 (c # s) = [CHR 0xC4, CHR 0xB0] then CHR ''i'' # CHR 0xCC # CHR 0x87 # to_lowercase (drop 1 s)
      else ascii_lower c # to_lowercase s)"

definition mentions :: "string \<Rightarrow> string list \<Rightarrow> bool" where
  "mentions message patterns \<longleftrightarrow> list_ex (contains_str message) patterns"

definition TRANSIENT_NETWORK :: "string list" where
  "TRANSIENT_NETWORK =
     [''connection refused'', ''connection reset'', ''connection timed out'', ''network is unreachable'',
      ''no route to host'', ''temporary failure'', ''try again'', ''resource temporarily unavailable'',
      ''name resolution'', ''dns'', ''could not resolve'', ''no such host'',
      ''502 bad gateway'', ''503 service unavailable'', ''504 gateway timeout'', ''429 too many requests'',
      ''toomanyrequests'', ''rate limit'', ''quota exceeded'',
      ''unexpected eof'', ''i/o timeout'', ''tls handshake timeout'', ''client connection lost'', ''goaway'',
      ''stream error'', ''use of closed network connection'', ''server closed idle connection'', ''connection aborted'',
      ''broken pipe'', ''interrupted'', ''eagain'', ''ewouldblock'']"

definition is_transient_network_error :: "string \<Rightarrow> bool" where
  "is_transient_network_error error_msg = mentions (to_lowercase error_msg) TRANSIENT_NETWORK"

definition PERMANENT :: "string list" where
  "PERMANENT =
     [''401 unauthorized'', ''403 forbidden'', ''authentication required'', ''access denied'',
      ''404 not found'', ''manifest unknown'', ''name unknown'', ''repository does not exist'',
      ''invalid reference'', ''invalid image'', ''malformed'']"

definition is_permanent_error :: "string \<Rightarrow> bool" where
  "is_permanent_error error_msg = mentions (to_lowercase error_msg) PERMANENT"

datatype error_kind =
    ConnectionRefused | ConnectionReset | ConnectionAborted | NotConnected | BrokenPipe | TimedOut | Interrupted | WouldBlock
  | OtherKind

definition is_transient_io_error :: "error_kind \<Rightarrow> bool" where
  "is_transient_io_error kind \<longleftrightarrow>
     kind \<in> {ConnectionRefused, ConnectionReset, ConnectionAborted, NotConnected, BrokenPipe, TimedOut, Interrupted, WouldBlock}"

section \<open>The retry loop\<close>

record retry_config =
  max_attempts :: nat
  initial_delay :: nat
  max_delay :: nat

definition millis :: "nat \<Rightarrow> nat" where "millis n = n * 1000000"

definition retry_default :: retry_config where
  "retry_default = \<lparr>max_attempts = 3, initial_delay = millis 100, max_delay = secs 5\<rparr>"

definition for_network :: retry_config where
  "for_network = \<lparr>max_attempts = 4, initial_delay = millis 500, max_delay = secs 5\<rparr>"

definition for_connection :: retry_config where
  "for_connection = \<lparr>max_attempts = 6, initial_delay = millis 100, max_delay = secs 2\<rparr>"

text \<open>\<open>attempt\<close> counts the calls made before this one.\<close>

function retry_loop ::
  "retry_config \<Rightarrow> (nat \<Rightarrow> nat) \<Rightarrow> (nat \<Rightarrow> 'e + 't) \<Rightarrow> ('e \<Rightarrow> bool) \<Rightarrow> nat \<Rightarrow> nat \<Rightarrow> ('e + 't) \<times> nat list" where
  "retry_loop config scale operation should_retry attempt delay =
     (case operation (attempt + 1) of
        Inr result \<Rightarrow> (Inr result, [])
      | Inl e \<Rightarrow>
          if max_attempts config \<le> attempt + 1 then (Inl e, [])
          else if \<not> should_retry e then (Inl e, [])
          else
            case retry_loop config scale operation should_retry (attempt + 1) (min (scale delay) (max_delay config)) of
              (result, delays) \<Rightarrow> (result, delay # delays))"
  by pat_completeness auto
termination by (relation "measure (\<lambda>(config, _, _, _, attempt, _). max_attempts config - attempt)") auto

declare retry_loop.simps [simp del]

definition retry_with_backoff ::
  "retry_config \<Rightarrow> (nat \<Rightarrow> nat) \<Rightarrow> (nat \<Rightarrow> 'e + 't) \<Rightarrow> ('e \<Rightarrow> bool) \<Rightarrow> ('e + 't) \<times> nat list" where
  "retry_with_backoff config scale operation should_retry =
     retry_loop config scale operation should_retry 0 (initial_delay config)"

section \<open>How often it calls\<close>

text \<open>A call that is the last whatever follows.\<close>

definition settles :: "retry_config \<Rightarrow> ('e \<Rightarrow> bool) \<Rightarrow> nat \<Rightarrow> 'e + 't \<Rightarrow> bool" where
  "settles config should_retry n outcome \<longleftrightarrow>
     (case outcome of Inr _ \<Rightarrow> True | Inl e \<Rightarrow> max_attempts config \<le> n \<or> \<not> should_retry e)"

lemma retry_loop_settled:
  "settles config should_retry (attempt + 1) (operation (attempt + 1)) \<Longrightarrow>
   retry_loop config scale operation should_retry attempt delay = (operation (attempt + 1), [])"
  by (subst retry_loop.simps) (auto simp: settles_def split: sum.splits)

lemma retry_loop_again:
  "\<not> settles config should_retry (attempt + 1) (operation (attempt + 1)) \<Longrightarrow>
   retry_loop config scale operation should_retry attempt delay =
     apsnd (Cons delay) (retry_loop config scale operation should_retry (attempt + 1) (min (scale delay) (max_delay config)))"
  by (subst retry_loop.simps) (auto simp: settles_def split: sum.splits prod.splits)

lemma retry_loop_calls:
  assumes "settles config should_retry n (operation n)" "attempt < n"
    "\<And>k. attempt < k \<Longrightarrow> k < n \<Longrightarrow> \<not> settles config should_retry k (operation k)"
  shows "fst (retry_loop config scale operation should_retry attempt delay) = operation n \<and>
    length (snd (retry_loop config scale operation should_retry attempt delay)) = n - Suc attempt"
  using assms
proof (induction "n - Suc attempt" arbitrary: attempt delay)
  case 0
  then have "n = attempt + 1" by simp
  with 0 show ?case by (simp add: retry_loop_settled)
next
  case (Suc k)
  then have "\<not> settles config should_retry (attempt + 1) (operation (attempt + 1))" by simp
  moreover have "k = n - Suc (attempt + 1)" "attempt + 1 < n" using Suc.hyps(2) by simp_all
  moreover note Suc.hyps(1) [of "attempt + 1" "min (scale delay) (max_delay config)"] Suc.prems
  ultimately show ?case using Suc.hyps(2) by (simp add: retry_loop_again)
qed

lemma settles_at_limit: "settles config should_retry (max 1 (max_attempts config)) outcome"
  by (simp add: settles_def split: sum.split)

lemma retry_loop_delays:
  "delay \<le> max (initial_delay config) (max_delay config) \<Longrightarrow>
   list_all (\<lambda>d. d \<le> max (initial_delay config) (max_delay config))
     (snd (retry_loop config scale operation should_retry attempt delay))"
proof (induction config scale operation should_retry attempt delay rule: retry_loop.induct)
  case (1 config scale operation should_retry attempt delay)
  show ?case
  proof (cases "settles config should_retry (attempt + 1) (operation (attempt + 1))")
    case True
    then show ?thesis by (simp add: retry_loop_settled)
  next
    case False
    then obtain e where e: "operation (attempt + 1) = Inl e" "\<not> max_attempts config \<le> attempt + 1" "should_retry e"
      by (auto simp: settles_def split: sum.splits)
    from 1(1) [OF e(1,2)] e(3) 1(2) False show ?thesis by (simp add: retry_loop_again le_max_iff_disj)
  qed
qed

text \<open>The retry loop ends, and its result is that of the first call that settles the matter: one that
  succeeded, failed with an error not worth retrying, or was the last attempt allowed. No call is made
  after it, every earlier call failed with an error worth retrying, there are at most \<open>max_attempts\<close>
  calls (and at least one), one sleep between two calls, and no sleep is longer than the initial or the
  maximal delay.\<close>

theorem retry_exact:
  "\<exists>n. 1 \<le> n \<and> n \<le> max 1 (max_attempts config) \<and>
     fst (retry_with_backoff config scale operation should_retry) = operation n \<and>
     settles config should_retry n (operation n) \<and>
     list_all (\<lambda>k. \<exists>e. operation k = Inl e \<and> should_retry e) [1..<n] \<and>
     length (snd (retry_with_backoff config scale operation should_retry)) = n - 1 \<and>
     list_all (\<lambda>d. d \<le> max (initial_delay config) (max_delay config))
       (snd (retry_with_backoff config scale operation should_retry))"
proof -
  let ?P = "\<lambda>n. 1 \<le> n \<and> settles config should_retry n (operation n)"
  define n where "n = (LEAST n. ?P n)"
  have some: "?P (max 1 (max_attempts config))" using settles_at_limit by simp
  then have n: "?P n" and le: "n \<le> max 1 (max_attempts config)" unfolding n_def by (rule LeastI, rule Least_le)
  have before: "\<not> settles config should_retry k (operation k)" if "0 < k" "k < n" for k
    using not_less_Least [of k ?P] that unfolding n_def by auto
  then have "\<exists>e. operation k = Inl e \<and> should_retry e" if "0 < k" "k < n" for k
    using before [OF that] by (auto simp: settles_def split: sum.splits)
  moreover from retry_loop_calls [of config should_retry n operation 0 scale "initial_delay config"] n before
  have "fst (retry_with_backoff config scale operation should_retry) = operation n"
    "length (snd (retry_with_backoff config scale operation should_retry)) = n - 1"
    by (auto simp: retry_with_backoff_def)
  moreover have "list_all (\<lambda>d. d \<le> max (initial_delay config) (max_delay config))
     (snd (retry_with_backoff config scale operation should_retry))"
    unfolding retry_with_backoff_def by (rule retry_loop_delays) simp
  ultimately show ?thesis using n le by (intro exI [of _ n]) (auto simp: list_all_iff)
qed

end
