(* ===== verification/Fork_Pool.thy ===== *)
theory Fork_Pool
  imports Ip_Addr Machine_Ints "HOL-Library.Char_ord" "HOL-Library.List_Lexorder" "HOL-Library.Product_Lexorder"
    "HOL-Library.Multiset"
begin

text \<open>
  Fork pools: the durable records of \<open>src/pool.rs\<close> and the transactions of \<open>src/db.rs\<close> that reserve,
  hand out, renew, expire and retire pre-forked workers.

  The database is a record of tables; a table is the list of its rows, a row is the deserialised
  record (the \<open>state\<close>, \<open>pool_name\<close> and \<open>idempotency_key\<close> columns repeat fields of the record and every
  statement writes them together). A transaction is a function from the database to its result and
  the database after the commit; transactions are serialised by the writer lock. A constraint
  violation rolls the transaction back. Failures of the disk or of the JSON encoding are not modelled.
\<close>

section \<open>Records\<close>

definition FORK_LEASE_ACTIVATION_GRACE_SECS :: nat where "FORK_LEASE_ACTIVATION_GRACE_SECS = 5 * 60"

record fork_pool =
  pool_name :: string
  pool_golden :: string
  desired_ready :: nat
  max_active :: "nat option"
  auto_admission :: bool
  cuda_device_ordinal :: "nat option"
  share_weights :: bool
  freeze_source :: bool
  ready_timeout_secs :: nat
  lease_ttl_secs :: nat
  pool_created_at :: nat
  deleting :: bool

definition admission_device_ordinal :: "fork_pool \<Rightarrow> nat option" where
  "admission_device_ordinal p =
     (case cuda_device_ordinal p of Some d \<Rightarrow> Some d | None \<Rightarrow> if share_weights p then Some 0 else None)"

definition cuda_device_ordinal_from_env :: "(string \<times> string) list \<Rightarrow> string + nat" where
  "cuda_device_ordinal_from_env env =
     (case find (\<lambda>(key, _). key = ''SMOLVM_CUDA_DEVICE'') (rev env) of
        None \<Rightarrow> Inr 0
      | Some (_, value) \<Rightarrow>
          (case parse_uint (2 ^ 32) value of
             Some n \<Rightarrow> Inr n
           | None \<Rightarrow> Inl (''SMOLVM_CUDA_DEVICE must be a non-negative host CUDA device ordinal, got '' @ [CHR 0x27] @ value @ [CHR 0x27])))"

record admission_limit =
  limit_pool :: nat
  limit_device :: nat

datatype slot_state = Provisioning | ReadySlot | Activating | Leased | Retiring

definition slot_state_str :: "slot_state \<Rightarrow> string" where
  "slot_state_str s =
     (case s of Provisioning \<Rightarrow> ''provisioning'' | ReadySlot \<Rightarrow> ''ready'' | Activating \<Rightarrow> ''activating''
      | Leased \<Rightarrow> ''leased'' | Retiring \<Rightarrow> ''retiring'')"

record fork_slot =
  slot_pool :: string
  slot_machine :: string
  slot_status :: slot_state
  slot_lease_id :: "string option"
  slot_created_at :: nat
  slot_updated_at :: nat
  slot_error :: "string option"

datatype lease_state = LeaseActivating | LeaseActive | Completed | Expired | Failed | Cancelled

definition lease_state_str :: "lease_state \<Rightarrow> string" where
  "lease_state_str s =
     (case s of LeaseActivating \<Rightarrow> ''activating'' | LeaseActive \<Rightarrow> ''active'' | Completed \<Rightarrow> ''completed''
      | Expired \<Rightarrow> ''expired'' | Failed \<Rightarrow> ''failed'' | Cancelled \<Rightarrow> ''cancelled'')"

record fork_lease =
  lease_id :: string
  lease_pool :: string
  lease_machine :: string
  lease_key :: string
  lease_status :: lease_state
  lease_assignment :: "(string \<times> string) list"
  lease_payload :: "string option"
  lease_created_at :: nat
  lease_updated_at :: nat
  lease_expires_at :: nat
  lease_ttl :: nat
  lease_error :: "string option"

datatype claim_result =
    Claimed fork_lease | Existing fork_lease | NoReadySlot | AtCapacity | PoolNotFound | PoolDeleting
  | WorkspaceExternallyMounted

text \<open>The fields of a machine's record that the pool reads or writes.\<close>

record vm_record =
  forkpoint_held :: bool
  vm_golden :: "string option"
  vm_mounts :: "(string \<times> string \<times> bool) list"
  fork_env :: "(string \<times> string) list"
  vm_env :: "(string \<times> string) list"

record pool_db =
  db_pools :: "fork_pool list"
  db_slots :: "fork_slot list"
  db_leases :: "fork_lease list"
  db_vms :: "(string \<times> vm_record) list"

datatype db_error = ConstraintViolation

section \<open>Rows\<close>

definition get_fork_pool :: "pool_db \<Rightarrow> string \<Rightarrow> fork_pool option" where
  "get_fork_pool db n = find (\<lambda>p. pool_name p = n) (db_pools db)"

definition get_fork_pool_slot :: "pool_db \<Rightarrow> string \<Rightarrow> fork_slot option" where
  "get_fork_pool_slot db m = find (\<lambda>s. slot_machine s = m) (db_slots db)"

definition get_fork_lease_by_id :: "pool_db \<Rightarrow> string \<Rightarrow> fork_lease option" where
  "get_fork_lease_by_id db i = find (\<lambda>l. lease_id l = i) (db_leases db)"

definition get_fork_lease :: "pool_db \<Rightarrow> string \<Rightarrow> string \<Rightarrow> fork_lease option" where
  "get_fork_lease db n i = find (\<lambda>l. lease_pool l = n \<and> lease_id l = i) (db_leases db)"

definition put_pool :: "fork_pool \<Rightarrow> pool_db \<Rightarrow> pool_db" where
  "put_pool p db = db\<lparr>db_pools := map (\<lambda>q. if pool_name q = pool_name p then p else q) (db_pools db)\<rparr>"

definition put_slot :: "fork_slot \<Rightarrow> pool_db \<Rightarrow> pool_db" where
  "put_slot s db = db\<lparr>db_slots := map (\<lambda>t. if slot_machine t = slot_machine s then s else t) (db_slots db)\<rparr>"

definition put_lease :: "fork_lease \<Rightarrow> pool_db \<Rightarrow> pool_db" where
  "put_lease l db = db\<lparr>db_leases := map (\<lambda>k. if lease_id k = lease_id l then l else k) (db_leases db)\<rparr>"

definition put_vm :: "string \<Rightarrow> vm_record \<Rightarrow> pool_db \<Rightarrow> pool_db" where
  "put_vm m vm db = db\<lparr>db_vms := map (\<lambda>(k, v). if k = m then (k, vm) else (k, v)) (db_vms db)\<rparr>"

definition live_lease :: "fork_lease \<Rightarrow> bool" where
  "live_lease l \<longleftrightarrow> lease_status l = LeaseActivating \<or> lease_status l = LeaseActive"

definition available_slot :: "fork_slot \<Rightarrow> bool" where
  "available_slot s \<longleftrightarrow> slot_status s = Provisioning \<or> slot_status s = ReadySlot"

definition active_leases :: "pool_db \<Rightarrow> string \<Rightarrow> nat" where
  "active_leases db n = length (filter (\<lambda>l. lease_pool l = n \<and> live_lease l) (db_leases db))"

definition slots_in :: "slot_state \<Rightarrow> pool_db \<Rightarrow> string \<Rightarrow> nat" where
  "slots_in st db n = length (filter (\<lambda>s. slot_pool s = n \<and> slot_status s = st) (db_slots db))"

definition available_slots :: "pool_db \<Rightarrow> string \<Rightarrow> nat" where
  "available_slots db n = length (filter (\<lambda>s. slot_pool s = n \<and> available_slot s) (db_slots db))"

section \<open>Pools\<close>

definition insert_fork_pool_if_not_exists :: "fork_pool \<Rightarrow> pool_db \<Rightarrow> bool \<times> pool_db" where
  "insert_fork_pool_if_not_exists p db =
     (case get_fork_pool db (pool_name p) of
        Some _ \<Rightarrow> (False, db)
      | None \<Rightarrow> (True, db\<lparr>db_pools := db_pools db @ [p]\<rparr>))"

definition list_fork_pools :: "pool_db \<Rightarrow> fork_pool list" where
  "list_fork_pools db = sort_key pool_name (db_pools db)"

definition retire_at :: "nat \<Rightarrow> fork_slot \<Rightarrow> fork_slot" where
  "retire_at now s = s\<lparr>slot_status := Retiring, slot_updated_at := now\<rparr>"

definition resize_fork_pool :: "string \<Rightarrow> nat \<Rightarrow> nat \<Rightarrow> pool_db \<Rightarrow> fork_pool option \<times> pool_db" where
  "resize_fork_pool n desired now db =
     (case get_fork_pool db n of
        None \<Rightarrow> (None, db)
      | Some pool \<Rightarrow>
          if deleting pool then (Some pool, db)
          else
            let pool' = pool\<lparr>desired_ready := desired\<rparr>;
                db1 = put_pool pool' db;
                available = sort_key (\<lambda>s. (if slot_status s = Provisioning then 0 else 1 :: nat, slot_machine s))
                              (filter (\<lambda>s. slot_pool s = n \<and> available_slot s) (db_slots db1));
                surplus = length available - desired
            in (Some pool', fold (\<lambda>s. put_slot (retire_at now s)) (take surplus available) db1))"

section \<open>Slots\<close>

definition list_fork_pool_slots :: "pool_db \<Rightarrow> string \<Rightarrow> fork_slot list" where
  "list_fork_pool_slots db n = sort_key slot_machine (filter (\<lambda>s. slot_pool s = n) (db_slots db))"

definition list_retiring_fork_pool_slots :: "pool_db \<Rightarrow> fork_slot list" where
  "list_retiring_fork_pool_slots db = filter (\<lambda>s. slot_status s = Retiring) (db_slots db)"

definition fork_pool_ready_deficit :: "pool_db \<Rightarrow> string \<Rightarrow> nat" where
  "fork_pool_ready_deficit db n =
     (case get_fork_pool db n of
        None \<Rightarrow> 0
      | Some pool \<Rightarrow>
          if deleting pool then 0
          else if 0 < slots_in Activating db n then 0
          else desired_ready pool - available_slots db n)"

definition fork_pool_admission_counts :: "pool_db \<Rightarrow> string \<Rightarrow> nat \<times> nat" where
  "fork_pool_admission_counts db n =
     (active_leases db n, length (filter (\<lambda>l. lease_pool l = n \<and> lease_status l = Completed) (db_leases db)))"

definition reserve_fork_pool_slot :: "string \<Rightarrow> string \<Rightarrow> nat \<Rightarrow> pool_db \<Rightarrow> bool \<times> pool_db" where
  "reserve_fork_pool_slot n m now db =
     (case get_fork_pool db n of
        None \<Rightarrow> (False, db)
      | Some pool \<Rightarrow>
          if deleting pool then (False, db)
          else if 0 < slots_in Activating db n then (False, db)
          else if desired_ready pool \<le> available_slots db n then (False, db)
          else
            let slot = \<lparr>slot_pool = n, slot_machine = m, slot_status = Provisioning, slot_lease_id = None,
                        slot_created_at = now, slot_updated_at = now, slot_error = None\<rparr>
            in (case get_fork_pool_slot db m of
                  Some _ \<Rightarrow> (False, db)
                | None \<Rightarrow> (True, db\<lparr>db_slots := db_slots db @ [slot]\<rparr>)))"

definition update_fork_pool_slot_state ::
  "string \<Rightarrow> slot_state \<Rightarrow> slot_state \<Rightarrow> nat \<Rightarrow> string option \<Rightarrow> pool_db \<Rightarrow> bool \<times> pool_db" where
  "update_fork_pool_slot_state m expected next now err db =
     (case find (\<lambda>s. slot_machine s = m \<and> slot_status s = expected) (db_slots db) of
        None \<Rightarrow> (False, db)
      | Some slot \<Rightarrow>
          (True, put_slot (slot\<lparr>slot_status := next, slot_updated_at := now, slot_error := err\<rparr>) db))"

definition mark_fork_pool_slot_ready :: "string \<Rightarrow> nat \<Rightarrow> pool_db \<Rightarrow> bool \<times> pool_db" where
  "mark_fork_pool_slot_ready m now db = update_fork_pool_slot_state m Provisioning ReadySlot now None db"

definition mark_fork_pool_slot_retiring_from ::
  "string \<Rightarrow> slot_state \<Rightarrow> nat \<Rightarrow> string option \<Rightarrow> pool_db \<Rightarrow> bool \<times> pool_db" where
  "mark_fork_pool_slot_retiring_from m expected now err db =
     update_fork_pool_slot_state m expected Retiring now err db"

definition mark_fork_pool_slot_retiring :: "string \<Rightarrow> nat \<Rightarrow> string option \<Rightarrow> pool_db \<Rightarrow> bool \<times> pool_db" where
  "mark_fork_pool_slot_retiring m now err db =
     (case get_fork_pool_slot db m of
        None \<Rightarrow> (False, db)
      | Some slot \<Rightarrow>
          (True, put_slot (slot\<lparr>slot_status := Retiring, slot_updated_at := now, slot_error := err\<rparr>) db))"

definition remove_fork_pool_slot :: "string \<Rightarrow> pool_db \<Rightarrow> bool \<times> pool_db" where
  "remove_fork_pool_slot m db =
     (get_fork_pool_slot db m \<noteq> None, db\<lparr>db_slots := filter (\<lambda>s. slot_machine s \<noteq> m) (db_slots db)\<rparr>)"

section \<open>Claiming a worker\<close>

definition merge_fork_env ::
  "(string \<times> string) list \<Rightarrow> (string \<times> string) list \<Rightarrow> (string \<times> string) list" where
  "merge_fork_env initial assignment =
     foldl (\<lambda>merged (key, value). filter (\<lambda>(existing, _). existing \<noteq> key) merged @ [(key, value)]) initial assignment"

definition record_fork_activation ::
  "(string \<times> string) list \<Rightarrow> (string \<times> string) list \<Rightarrow> vm_record \<Rightarrow> vm_record" where
  "record_fork_activation assignment merged vm =
     vm\<lparr>forkpoint_held := False, fork_env := merged,
        vm_env := filter (\<lambda>(key, _). key \<notin> set (map fst assignment)) (vm_env vm) @ assignment\<rparr>"

definition path_components :: "string \<Rightarrow> string list" where
  "path_components target =
     foldl (\<lambda>cs c. if c = [] \<or> c = ''.'' then cs else if c = ''..'' then butlast cs else cs @ [c]) []
       (split_char (CHR ''/'') target)"

definition targets_workspace_tree :: "string \<Rightarrow> bool" where
  "targets_workspace_tree target =
     (case path_components target of c # _ \<Rightarrow> c = ''workspace'' | [] \<Rightarrow> False)"

record slot_claim =
  claim_pool :: string
  claim_lease_id :: string
  claim_key :: string
  claim_assignment :: "(string \<times> string) list"
  claim_payload :: "string option"
  require_private_workspace :: bool
  claim_limit :: "admission_limit option"
  claim_ttl :: nat
  claim_now :: nat

definition claim_max_active :: "fork_pool \<Rightarrow> admission_limit option \<Rightarrow> nat option" where
  "claim_max_active pool limit =
     (case (max_active pool, map_option limit_pool limit) of
        (Some configured, Some adaptive) \<Rightarrow> Some (min configured adaptive)
      | (Some configured, None) \<Rightarrow> Some configured
      | (None, adaptive) \<Rightarrow> adaptive)"

definition active_on_device :: "pool_db \<Rightarrow> string \<Rightarrow> fork_pool \<Rightarrow> nat \<Rightarrow> nat" where
  "active_on_device db n pool device =
     foldl (\<lambda>active g.
        if Option.bind (if g = n then Some pool else get_fork_pool db g) admission_device_ordinal = Some device
        then u32_add active (active_leases db g) else active) 0
       (remdups (map lease_pool (filter live_lease (db_leases db))))"

definition device_full :: "pool_db \<Rightarrow> string \<Rightarrow> fork_pool \<Rightarrow> admission_limit option \<Rightarrow> bool" where
  "device_full db n pool limit =
     (case (limit, admission_device_ordinal pool) of
        (Some l, Some device) \<Rightarrow> limit_device l \<le> active_on_device db n pool device
      | _ \<Rightarrow> False)"

definition held_for :: "fork_pool \<Rightarrow> vm_record \<Rightarrow> bool" where
  "held_for pool vm \<longleftrightarrow> forkpoint_held vm \<and> vm_golden vm = Some (pool_golden pool)"

fun select_ready ::
  "fork_pool \<Rightarrow> nat \<Rightarrow> fork_slot list \<Rightarrow> pool_db \<Rightarrow> (fork_slot \<times> vm_record) option \<times> pool_db" where
  "select_ready pool now [] db = (None, db)"
| "select_ready pool now (slot # slots) db =
     (let retired = put_slot ((retire_at now slot)\<lparr>slot_error := Some ''ready slot no longer has a matching held VM''\<rparr>) db
      in case map_of (db_vms db) (slot_machine slot) of
           Some vm \<Rightarrow> if held_for pool vm then (Some (slot, vm), db) else select_ready pool now slots retired
         | None \<Rightarrow> select_ready pool now slots retired)"

definition claim_fork_pool_slot :: "slot_claim \<Rightarrow> pool_db \<Rightarrow> (db_error + claim_result) \<times> pool_db" where
  "claim_fork_pool_slot c db =
     (let n = claim_pool c; now = claim_now c in
      case find (\<lambda>l. lease_pool l = n \<and> lease_key l = claim_key c) (db_leases db) of
        Some lease \<Rightarrow> (Inr (Existing lease), db)
      | None \<Rightarrow>
      (case get_fork_pool db n of
         None \<Rightarrow> (Inr PoolNotFound, db)
       | Some pool \<Rightarrow>
           if deleting pool then (Inr PoolDeleting, db)
           else if (case claim_max_active pool (claim_limit c) of Some m \<Rightarrow> m \<le> active_leases db n | None \<Rightarrow> False)
           then (Inr AtCapacity, db)
           else if device_full db n pool (claim_limit c) then (Inr AtCapacity, db)
           else
             (case select_ready pool now
                     (sort_key slot_machine (filter (\<lambda>s. slot_pool s = n \<and> slot_status s = ReadySlot) (db_slots db))) db of
                (None, db1) \<Rightarrow> (Inr NoReadySlot, db1)
              | (Some (slot, vm), db1) \<Rightarrow>
                  if require_private_workspace c \<and> list_ex (\<lambda>(_, target, _). targets_workspace_tree target) (vm_mounts vm)
                  then (Inr WorkspaceExternallyMounted, db1)
                  else
                    let m = slot_machine slot;
                        vm' = record_fork_activation (claim_assignment c)
                                (merge_fork_env (fork_env vm) (claim_assignment c)) vm;
                        slot' = slot\<lparr>slot_status := Activating, slot_lease_id := Some (claim_lease_id c), slot_updated_at := now\<rparr>;
                        lease = \<lparr>lease_id = claim_lease_id c, lease_pool = n, lease_machine = m, lease_key = claim_key c,
                                 lease_status = LeaseActivating, lease_assignment = claim_assignment c,
                                 lease_payload = claim_payload c, lease_created_at = now, lease_updated_at = now,
                                 lease_expires_at = u64_add now FORK_LEASE_ACTIVATION_GRACE_SECS,
                                 lease_ttl = claim_ttl c, lease_error = None\<rparr>;
                        db2 = put_slot slot' (put_vm m vm' db1)
                    in (case get_fork_lease_by_id db (claim_lease_id c) of
                          Some _ \<Rightarrow> (Inl ConstraintViolation, db)
                        | None \<Rightarrow> (Inr (Claimed lease), db2\<lparr>db_leases := db_leases db2 @ [lease]\<rparr>)))))"

section \<open>Leases\<close>

definition transitioned :: "lease_state \<Rightarrow> lease_state \<Rightarrow> nat \<Rightarrow> string option \<Rightarrow> fork_lease \<Rightarrow> fork_lease" where
  "transitioned expected next now err lease =
     (let lease1 = lease\<lparr>lease_status := next, lease_updated_at := now\<rparr>;
          lease2 = (if expected = LeaseActivating \<and> next = LeaseActive
                    then lease1\<lparr>lease_expires_at := u64_add now (lease_ttl lease)\<rparr> else lease1)
      in lease2\<lparr>lease_error := err\<rparr>)"

definition transition_fork_lease ::
  "string \<Rightarrow> lease_state \<Rightarrow> lease_state \<Rightarrow> slot_state \<Rightarrow> nat \<Rightarrow> string option \<Rightarrow> pool_db \<Rightarrow> fork_lease option \<times> pool_db" where
  "transition_fork_lease i expected next slot_next now err db =
     (case get_fork_lease_by_id db i of
        None \<Rightarrow> (None, db)
      | Some lease \<Rightarrow>
          if lease_status lease \<noteq> expected then (Some lease, db)
          else
            let lease' = transitioned expected next now err lease;
                db1 = put_lease lease' db
            in (Some lease',
                case get_fork_pool_slot db1 (lease_machine lease) of
                  None \<Rightarrow> db1
                | Some slot \<Rightarrow>
                    put_slot (slot\<lparr>slot_status := slot_next, slot_updated_at := now, slot_error := err\<rparr>) db1))"

definition mark_fork_lease_active :: "string \<Rightarrow> nat \<Rightarrow> pool_db \<Rightarrow> fork_lease option \<times> pool_db" where
  "mark_fork_lease_active i now db = transition_fork_lease i LeaseActivating LeaseActive Leased now None db"

definition fail_fork_lease :: "string \<Rightarrow> nat \<Rightarrow> string \<Rightarrow> pool_db \<Rightarrow> fork_lease option \<times> pool_db" where
  "fail_fork_lease i now err db = transition_fork_lease i LeaseActivating Failed Retiring now (Some err) db"

definition fail_active_fork_lease :: "string \<Rightarrow> nat \<Rightarrow> string \<Rightarrow> pool_db \<Rightarrow> fork_lease option \<times> pool_db" where
  "fail_active_fork_lease i now err db = transition_fork_lease i LeaseActive Failed Retiring now (Some err) db"

definition heartbeat_fork_lease :: "string \<Rightarrow> string \<Rightarrow> nat \<Rightarrow> pool_db \<Rightarrow> fork_lease option \<times> pool_db" where
  "heartbeat_fork_lease n i now db =
     (case get_fork_lease db n i of
        None \<Rightarrow> (None, db)
      | Some lease \<Rightarrow>
          if lease_status lease = LeaseActive \<and> now < lease_expires_at lease then
            let lease' = lease\<lparr>lease_updated_at := now, lease_expires_at := u64_add now (lease_ttl lease)\<rparr>
            in (Some lease', put_lease lease' db)
          else (Some lease, db))"

definition complete_fork_lease :: "string \<Rightarrow> string \<Rightarrow> nat \<Rightarrow> pool_db \<Rightarrow> fork_lease option \<times> pool_db" where
  "complete_fork_lease n i now db =
     (case get_fork_lease db n i of
        None \<Rightarrow> (None, db)
      | Some lease \<Rightarrow>
          if lease_status lease \<noteq> LeaseActive then (Some lease, db)
          else transition_fork_lease i LeaseActive Completed Retiring now None db)"

definition expire_one :: "nat \<Rightarrow> fork_lease \<Rightarrow> pool_db \<Rightarrow> pool_db" where
  "expire_one now lease db =
     (let db1 = put_lease (lease\<lparr>lease_status := Expired, lease_updated_at := now\<rparr>) db
      in case get_fork_pool_slot db1 (lease_machine lease) of
           None \<Rightarrow> db1
         | Some slot \<Rightarrow> put_slot (retire_at now slot) db1)"

definition overdue :: "nat \<Rightarrow> pool_db \<Rightarrow> fork_lease list" where
  "overdue now db = filter (\<lambda>l. lease_expires_at l \<le> now) (filter live_lease (db_leases db))"

definition expire_fork_leases :: "nat \<Rightarrow> pool_db \<Rightarrow> fork_lease list \<times> pool_db" where
  "expire_fork_leases now db =
     (map (\<lambda>l. l\<lparr>lease_status := Expired, lease_updated_at := now\<rparr>) (overdue now db),
      fold (expire_one now) (overdue now db) db)"

definition list_active_fork_leases :: "pool_db \<Rightarrow> fork_lease list" where
  "list_active_fork_leases db = filter (\<lambda>l. lease_status l = LeaseActive) (db_leases db)"

section \<open>Deleting a pool\<close>

definition begin_delete_fork_pool :: "string \<Rightarrow> bool \<Rightarrow> nat \<Rightarrow> pool_db \<Rightarrow> bool option \<times> pool_db" where
  "begin_delete_fork_pool n force now db =
     (case get_fork_pool db n of
        None \<Rightarrow> (None, db)
      | Some pool \<Rightarrow>
          if 0 < active_leases db n \<and> \<not> force then (Some False, db)
          else
            let db1 = put_pool (pool\<lparr>deleting := True\<rparr>) db;
                db2 = fold (\<lambda>s. put_slot (retire_at now s)) (filter (\<lambda>s. slot_pool s = n) (db_slots db1)) db1;
                db3 = (if force
                       then fold (\<lambda>l. put_lease (l\<lparr>lease_status := Cancelled, lease_updated_at := now\<rparr>))
                              (filter (\<lambda>l. lease_pool l = n \<and> live_lease l) (db_leases db2)) db2
                       else db2)
            in (Some True, db3))"

definition finalize_one :: "fork_pool \<Rightarrow> string list \<times> pool_db \<Rightarrow> string list \<times> pool_db" where
  "finalize_one pool acc =
     (case acc of (removed, db) \<Rightarrow>
        let n = pool_name pool
        in if \<not> deleting pool then (removed, db)
           else if filter (\<lambda>s. slot_pool s = n) (db_slots db) = [] then
             (removed @ [n],
              db\<lparr>db_leases := filter (\<lambda>l. lease_pool l \<noteq> n) (db_leases db),
                 db_pools := filter (\<lambda>p. pool_name p \<noteq> n) (db_pools db)\<rparr>)
           else (removed, db))"

definition finalize_deleted_fork_pools :: "pool_db \<Rightarrow> string list \<times> pool_db" where
  "finalize_deleted_fork_pools db = fold finalize_one (db_pools db) ([], db)"

end
