(* ===== verification/Lease_Payload.thy ===== *)
theory Lease_Payload
  imports Fork_Pool Bytes
begin

text \<open>
  The files of a lease (\<open>validate_lease_payload\<close> in \<open>src/api/handlers/pools.rs\<close>): their validation, the
  staged files, and the digest that identifies them on a retry. The base64 decoder and SHA-256 (in
  hexadecimal) are arguments.
\<close>

section \<open>Validation\<close>

definition MAX_LEASE_PAYLOAD_FILES :: nat where "MAX_LEASE_PAYLOAD_FILES = 32"
definition MAX_LEASE_PAYLOAD_BYTES :: nat where "MAX_LEASE_PAYLOAD_BYTES = 1024 * 1024"
definition MAX_LEASE_PAYLOAD_PATH_BYTES :: nat where "MAX_LEASE_PAYLOAD_PATH_BYTES = 512"
definition DEFAULT_LEASE_PAYLOAD_MODE :: u32 where "DEFAULT_LEASE_PAYLOAD_MODE = 0x1A4"

record payload_file =
  pf_path :: string
  pf_data_base64 :: string
  pf_mode :: "u32 option"

record staged_file =
  sf_path :: string
  sf_data :: bytes
  sf_mode :: u32

datatype payload_error =
    TooManyFiles | UnsafePath string | DuplicatePath string | ModeBits string | NotBase64 string | SizeOverflow | PayloadTooLong

text \<open>A control character in UTF-8: a byte of C0, DEL, or one of C1 after its lead byte.\<close>

fun has_control :: "string \<Rightarrow> bool" where
  "has_control [] = False"
| "has_control (c # s) =
     ((of_char c :: nat) < 0x20 \<or> (of_char c :: nat) = 0x7F \<or>
      ((of_char c :: nat) = 0xC2 \<and> (case s of d # _ \<Rightarrow> 0x80 \<le> (of_char d :: nat) \<and> (of_char d :: nat) < 0xA0 | [] \<Rightarrow> False)) \<or>
      has_control s)"

definition valid_payload_path :: "string \<Rightarrow> bool" where
  "valid_payload_path path \<longleftrightarrow>
     path \<noteq> [] \<and> length path \<le> MAX_LEASE_PAYLOAD_PATH_BYTES \<and> \<not> starts_with path ''/'' \<and> CHR 0x5C \<notin> set path \<and>
     \<not> has_control path \<and>
     list_all (\<lambda>component. component \<noteq> [] \<and> component \<noteq> ''.'' \<and> component \<noteq> ''..'') (split_char (CHR ''/'') path)"

definition payload_mode :: "payload_file \<Rightarrow> u32" where
  "payload_mode file = (case pf_mode file of Some m \<Rightarrow> m | None \<Rightarrow> DEFAULT_LEASE_PAYLOAD_MODE)"

fun stage_files :: "(string \<Rightarrow> bytes option) \<Rightarrow> payload_file list \<Rightarrow> string list \<Rightarrow> nat \<Rightarrow> payload_error + staged_file list" where
  "stage_files decode [] paths size_so_far = Inr []"
| "stage_files decode (file # files) paths size_so_far =
     (let path = pf_path file; mode = payload_mode file
      in if \<not> valid_payload_path path then Inl (UnsafePath path)
         else if path \<in> set paths then Inl (DuplicatePath path)
         else if mode AND NOT 0x1FF \<noteq> 0 then Inl (ModeBits path)
         else case decode (pf_data_base64 file) of
                None \<Rightarrow> Inl (NotBase64 path)
              | Some data \<Rightarrow>
                  let size_now = size_so_far + length data
                  in if 2 ^ 64 \<le> size_now then Inl SizeOverflow
                     else if MAX_LEASE_PAYLOAD_BYTES < size_now then Inl PayloadTooLong
                     else (case stage_files decode files (path # paths) size_now of
                             Inl e \<Rightarrow> Inl e
                           | Inr staged \<Rightarrow> Inr (\<lparr>sf_path = path, sf_data = data, sf_mode = mode\<rparr> # staged)))"

definition file_bytes :: "staged_file \<Rightarrow> bytes" where
  "file_bytes file =
     nat_le 8 (length (sf_path file)) @ str_bytes (sf_path file) @ nat_le 4 (unat (sf_mode file)) @
     nat_le 8 (length (sf_data file)) @ sf_data file"

definition validate_lease_payload ::
  "(string \<Rightarrow> bytes option) \<Rightarrow> (bytes \<Rightarrow> string) \<Rightarrow> payload_file list \<Rightarrow> payload_error + staged_file list \<times> string option" where
  "validate_lease_payload decode sha256_hex files =
     (if MAX_LEASE_PAYLOAD_FILES < length files then Inl TooManyFiles
      else case stage_files decode files [] 0 of
             Inl e \<Rightarrow> Inl e
           | Inr [] \<Rightarrow> Inr ([], None)
           | Inr staged \<Rightarrow>
               let staged' = sort_key sf_path staged
               in Inr (staged', Some (sha256_hex (concat (map file_bytes staged')))))"

section \<open>What is accepted\<close>

definition stage :: "(string \<Rightarrow> bytes option) \<Rightarrow> payload_file \<Rightarrow> staged_file" where
  "stage decode file = \<lparr>sf_path = pf_path file, sf_data = the (decode (pf_data_base64 file)), sf_mode = payload_mode file\<rparr>"

definition payload_size :: "staged_file list \<Rightarrow> nat" where
  "payload_size files = sum_list (map (\<lambda>f. length (sf_data f)) files)"

definition accepted :: "(string \<Rightarrow> bytes option) \<Rightarrow> payload_file \<Rightarrow> bool" where
  "accepted decode file \<longleftrightarrow>
     valid_payload_path (pf_path file) \<and> payload_mode file AND NOT 0x1FF = 0 \<and> decode (pf_data_base64 file) \<noteq> None"

lemma stage_fields [simp]:
  "sf_path (stage decode f) = pf_path f" "sf_mode (stage decode f) = payload_mode f"
  "decode (pf_data_base64 f) = Some data \<Longrightarrow> sf_data (stage decode f) = data"
  by (simp_all add: stage_def)

lemma stage_files_iff:
  "n \<le> MAX_LEASE_PAYLOAD_BYTES \<Longrightarrow>
   stage_files decode files paths n = Inr staged \<longleftrightarrow>
     list_all (accepted decode) files \<and> distinct (map pf_path files) \<and> set (map pf_path files) \<inter> set paths = {} \<and>
     n + payload_size (map (stage decode) files) \<le> MAX_LEASE_PAYLOAD_BYTES \<and> staged = map (stage decode) files"
proof (induction files arbitrary: paths n staged)
  case Nil
  then show ?case by (auto simp: payload_size_def)
next
  case (Cons f files)
  show ?case
  proof (cases "accepted decode f \<and> pf_path f \<notin> set paths")
    case False
    then show ?thesis by (auto simp: accepted_def Let_def split: option.splits)
  next
    case True
    then obtain data where data: "decode (pf_data_base64 f) = Some data" by (auto simp: accepted_def)
    have small: "m < 2 ^ 64" if "m \<le> MAX_LEASE_PAYLOAD_BYTES" for m using that by (simp add: MAX_LEASE_PAYLOAD_BYTES_def)
    show ?thesis
    proof (cases "n + length data \<le> MAX_LEASE_PAYLOAD_BYTES")
      case fits: True
      have "stage_files decode (f # files) paths n =
        (case stage_files decode files (pf_path f # paths) (n + length data) of Inl e \<Rightarrow> Inl e | Inr s \<Rightarrow> Inr (stage decode f # s))"
        using True data fits small [OF fits] by (simp add: accepted_def Let_def stage_def split: sum.split)
      then show ?thesis using Cons.IH [OF fits, of "pf_path f # paths"] True data
        by (auto simp: payload_size_def add.assoc split: sum.splits)
    next
      case big: False
      then have "\<not> (\<exists>s. stage_files decode (f # files) paths n = Inr s)"
        using True data by (auto simp: accepted_def Let_def)
      with big data show ?thesis by (auto simp: payload_size_def)
    qed
  qed
qed

lemma validate_lease_payload_iff:
  "validate_lease_payload decode sha files = Inr (staged, d) \<longleftrightarrow>
     length files \<le> MAX_LEASE_PAYLOAD_FILES \<and> list_all (accepted decode) files \<and> distinct (map pf_path files) \<and>
     payload_size (map (stage decode) files) \<le> MAX_LEASE_PAYLOAD_BYTES \<and> staged = sort_key sf_path (map (stage decode) files) \<and>
     d = (if files = [] then None else Some (sha (concat (map file_bytes staged))))"
proof (cases "stage_files decode files [] 0")
  case (Inl e)
  then have "validate_lease_payload decode sha files \<noteq> Inr (staged, d)" by (simp add: validate_lease_payload_def)
  moreover have "stage_files decode files [] 0 \<noteq> Inr (map (stage decode) files)" using Inl by simp
  ultimately show ?thesis using stage_files_iff [of 0 decode files "[]"] by auto
next
  case (Inr st)
  then have ok: "list_all (accepted decode) files" "distinct (map pf_path files)"
    "payload_size (map (stage decode) files) \<le> MAX_LEASE_PAYLOAD_BYTES" "st = map (stage decode) files"
    using stage_files_iff [of 0 decode files "[]" st] by auto
  show ?thesis
  proof (cases files)
    case Nil
    with Inr ok show ?thesis by (auto simp: validate_lease_payload_def)
  next
    case (Cons f fs)
    then have "validate_lease_payload decode sha files =
      (if MAX_LEASE_PAYLOAD_FILES < length files then Inl TooManyFiles
       else Inr (sort_key sf_path st, Some (sha (concat (map file_bytes (sort_key sf_path st))))))"
      using Inr ok(4) by (simp add: validate_lease_payload_def Let_def)
    with ok Cons show ?thesis by (auto simp del: sort_key_simps)
  qed
qed

section \<open>Properties\<close>

lemma mode_bits:
  fixes m :: u32
  assumes "m AND NOT 0x1FF = 0"
  shows "unat m < 512"
proof -
  have "(0x1FF :: u32) = mask 9" by (simp add: mask_eq_exp_minus_1)
  with assms have "m AND NOT (mask 9) = 0" by simp
  then have "\<not> bit (m AND NOT (mask 9)) n" for n by (simp only: bit_0_eq) simp
  then have "n < 32 \<longrightarrow> bit m n \<longrightarrow> n < 9" for n by (auto simp: bit_simps)
  then have "take_bit 9 m = m" by (intro bit_word_eqI) (auto simp: bit_simps)
  then have "unat m = take_bit 9 (unat m)" by (simp flip: unsigned_take_bit_eq)
  then have "unat m < 2 ^ 9" using take_bit_nat_less_exp [of 9 "unat m"] by simp
  then show ?thesis by simp
qed

lemma components_kept:
  "list_all (\<lambda>c. c \<noteq> [] \<and> c \<noteq> ''.'' \<and> c \<noteq> ''..'') cs \<Longrightarrow>
   foldl (\<lambda>cs c. if c = [] \<or> c = ''.'' then cs else if c = ''..'' then butlast cs else cs @ [c]) acc cs = acc @ cs"
  by (induction cs arbitrary: acc) auto

lemma valid_path_confined:
  assumes "valid_payload_path p"
  shows "path_components (''/workspace/'' @ p) = ''workspace'' # split_char (CHR ''/'') p"
proof -
  have "split_char (CHR ''/'') (''/workspace/'' @ p) = [[], ''workspace''] @ split_char (CHR ''/'') p"
    using split_char_append_sep [of "CHR ''/''" "''workspace''" p] by simp
  then show ?thesis using assms components_kept [of "split_char (CHR ''/'') p" "[''workspace'']"]
    by (simp add: path_components_def valid_payload_path_def)
qed

text \<open>The bytes that are hashed determine the files.\<close>

definition file_dec :: "bytes \<Rightarrow> (staged_file \<times> bytes) option" where
  "file_dec s =
     Option.bind (read_exact 8 s) (\<lambda>(a, s). Option.bind (read_exact (le_nat a) s) (\<lambda>(p, s).
       Option.bind (read_exact 4 s) (\<lambda>(m, s). Option.bind (read_exact 8 s) (\<lambda>(l, s).
         Option.bind (read_exact (le_nat l) s) (\<lambda>(d, s).
           Some (\<lparr>sf_path = bytes_str p, sf_data = d, sf_mode = of_nat (le_nat m)\<rparr>, s))))))"

definition file_ok :: "staged_file \<Rightarrow> bool" where
  "file_ok f \<longleftrightarrow> length (sf_path f) < 256 ^ 8 \<and> length (sf_data f) < 256 ^ 8"

interpretation file_wire: wire_format file_bytes file_dec file_ok
proof
  fix f rest assume "file_ok f"
  moreover have "unat (sf_mode f) < 256 ^ 4" using unsigned_less [of "sf_mode f"] by simp
  ultimately show "file_dec (file_bytes f @ rest) = Some (f, rest)"
    by (simp add: file_dec_def file_bytes_def file_ok_def read_exact_append le_nat_nat_le_id)
qed

lemma file_bytes_nonempty: "file_bytes f \<noteq> []"
proof -
  have "8 \<le> length (file_bytes f)" by (simp add: file_bytes_def)
  then show ?thesis by auto
qed

lemma staged_ok:
  assumes "list_all (accepted decode) files" "payload_size (map (stage decode) files) \<le> MAX_LEASE_PAYLOAD_BYTES"
  shows "list_all file_ok (sort_key sf_path (map (stage decode) files))"
proof -
  have "file_ok (stage decode f)" if "f \<in> set files" for f
  proof -
    have "length (sf_data (stage decode f)) \<le> payload_size (map (stage decode) files)"
      unfolding payload_size_def using that by (intro member_le_sum_list) (force | simp)+
    moreover have "length (pf_path f) \<le> 512"
      using assms(1) that by (auto simp: list_all_iff accepted_def valid_payload_path_def MAX_LEASE_PAYLOAD_PATH_BYTES_def)
    ultimately show ?thesis using assms(2) by (simp add: file_ok_def MAX_LEASE_PAYLOAD_BYTES_def)
  qed
  then show ?thesis by (auto simp: list_all_iff)
qed

lemma distinct_sort_key: "distinct (map g (sort_key f xs)) = distinct (map g xs)"
  unfolding distinct_map by simp

lemma sum_list_sort_key: "sum_list (map g (sort_key f xs)) = (sum_list (map g xs) :: nat)"
proof -
  have "mset (map g (sort_key f xs)) = mset (map g xs)" by simp
  then show ?thesis by (metis sum_mset_sum_list)
qed

lemma sort_key_unique:
  assumes "mset xs = mset ys" "distinct (map f xs)" "distinct (map f ys)"
  shows "sort_key f xs = sort_key f ys"
proof (rule map_sorted_distinct_set_unique [of f])
  have s: "set xs = set ys" using assms(1) by (rule mset_eq_setD)
  show "inj_on f (set (sort_key f xs) \<union> set (sort_key f ys))" using assms(2) s by (simp add: distinct_map)
  show "set (sort_key f xs) = set (sort_key f ys)" using s by simp
qed (use assms(2,3) in \<open>simp_all add: distinct_sort_key\<close>)

text \<open>C16: Staged files stay inside the workspace. Whatever a lease request contains, the files it is accepted
  with have distinct paths which, joined to /workspace/, name what they spell below it (no component is
  empty, a dot or a double dot), carry permission bits only, and hold at most a mebibyte together.\<close>

theorem payload_confined:
  assumes "validate_lease_payload decode sha files = Inr (staged, d)"
  shows "length staged \<le> 32 \<and> distinct (map sf_path staged) \<and> payload_size staged \<le> 1048576 \<and>
    (\<forall>f\<in>set staged. path_components (''/workspace/'' @ sf_path f) = ''workspace'' # split_char (CHR ''/'') (sf_path f) \<and>
       unat (sf_mode f) < 512)"
proof -
  have ok: "list_all (accepted decode) files" "staged = sort_key sf_path (map (stage decode) files)"
    "length files \<le> 32" "distinct (map pf_path files)" "payload_size (map (stage decode) files) \<le> 1048576"
    using assms by (simp_all add: validate_lease_payload_iff MAX_LEASE_PAYLOAD_BYTES_def MAX_LEASE_PAYLOAD_FILES_def)
  have "distinct (map sf_path staged)" using ok(4) unfolding ok(2) by (simp add: distinct_sort_key comp_def)
  moreover have "payload_size staged = payload_size (map (stage decode) files)"
    unfolding payload_size_def ok(2) by (rule sum_list_sort_key)
  moreover have "path_components (''/workspace/'' @ sf_path f) = ''workspace'' # split_char (CHR ''/'') (sf_path f) \<and>
    unat (sf_mode f) < 512" if mem: "f \<in> set staged" for f
  proof -
    obtain x where "x \<in> set files" "f = stage decode x" using mem unfolding ok(2) by auto
    then have "valid_payload_path (sf_path f)" "sf_mode f AND NOT 0x1FF = 0" using ok(1) by (auto simp: list_all_iff accepted_def)
    then show ?thesis by (intro conjI valid_path_confined mode_bits)
  qed
  moreover have "length staged \<le> 32" using ok(3) unfolding ok(2) by simp
  ultimately show ?thesis using ok(5) by simp
qed

text \<open>Two files, and a decoder and digest to run the validation with.\<close>

definition two_files :: "payload_file list" where
  "two_files = [\<lparr>pf_path = ''c'', pf_data_base64 = ''x'', pf_mode = Some 0x1C0\<rparr>,
                \<lparr>pf_path = ''a/b'', pf_data_base64 = ''hi'', pf_mode = None\<rparr>]"

definition plain_decode :: "string \<Rightarrow> bytes option" where
  "plain_decode s = Some (str_bytes s)"

lemma two_files_staged:
  "validate_lease_payload plain_decode bytes_str two_files =
     Inr (map (stage plain_decode) (rev two_files), Some (bytes_str (concat (map file_bytes (map (stage plain_decode) (rev two_files))))))"
  "validate_lease_payload plain_decode bytes_str (rev two_files) =
     Inr (map (stage plain_decode) (rev two_files), Some (bytes_str (concat (map file_bytes (map (stage plain_decode) (rev two_files))))))"
  by code_simp+

theorem payload_confined_witness:
  "path_components ''/workspace/a/b'' = ''workspace'' # split_char (CHR ''/'') ''a/b''"
  using payload_confined [OF two_files_staged(1)] by (simp add: two_files_def stage_def)

text \<open>The digest of a payload identifies it. For two accepted payloads whose hashed bytes do not collide,
  the digests are equal exactly when the payloads consist of the same files - the same paths, contents
  and modes - in whatever order the requests list them.\<close>

theorem payload_digest_identifies:
  assumes "validate_lease_payload decode sha files = Inr (staged, d)" "validate_lease_payload decode sha files' = Inr (staged', d')"
    and "sha (concat (map file_bytes staged)) = sha (concat (map file_bytes staged')) \<Longrightarrow>
      concat (map file_bytes staged) = concat (map file_bytes staged')"
  shows "d = d' \<longleftrightarrow> mset (map (stage decode) files) = mset (map (stage decode) files')"
proof -
  have ok: "list_all file_ok staged" "list_all file_ok staged'" "staged = sort_key sf_path (map (stage decode) files)"
    "staged' = sort_key sf_path (map (stage decode) files')" "distinct (map sf_path (map (stage decode) files))"
    "distinct (map sf_path (map (stage decode) files'))"
    "d = (if files = [] then None else Some (sha (concat (map file_bytes staged))))"
    "d' = (if files' = [] then None else Some (sha (concat (map file_bytes staged'))))"
    using assms(1,2) staged_ok [of decode] by (auto simp: validate_lease_payload_iff comp_def)
  have msets: "mset staged = mset (map (stage decode) files)" "mset staged' = mset (map (stage decode) files')"
    unfolding ok(3,4) by (rule mset_sort)+
  show ?thesis
  proof
    assume "d = d'"
    then consider "files = []" "files' = []" | "sha (concat (map file_bytes staged)) = sha (concat (map file_bytes staged'))"
      unfolding ok(7,8) by (auto split: if_splits)
    then have "staged = staged'"
    proof cases
      case 1
      then show ?thesis unfolding ok(3,4) by simp
    next
      case 2
      then show ?thesis by (intro file_wire.stream_inj [OF ok(1,2) file_bytes_nonempty] assms(3))
    qed
    then show "mset (map (stage decode) files) = mset (map (stage decode) files')" by (simp only: flip: msets)
  next
    assume same: "mset (map (stage decode) files) = mset (map (stage decode) files')"
    then have "staged = staged'" unfolding ok(3,4) using ok(5,6) by (rule sort_key_unique)
    moreover have "files = [] \<longleftrightarrow> files' = []" using same by (metis Nil_is_map_conv mset_zero_iff)
    ultimately show "d = d'" unfolding ok(7,8) by simp
  qed
qed

theorem payload_digest_identifies_witness:
  "\<exists>staged d staged' d'. validate_lease_payload plain_decode bytes_str two_files = Inr (staged, d) \<and>
     validate_lease_payload plain_decode bytes_str (rev two_files) = Inr (staged', d') \<and> d = d'"
  using payload_digest_identifies [OF two_files_staged] two_files_staged by (simp add: rev_map)

end
