(* ===== verification/Pool_Invariant.thy ===== *)
theory Pool_Invariant
  imports Fork_Pool Transition
begin

text \<open>
  The invariant of the fork-pool database and its preservation by every transaction: unique keys,
  rows that belong to pools that exist, capacity limits, and each worker in at most one lease.
\<close>

section \<open>Well-formed databases\<close>

lemma find_key_iff:
  assumes "distinct (map key xs)"
  shows "find (\<lambda>x. key x = k) xs = Some x \<longleftrightarrow> x \<in> set xs \<and> key x = k"
  using assms by (induction xs) auto

lemma find_key_None: "find (\<lambda>x. key x = k) xs = None \<longleftrightarrow> k \<notin> key ` set xs"
  by (auto simp: find_None_iff)

lemma filter_map_length_le:
  assumes "\<And>x. x \<in> set xs \<Longrightarrow> P (f x) \<Longrightarrow> Q x"
  shows "length (filter P (map f xs)) \<le> length (filter Q xs)"
  using assms by (induction xs) (auto simp: le_Suc_eq)

lemma filter_filter_length_le: "length (filter P (filter Q xs)) \<le> length (filter P xs)"
  by (induction xs) auto

definition keys_ok :: "pool_db \<Rightarrow> bool" where
  "keys_ok db \<longleftrightarrow>
     distinct (map pool_name (db_pools db)) \<and> distinct (map slot_machine (db_slots db)) \<and>
     distinct (map lease_id (db_leases db)) \<and> distinct (map (\<lambda>l. (lease_pool l, lease_key l)) (db_leases db)) \<and>
     slot_pool ` set (db_slots db) \<subseteq> pool_name ` set (db_pools db) \<and>
     lease_pool ` set (db_leases db) \<subseteq> pool_name ` set (db_pools db)"

definition capacity_ok :: "pool_db \<Rightarrow> bool" where
  "capacity_ok db \<longleftrightarrow>
     (\<forall>p\<in>set (db_pools db). available_slots db (pool_name p) \<le> desired_ready p \<and>
        (\<forall>m. max_active p = Some m \<longrightarrow> active_leases db (pool_name p) \<le> m))"

definition once_ok :: "pool_db \<Rightarrow> bool" where
  "once_ok db \<longleftrightarrow>
     distinct (map lease_machine (db_leases db)) \<and>
     (\<forall>s\<in>set (db_slots db). available_slot s \<longrightarrow> slot_machine s \<notin> lease_machine ` set (db_leases db))"

definition pool_ok :: "pool_db \<Rightarrow> bool" where
  "pool_ok db \<longleftrightarrow> keys_ok db \<and> capacity_ok db \<and> once_ok db"

lemma pool_okD:
  assumes "pool_ok db"
  shows "distinct (map pool_name (db_pools db))" "distinct (map slot_machine (db_slots db))"
    "distinct (map lease_id (db_leases db))" "distinct (map (\<lambda>l. (lease_pool l, lease_key l)) (db_leases db))"
    "distinct (map lease_machine (db_leases db))"
  using assms by (auto simp: pool_ok_def keys_ok_def once_ok_def)

subsection \<open>Row updates that keep the invariant\<close>

text \<open>A slot row may be replaced by one of the same machine and pool that is available only if the old
  one was; a lease row by one of the same identity that is live only if the old one was.\<close>

definition slot_demotes :: "fork_slot \<Rightarrow> pool_db \<Rightarrow> bool" where
  "slot_demotes s db \<longleftrightarrow>
     (\<exists>t\<in>set (db_slots db). slot_machine t = slot_machine s \<and> slot_pool t = slot_pool s \<and> (available_slot s \<longrightarrow> available_slot t))"

definition same_claim :: "fork_lease \<Rightarrow> fork_lease \<Rightarrow> bool" where
  "same_claim l k \<longleftrightarrow>
     lease_id k = lease_id l \<and> lease_pool k = lease_pool l \<and> lease_key k = lease_key l \<and> lease_machine k = lease_machine l \<and>
     lease_assignment k = lease_assignment l \<and> lease_payload k = lease_payload l \<and> lease_ttl k = lease_ttl l"

definition lease_demotes :: "fork_lease \<Rightarrow> pool_db \<Rightarrow> bool" where
  "lease_demotes l db \<longleftrightarrow> (\<exists>k\<in>set (db_leases db). same_claim k l \<and> (live_lease l \<longrightarrow> live_lease k))"

lemma put_slot_rows [simp]:
  "db_pools (put_slot s db) = db_pools db" "db_leases (put_slot s db) = db_leases db" "db_vms (put_slot s db) = db_vms db"
  by (simp_all add: put_slot_def)

lemma put_lease_rows [simp]:
  "db_pools (put_lease l db) = db_pools db" "db_slots (put_lease l db) = db_slots db" "db_vms (put_lease l db) = db_vms db"
  by (simp_all add: put_lease_def)

lemma put_pool_rows [simp]:
  "db_slots (put_pool p db) = db_slots db" "db_leases (put_pool p db) = db_leases db" "db_vms (put_pool p db) = db_vms db"
  by (simp_all add: put_pool_def)

lemma put_vm_rows [simp]:
  "db_pools (put_vm m v db) = db_pools db" "db_slots (put_vm m v db) = db_slots db" "db_leases (put_vm m v db) = db_leases db"
  by (simp_all add: put_vm_def)

lemma put_rows:
  "db_slots (put_slot s db) = map (\<lambda>t. if slot_machine t = slot_machine s then s else t) (db_slots db)"
  "db_leases (put_lease l db) = map (\<lambda>k. if lease_id k = lease_id l then l else k) (db_leases db)"
  "db_pools (put_pool p db) = map (\<lambda>q. if pool_name q = pool_name p then p else q) (db_pools db)"
  by (simp_all add: put_slot_def put_lease_def put_pool_def)

lemma capacity_ok_le:
  assumes "capacity_ok db" "set (db_pools db') \<subseteq> set (db_pools db)" "\<And>n. available_slots db' n \<le> available_slots db n"
    "\<And>n. active_leases db' n \<le> active_leases db n"
  shows "capacity_ok db'"
  using assms unfolding capacity_ok_def by (meson order_trans subsetD)

lemma put_slot_keys [simp]: "map slot_machine (db_slots (put_slot s db)) = map slot_machine (db_slots db)"
  by (simp add: put_slot_def)

lemma unique_row:
  assumes "distinct (map key xs)" "x \<in> set xs" "y \<in> set xs" "key x = key y"
  shows "x = y"
  using assms by (metis distinct_map inj_onD)

lemma put_slot_pools:
  assumes "keys_ok db" "slot_demotes s db"
  shows "map slot_pool (db_slots (put_slot s db)) = map slot_pool (db_slots db)"
  using assms unique_row [where key = slot_machine and xs = "db_slots db"]
  by (fastforce simp: put_slot_def slot_demotes_def keys_ok_def)

lemma put_slot_available:
  assumes "keys_ok db" "slot_demotes s db" "t \<in> set (db_slots db)" "slot_machine t = slot_machine s" "available_slot s"
  shows "available_slot t \<and> slot_pool t = slot_pool s"
  using assms unique_row [where key = slot_machine and xs = "db_slots db"]
  by (fastforce simp: slot_demotes_def keys_ok_def)

lemma put_slot_ok:
  assumes "pool_ok db" "slot_demotes s db"
  shows "pool_ok (put_slot s db)"
proof -
  have k: "keys_ok db" and c: "capacity_ok db" and o: "once_ok db" using assms(1) by (simp_all add: pool_ok_def)
  have pools: "slot_pool ` set (db_slots (put_slot s db)) = slot_pool ` set (db_slots db)"
    using put_slot_pools [OF k assms(2)] by (metis list.set_map)
  have "keys_ok (put_slot s db)" using k pools by (simp add: keys_ok_def)
  moreover have "available_slots (put_slot s db) n \<le> available_slots db n" for n
    unfolding available_slots_def put_rows
    by (rule filter_map_length_le) (use put_slot_available [OF k assms(2)] in \<open>auto split: if_splits\<close>)
  then have "capacity_ok (put_slot s db)" by (intro capacity_ok_le [OF c]) (simp_all add: active_leases_def)
  moreover have "once_ok (put_slot s db)" using o put_slot_available [OF k assms(2)]
    by (auto simp: once_ok_def put_slot_def)
  ultimately show ?thesis by (simp add: pool_ok_def)
qed

lemma lease_demotes_row:
  assumes "keys_ok db" "lease_demotes l db" "k \<in> set (db_leases db)" "lease_id k = lease_id l"
  shows "same_claim k l \<and> (live_lease l \<longrightarrow> live_lease k)"
  using assms unique_row [where key = lease_id and xs = "db_leases db"]
  by (fastforce simp: lease_demotes_def keys_ok_def same_claim_def)

lemma put_lease_map:
  assumes "keys_ok db" "lease_demotes l db" "\<And>k k'. same_claim k k' \<Longrightarrow> f k' = f k"
  shows "map f (db_leases (put_lease l db)) = map f (db_leases db)"
  using lease_demotes_row [OF assms(1,2)] assms(3) by (auto simp: put_lease_def)

lemma put_lease_ok:
  assumes "pool_ok db" "lease_demotes l db"
  shows "pool_ok (put_lease l db)"
proof -
  have k: "keys_ok db" and c: "capacity_ok db" and o: "once_ok db" using assms(1) by (simp_all add: pool_ok_def)
  note same = put_lease_map [OF k assms(2)]
  have ids: "map lease_id (db_leases (put_lease l db)) = map lease_id (db_leases db)"
    "map (\<lambda>l. (lease_pool l, lease_key l)) (db_leases (put_lease l db)) = map (\<lambda>l. (lease_pool l, lease_key l)) (db_leases db)"
    "map lease_pool (db_leases (put_lease l db)) = map lease_pool (db_leases db)"
    "map lease_machine (db_leases (put_lease l db)) = map lease_machine (db_leases db)"
    by (rule same, simp add: same_claim_def)+
  then have sets: "lease_pool ` set (db_leases (put_lease l db)) = lease_pool ` set (db_leases db)"
    "lease_machine ` set (db_leases (put_lease l db)) = lease_machine ` set (db_leases db)"
    by (metis list.set_map)+
  have "keys_ok (put_lease l db)" using k by (simp add: keys_ok_def ids sets)
  moreover have "active_leases (put_lease l db) n \<le> active_leases db n" for n
    unfolding active_leases_def put_rows
    by (rule filter_map_length_le) (use lease_demotes_row [OF k assms(2)] in \<open>auto simp: same_claim_def split: if_splits\<close>)
  then have "capacity_ok (put_lease l db)" by (intro capacity_ok_le [OF c]) (simp_all add: available_slots_def)
  moreover have "once_ok (put_lease l db)" using o by (simp add: once_ok_def ids sets)
  ultimately show ?thesis by (simp add: pool_ok_def)
qed

lemma put_pool_ok:
  assumes "pool_ok db" "q \<in> set (db_pools db)" "pool_name p = pool_name q" "max_active p = max_active q"
    "available_slots db (pool_name q) \<le> desired_ready p"
  shows "pool_ok (put_pool p db)"
proof -
  have k: "keys_ok db" and c: "capacity_ok db" and o: "once_ok db" using assms(1) by (simp_all add: pool_ok_def)
  have names: "map pool_name (db_pools (put_pool p db)) = map pool_name (db_pools db)" by (simp add: put_pool_def)
  then have sets: "pool_name ` set (db_pools (put_pool p db)) = pool_name ` set (db_pools db)" by (metis list.set_map)
  have counts: "available_slots (put_pool p db) n = available_slots db n" "active_leases (put_pool p db) n = active_leases db n" for n
    by (simp_all add: available_slots_def active_leases_def)
  have "keys_ok (put_pool p db)" using k by (simp add: keys_ok_def names sets)
  moreover have "capacity_ok (put_pool p db)" using c assms(2-5)
    unfolding capacity_ok_def counts by (auto simp: put_rows)
  moreover have "once_ok (put_pool p db)" using o by (simp add: once_ok_def)
  ultimately show ?thesis by (simp add: pool_ok_def)
qed

subsection \<open>The transactions\<close>

lemma get_slot_iff:
  assumes "pool_ok db"
  shows "get_fork_pool_slot db m = Some s \<longleftrightarrow> s \<in> set (db_slots db) \<and> slot_machine s = m"
  unfolding get_fork_pool_slot_def using pool_okD(2) [OF assms] by (rule find_key_iff)

lemma get_pool_iff:
  assumes "pool_ok db"
  shows "get_fork_pool db n = Some p \<longleftrightarrow> p \<in> set (db_pools db) \<and> pool_name p = n"
  unfolding get_fork_pool_def using pool_okD(1) [OF assms] by (rule find_key_iff)

lemma get_lease_iff:
  assumes "pool_ok db"
  shows "get_fork_lease_by_id db i = Some l \<longleftrightarrow> l \<in> set (db_leases db) \<and> lease_id l = i"
  unfolding get_fork_lease_by_id_def using pool_okD(3) [OF assms] by (rule find_key_iff)

lemma retire_at_simps [simp]:
  "slot_machine (retire_at now s) = slot_machine s" "slot_pool (retire_at now s) = slot_pool s"
  "\<not> available_slot (retire_at now s)"
  by (simp_all add: retire_at_def available_slot_def)

text \<open>Retiring a list of slots: every row that exists stays, with its machine and pool.\<close>

definition slot_exists :: "pool_db \<Rightarrow> fork_slot \<Rightarrow> bool" where
  "slot_exists db s \<longleftrightarrow> (\<exists>t\<in>set (db_slots db). slot_machine t = slot_machine s \<and> slot_pool t = slot_pool s)"

lemma slot_exists_demotes: "slot_exists db s \<Longrightarrow> \<not> available_slot s \<Longrightarrow> slot_demotes s db"
  by (auto simp: slot_exists_def slot_demotes_def)

lemma slot_exists_put:
  assumes "slot_exists db s" "slot_exists db t" "keys_ok db"
  shows "slot_exists (put_slot t db) s"
proof -
  obtain u where u: "u \<in> set (db_slots db)" "slot_machine u = slot_machine s" "slot_pool u = slot_pool s"
    using assms(1) by (auto simp: slot_exists_def)
  obtain v where v: "v \<in> set (db_slots db)" "slot_machine v = slot_machine t" "slot_pool v = slot_pool t"
    using assms(2) by (auto simp: slot_exists_def)
  show ?thesis
  proof (cases "slot_machine u = slot_machine t")
    case True
    with u v assms(3) unique_row [of slot_machine "db_slots db" u v] have "slot_pool t = slot_pool s" by (auto simp: keys_ok_def)
    with u True show ?thesis by (force simp: slot_exists_def put_rows)
  next
    case False
    with u show ?thesis by (force simp: slot_exists_def put_rows)
  qed
qed

lemma fold_put_slot_ok:
  assumes "pool_ok db" "\<forall>s\<in>set ss. slot_exists db s" "\<And>s. slot_machine (f s) = slot_machine s \<and> slot_pool (f s) = slot_pool s \<and> \<not> available_slot (f s)"
  shows "pool_ok (fold (\<lambda>s. put_slot (f s)) ss db) \<and> db_leases (fold (\<lambda>s. put_slot (f s)) ss db) = db_leases db \<and>
    db_pools (fold (\<lambda>s. put_slot (f s)) ss db) = db_pools db \<and> (\<forall>t. slot_exists db t \<longrightarrow> slot_exists (fold (\<lambda>s. put_slot (f s)) ss db) t)"
  using assms(1,2)
proof (induction ss arbitrary: db)
  case (Cons s ss)
  have ex: "slot_exists db (f s)" using Cons.prems(2) assms(3) [of s] by (auto simp: slot_exists_def)
  have k: "keys_ok db" using Cons.prems(1) by (simp add: pool_ok_def)
  have ok: "pool_ok (put_slot (f s) db)" using put_slot_ok [OF Cons.prems(1) slot_exists_demotes [OF ex]] assms(3) by simp
  have keep: "slot_exists (put_slot (f s) db) t" if "slot_exists db t" for t using slot_exists_put [OF that ex k] .
  from Cons.IH [OF ok] keep Cons.prems(2) show ?case by auto
qed simp

lemma slot_exists_member [simp]: "s \<in> set (db_slots db) \<Longrightarrow> slot_exists db s"
  by (auto simp: slot_exists_def)

subsubsection \<open>Pools and slots\<close>

lemma insert_pool_ok:
  assumes "pool_ok db"
  shows "pool_ok (snd (insert_fork_pool_if_not_exists p db))"
proof (cases "get_fork_pool db (pool_name p)")
  case None
  then have new: "pool_name p \<notin> pool_name ` set (db_pools db)" unfolding get_fork_pool_def by (simp add: find_key_None)
  have k: "keys_ok db" and c: "capacity_ok db" and o: "once_ok db" using assms by (simp_all add: pool_ok_def)
  have "slot_pool s \<noteq> pool_name p" if "s \<in> set (db_slots db)" for s
    using that k new unfolding keys_ok_def by (metis imageI subsetD)
  moreover have "lease_pool l \<noteq> pool_name p" if "l \<in> set (db_leases db)" for l
    using that k new unfolding keys_ok_def by (metis imageI subsetD)
  ultimately have "available_slots db (pool_name p) = 0" "active_leases db (pool_name p) = 0"
    by (simp_all add: available_slots_def active_leases_def filter_empty_conv)
  then show ?thesis using k c o new None
    by (auto simp: insert_fork_pool_if_not_exists_def pool_ok_def keys_ok_def capacity_ok_def once_ok_def
        available_slots_def active_leases_def)
qed (use assms in \<open>simp add: insert_fork_pool_if_not_exists_def\<close>)

lemma available_after_retire:
  "available_slots (fold (\<lambda>s. put_slot (retire_at now s)) ss db) n \<le>
     length (filter (\<lambda>s. slot_machine s \<notin> slot_machine ` set ss) (filter (\<lambda>s. slot_pool s = n \<and> available_slot s) (db_slots db)))"
proof (induction ss arbitrary: db)
  case Nil
  then show ?case by (simp add: available_slots_def)
next
  case (Cons s ss)
  have "available_slots (fold (\<lambda>s. put_slot (retire_at now s)) ss (put_slot (retire_at now s) db)) n \<le>
    length (filter (\<lambda>s. (slot_pool s = n \<and> available_slot s) \<and> slot_machine s \<notin> slot_machine ` set ss)
      (map (\<lambda>t. if slot_machine t = slot_machine s then retire_at now s else t) (db_slots db)))"
    using Cons.IH [of "put_slot (retire_at now s) db"] by (simp add: put_rows)
  also have "\<dots> \<le> length (filter (\<lambda>t. (slot_pool t = n \<and> available_slot t) \<and> slot_machine t \<notin> slot_machine ` set (s # ss)) (db_slots db))"
    by (rule filter_map_length_le) (auto split: if_splits)
  finally show ?case by simp
qed

lemma available_after_surplus:
  assumes "mset xs = mset (filter (\<lambda>s. slot_pool s = n \<and> available_slot s) (db_slots db))"
  shows "available_slots (fold (\<lambda>s. put_slot (retire_at now s)) (take (length xs - d) xs) db) n \<le> d"
proof -
  define P where "P s \<longleftrightarrow> slot_machine s \<notin> slot_machine ` set (take (length xs - d) xs)" for s :: fork_slot
  let ?ss = "take (length xs - d) xs"
  have "mset (filter P xs) = mset (filter P (filter (\<lambda>s. slot_pool s = n \<and> available_slot s) (db_slots db)))"
    unfolding mset_filter assms ..
  then have "length (filter P (filter (\<lambda>s. slot_pool s = n \<and> available_slot s) (db_slots db))) = length (filter P xs)"
    by (rule mset_eq_length [symmetric])
  also have "\<dots> = length (filter P ?ss) + length (filter P (drop (length xs - d) xs))"
    unfolding length_append [symmetric] filter_append [symmetric] by simp
  also have "filter P ?ss = []" by (auto simp: filter_empty_conv P_def)
  finally have eq: "length (filter P (filter (\<lambda>s. slot_pool s = n \<and> available_slot s) (db_slots db))) =
    length (filter P (drop (length xs - d) xs))" by simp
  have "length (filter P (drop (length xs - d) xs)) \<le> d"
    by (rule order_trans [OF length_filter_le]) simp
  then show ?thesis using available_after_retire [of now ?ss db n] eq unfolding P_def by linarith
qed

lemma put_pool_slot_commute: "put_slot s (put_pool p db) = put_pool p (put_slot s db)"
  by (simp add: put_slot_def put_pool_def)

lemma fold_put_slot_pool:
  "fold (\<lambda>s. put_slot (f s)) ss (put_pool p db) = put_pool p (fold (\<lambda>s. put_slot (f s)) ss db)"
  by (induction ss arbitrary: db) (simp_all add: put_pool_slot_commute)

lemma resize_ok:
  assumes "pool_ok db"
  shows "pool_ok (snd (resize_fork_pool n d now db))"
proof (cases "fst (resize_fork_pool n d now db) = None \<or> (\<exists>p. get_fork_pool db n = Some p \<and> deleting p)")
  case True
  with assms show ?thesis by (auto simp: resize_fork_pool_def Let_def split: option.splits)
next
  case False
  then obtain pool where pool: "get_fork_pool db n = Some pool" "\<not> deleting pool"
    by (auto simp: resize_fork_pool_def split: option.splits)
  define xs where "xs = sort_key (\<lambda>s. (if slot_status s = Provisioning then 0 else 1 :: nat, slot_machine s))
    (filter (\<lambda>s. slot_pool s = n \<and> available_slot s) (db_slots db))"
  let ?f = "fold (\<lambda>s. put_slot (retire_at now s)) (take (length xs - d) xs)"
  have p: "pool \<in> set (db_pools db)" "pool_name pool = n" using pool(1) get_pool_iff [OF assms] by auto
  have "set (take (length xs - d) xs) \<subseteq> set (db_slots db)" using set_take_subset [of "length xs - d" xs] by (auto simp: xs_def)
  then have ex: "\<forall>s\<in>set (take (length xs - d) xs). slot_exists db s" by (meson slot_exists_member subsetD)
  have ok: "pool_ok (?f db)" "db_pools (?f db) = db_pools db"
    using fold_put_slot_ok [OF assms ex, of "retire_at now"] by simp_all
  have "available_slots (?f db) (pool_name pool) \<le> d"
    unfolding p(2) by (rule available_after_surplus) (simp add: xs_def)
  then have "pool_ok (put_pool (pool\<lparr>desired_ready := d\<rparr>) (?f db))"
    using p ok by (intro put_pool_ok [where q = pool]) simp_all
  moreover have "snd (resize_fork_pool n d now db) = put_pool (pool\<lparr>desired_ready := d\<rparr>) (?f db)"
    using pool by (simp add: resize_fork_pool_def Let_def fold_put_slot_pool del: length_sort flip: xs_def)
  ultimately show ?thesis by simp
qed

lemma reserve_ok:
  assumes "pool_ok db" "m \<notin> lease_machine ` set (db_leases db)"
  shows "pool_ok (snd (reserve_fork_pool_slot n m now db))"
proof -
  have k: "keys_ok db" and c: "capacity_ok db" and o: "once_ok db" using assms by (simp_all add: pool_ok_def)
  define slot where "slot = \<lparr>slot_pool = n, slot_machine = m, slot_status = Provisioning, slot_lease_id = None,
    slot_created_at = now, slot_updated_at = now, slot_error = None\<rparr>"
  show ?thesis
  proof (cases "fst (reserve_fork_pool_slot n m now db)")
    case True
    then obtain pool where pool: "get_fork_pool db n = Some pool" "available_slots db n < desired_ready pool"
      "get_fork_pool_slot db m = None" and db': "snd (reserve_fork_pool_slot n m now db) = db\<lparr>db_slots := db_slots db @ [slot]\<rparr>"
      by (auto simp: reserve_fork_pool_slot_def slot_def Let_def split: option.splits if_splits)
    have new: "m \<notin> slot_machine ` set (db_slots db)" using pool(3) unfolding get_fork_pool_slot_def by (simp add: find_key_None)
    have p: "pool \<in> set (db_pools db)" "pool_name pool = n" using pool(1) get_pool_iff [OF assms(1)] by auto
    have same: "q = pool" if "q \<in> set (db_pools db)" "pool_name q = n" for q
      using unique_row [OF pool_okD(1) [OF assms(1)] that(1) p(1)] that(2) p(2) by simp
    have "available_slots (db\<lparr>db_slots := db_slots db @ [slot]\<rparr>) q = available_slots db q + (if q = n then 1 else 0)" for q
      by (simp add: available_slots_def slot_def available_slot_def)
    then have "capacity_ok (db\<lparr>db_slots := db_slots db @ [slot]\<rparr>)" using c pool(2) same
      by (auto simp: capacity_ok_def active_leases_def)
    moreover have "keys_ok (db\<lparr>db_slots := db_slots db @ [slot]\<rparr>)" using k new p by (auto simp: keys_ok_def slot_def)
    moreover have "once_ok (db\<lparr>db_slots := db_slots db @ [slot]\<rparr>)" using o assms(2) by (auto simp: once_ok_def slot_def)
    ultimately show ?thesis by (simp add: db' pool_ok_def)
  next
    case False
    then have "snd (reserve_fork_pool_slot n m now db) = db"
      by (auto simp: reserve_fork_pool_slot_def Let_def split: option.splits if_splits)
    with assms(1) show ?thesis by simp
  qed
qed

lemma update_slot_ok:
  assumes "pool_ok db" "next = Provisioning \<or> next = ReadySlot \<Longrightarrow> expected = Provisioning \<or> expected = ReadySlot"
  shows "pool_ok (snd (update_fork_pool_slot_state m expected next now err db))"
proof (cases "find (\<lambda>s. slot_machine s = m \<and> slot_status s = expected) (db_slots db)")
  case (Some slot)
  then have mem: "slot \<in> set (db_slots db)" "slot_status slot = expected" by (auto simp: find_Some_iff)
  have "slot_demotes (slot\<lparr>slot_status := next, slot_updated_at := now, slot_error := err\<rparr>) db"
    unfolding slot_demotes_def using mem assms(2) by (intro bexI [OF _ mem(1)]) (auto simp: available_slot_def)
  from put_slot_ok [OF assms(1) this] Some show ?thesis by (simp add: update_fork_pool_slot_state_def)
qed (use assms in \<open>simp add: update_fork_pool_slot_state_def\<close>)

lemma retire_slot_ok:
  assumes "pool_ok db"
  shows "pool_ok (snd (mark_fork_pool_slot_retiring m now err db))"
proof (cases "get_fork_pool_slot db m")
  case (Some slot)
  then have mem: "slot \<in> set (db_slots db)" using get_slot_iff [OF assms] by simp
  have "slot_demotes (slot\<lparr>slot_status := Retiring, slot_updated_at := now, slot_error := err\<rparr>) db"
    unfolding slot_demotes_def by (intro bexI [OF _ mem]) (auto simp: available_slot_def)
  from put_slot_ok [OF assms this] Some show ?thesis by (simp add: mark_fork_pool_slot_retiring_def)
qed (use assms in \<open>simp add: mark_fork_pool_slot_retiring_def\<close>)

lemma remove_slot_ok:
  assumes "pool_ok db"
  shows "pool_ok (snd (remove_fork_pool_slot m db))"
proof -
  have k: "keys_ok db" and c: "capacity_ok db" and o: "once_ok db" using assms by (simp_all add: pool_ok_def)
  let ?db = "db\<lparr>db_slots := filter (\<lambda>s. slot_machine s \<noteq> m) (db_slots db)\<rparr>"
  have "available_slots ?db n \<le> available_slots db n" for n
    using filter_filter_length_le [of _ "\<lambda>s. slot_machine s \<noteq> m"] by (simp add: available_slots_def del: filter_filter)
  then have "capacity_ok ?db" by (intro capacity_ok_le [OF c]) (simp_all add: active_leases_def)
  moreover have "keys_ok ?db" using k by (auto simp: keys_ok_def distinct_map_filter)
  moreover have "once_ok ?db" using o by (auto simp: once_ok_def)
  ultimately show ?thesis by (simp add: remove_fork_pool_slot_def pool_ok_def)
qed

subsubsection \<open>Claims\<close>

text \<open>Looking for a held worker retires the ready slots that have none; a selected slot is one of the
  offered rows, with a held machine of the pool's golden.\<close>

lemma select_ready_ok:
  "select_ready pool now ss db = (r, db1) \<Longrightarrow> pool_ok db \<Longrightarrow> \<forall>s\<in>set ss. slot_exists db s \<Longrightarrow>
   pool_ok db1 \<and> db_leases db1 = db_leases db \<and> db_pools db1 = db_pools db \<and> db_vms db1 = db_vms db \<and>
   (\<forall>t. slot_exists db t \<longrightarrow> slot_exists db1 t) \<and>
   (\<forall>s vm. r = Some (s, vm) \<longrightarrow> s \<in> set ss \<and> map_of (db_vms db) (slot_machine s) = Some vm \<and> held_for pool vm)"
proof (induction ss arbitrary: db)
  case (Cons s ss)
  define u where "u = (retire_at now s)\<lparr>slot_error := Some ''ready slot no longer has a matching held VM''\<rparr>"
  have f: "slot_machine u = slot_machine s \<and> slot_pool u = slot_pool s \<and> \<not> available_slot u"
    by (simp add: u_def available_slot_def retire_at_def)
  have ex: "slot_exists db u" using Cons.prems(3) f by (auto simp: slot_exists_def)
  have k: "keys_ok db" using Cons.prems(2) by (simp add: pool_ok_def)
  have ok: "pool_ok (put_slot u db)" using put_slot_ok [OF Cons.prems(2) slot_exists_demotes [OF ex]] f by simp
  have keep: "slot_exists (put_slot u db) t" if "slot_exists db t" for t using slot_exists_put [OF that ex k] .
  show ?case
  proof (cases "\<exists>vm. map_of (db_vms db) (slot_machine s) = Some vm \<and> held_for pool vm")
    case True
    with Cons.prems show ?thesis by (auto simp: Let_def)
  next
    case False
    then have rec: "select_ready pool now ss (put_slot u db) = (r, db1)"
      using Cons.prems(1) by (auto simp: Let_def u_def split: option.splits if_splits)
    from Cons.IH [OF rec ok] keep Cons.prems(3) show ?thesis by auto
  qed
qed simp

lemma claim_cases:
  assumes "claim_fork_pool_slot c db = (r, db')" "pool_ok db"
  obtains
    (claimed) pool slot vm db1 lease where "r = Inr (Claimed lease)" "get_fork_pool db (claim_pool c) = Some pool" "\<not> deleting pool"
      "\<And>m. claim_max_active pool (claim_limit c) = Some m \<Longrightarrow> active_leases db (claim_pool c) < m"
      "\<not> device_full db (claim_pool c) pool (claim_limit c)"
      "slot \<in> set (db_slots db)" "slot_pool slot = claim_pool c" "slot_status slot = ReadySlot"
      "map_of (db_vms db) (slot_machine slot) = Some vm" "held_for pool vm"
      "pool_ok db1" "db_leases db1 = db_leases db" "db_pools db1 = db_pools db" "db_vms db1 = db_vms db" "slot_exists db1 slot"
      "lease_id lease = claim_lease_id c" "lease_pool lease = claim_pool c" "lease_machine lease = slot_machine slot"
      "lease_key lease = claim_key c" "lease_status lease = LeaseActivating"
      "claim_lease_id c \<notin> lease_id ` set (db_leases db)"
      "\<And>l. l \<in> set (db_leases db) \<Longrightarrow> (lease_pool l, lease_key l) \<noteq> (claim_pool c, claim_key c)"
      "db' = (put_slot (slot\<lparr>slot_status := Activating, slot_lease_id := Some (claim_lease_id c), slot_updated_at := claim_now c\<rparr>)
        (put_vm (slot_machine slot) (record_fork_activation (claim_assignment c)
          (merge_fork_env (fork_env vm) (claim_assignment c)) vm) db1))\<lparr>db_leases := db_leases db @ [lease]\<rparr>"
  | (refused) "\<And>lease. r \<noteq> Inr (Claimed lease)" "pool_ok db'" "db_leases db' = db_leases db" "db_pools db' = db_pools db" "db_vms db' = db_vms db"
proof -
  let ?n = "claim_pool c" and ?now = "claim_now c"
  let ?ready = "sort_key slot_machine (filter (\<lambda>s. slot_pool s = ?n \<and> slot_status s = ReadySlot) (db_slots db))"
  have ex: "\<forall>s\<in>set ?ready. slot_exists db s" by simp
  show thesis
  proof (cases "\<exists>lease. r = Inr (Claimed lease)")
    case False
    show thesis
    proof (rule refused)
      show "r \<noteq> Inr (Claimed lease)" for lease using False by blast
      have "db' = db \<or> (\<exists>pool s. select_ready pool ?now ?ready db = (s, db'))"
        using assms(1) False by (auto simp: claim_fork_pool_slot_def Let_def split: option.splits if_splits prod.splits)
      then have "pool_ok db' \<and> db_leases db' = db_leases db \<and> db_pools db' = db_pools db \<and> db_vms db' = db_vms db"
        using select_ready_ok [OF _ assms(2) ex] assms(2) by blast
      then show "pool_ok db'" "db_leases db' = db_leases db" "db_pools db' = db_pools db" "db_vms db' = db_vms db" by auto
    qed
  next
    case True
    then obtain lease where r: "r = Inr (Claimed lease)" by blast
    obtain pool slot vm db1 where parts: "find (\<lambda>l. lease_pool l = ?n \<and> lease_key l = claim_key c) (db_leases db) = None"
      "get_fork_pool db ?n = Some pool" "\<not> deleting pool"
      "\<not> (case claim_max_active pool (claim_limit c) of Some m \<Rightarrow> m \<le> active_leases db ?n | None \<Rightarrow> False)"
      "\<not> device_full db ?n pool (claim_limit c)" "select_ready pool ?now ?ready db = (Some (slot, vm), db1)"
      "get_fork_lease_by_id db (claim_lease_id c) = None"
      using assms(1) r by (auto simp: claim_fork_pool_slot_def Let_def split: option.splits if_splits prod.splits)
    note sel = select_ready_ok [OF parts(6) assms(2) ex]
    have "lease = \<lparr>lease_id = claim_lease_id c, lease_pool = ?n, lease_machine = slot_machine slot, lease_key = claim_key c,
        lease_status = LeaseActivating, lease_assignment = claim_assignment c, lease_payload = claim_payload c,
        lease_created_at = ?now, lease_updated_at = ?now, lease_expires_at = u64_add ?now FORK_LEASE_ACTIVATION_GRACE_SECS,
        lease_ttl = claim_ttl c, lease_error = None\<rparr>"
      "db' = (put_slot (slot\<lparr>slot_status := Activating, slot_lease_id := Some (claim_lease_id c), slot_updated_at := ?now\<rparr>)
        (put_vm (slot_machine slot) (record_fork_activation (claim_assignment c)
          (merge_fork_env (fork_env vm) (claim_assignment c)) vm) db1))\<lparr>db_leases := db_leases db @ [lease]\<rparr>"
      using assms(1) r parts sel
      by (auto simp: claim_fork_pool_slot_def Let_def split: option.splits if_splits)
    moreover have "slot_exists db1 slot" using sel ex by blast
    ultimately show thesis using sel parts
      by (intro claimed [of lease pool slot vm db1] r)
        (auto simp: find_None_iff get_fork_lease_by_id_def split: option.splits)
  qed
qed

lemma active_leases_append:
  "active_leases (db\<lparr>db_leases := db_leases db @ [l]\<rparr>) n = active_leases db n + (if lease_pool l = n \<and> live_lease l then 1 else 0)"
  by (simp add: active_leases_def)

lemma claim_max_active_le: "max_active pool = Some m \<Longrightarrow> \<exists>m'. claim_max_active pool limit = Some m' \<and> m' \<le> m"
  by (cases limit) (auto simp: claim_max_active_def)

text \<open>Adding a lease for a machine no lease names and no available slot has.\<close>

lemma add_lease_ok:
  assumes "pool_ok db" "pool \<in> set (db_pools db)" "pool_name pool = lease_pool l"
    "\<And>m. max_active pool = Some m \<Longrightarrow> active_leases db (lease_pool l) < m"
    "lease_id l \<notin> lease_id ` set (db_leases db)"
    "\<And>k. k \<in> set (db_leases db) \<Longrightarrow> (lease_pool k, lease_key k) \<noteq> (lease_pool l, lease_key l)"
    "lease_machine l \<notin> lease_machine ` set (db_leases db)"
    "\<And>s. s \<in> set (db_slots db) \<Longrightarrow> available_slot s \<Longrightarrow> slot_machine s \<noteq> lease_machine l"
  shows "pool_ok (db\<lparr>db_leases := db_leases db @ [l]\<rparr>)"
proof -
  let ?db = "db\<lparr>db_leases := db_leases db @ [l]\<rparr>"
  have k: "keys_ok db" and c: "capacity_ok db" and o: "once_ok db" using assms(1) by (simp_all add: pool_ok_def)
  have "(lease_pool l, lease_key l) \<notin> (\<lambda>l. (lease_pool l, lease_key l)) ` set (db_leases db)" using assms(6) by force
  moreover have "lease_pool l \<in> pool_name ` set (db_pools db)" using assms(2,3) by (metis imageI)
  ultimately have "keys_ok ?db" using k assms(5) by (simp add: keys_ok_def)
  moreover have "p = pool" if "p \<in> set (db_pools db)" "pool_name p = lease_pool l" for p
    using unique_row [OF pool_okD(1) [OF assms(1)] that(1) assms(2)] that(2) assms(3) by simp
  then have "capacity_ok ?db" using c assms(4) unfolding capacity_ok_def active_leases_append
    by (auto simp: available_slots_def Suc_le_eq)
  moreover have "once_ok ?db" using o assms(7,8) by (auto simp: once_ok_def)
  ultimately show ?thesis by (simp add: pool_ok_def)
qed

lemma pool_ok_vms: "db_pools db' = db_pools db \<Longrightarrow> db_slots db' = db_slots db \<Longrightarrow> db_leases db' = db_leases db \<Longrightarrow> pool_ok db' = pool_ok db"
  by (simp add: pool_ok_def keys_ok_def capacity_ok_def once_ok_def available_slots_def active_leases_def)

lemma claim_ok:
  assumes "pool_ok db"
  shows "pool_ok (snd (claim_fork_pool_slot c db))"
proof -
  obtain r db' where cl: "claim_fork_pool_slot c db = (r, db')" by (cases "claim_fork_pool_slot c db")
  from cl assms show ?thesis
  proof (cases rule: claim_cases)
    case (claimed pool slot vm db1 lease)
    define s where "s = slot\<lparr>slot_status := Activating, slot_lease_id := Some (claim_lease_id c), slot_updated_at := claim_now c\<rparr>"
    define dbv where "dbv = put_vm (slot_machine slot) (record_fork_activation (claim_assignment c)
          (merge_fork_env (fork_env vm) (claim_assignment c)) vm) db1"
    define db2 where "db2 = put_slot s dbv"
    have v: "pool_ok dbv" using claimed(11) pool_ok_vms [of dbv db1] by (simp add: dbv_def)
    have s: "slot_machine s = slot_machine slot" "slot_pool s = slot_pool slot" "\<not> available_slot s"
      by (simp_all add: s_def available_slot_def)
    have "slot_exists dbv s" using claimed(15) s by (simp add: slot_exists_def dbv_def)
    from put_slot_ok [OF v slot_exists_demotes [OF this s(3)]] have ok: "pool_ok db2" by (simp add: db2_def)
    have rows: "db_leases db2 = db_leases db" "db_pools db2 = db_pools db"
      using claimed(12,13) by (simp_all add: db2_def dbv_def)
    have pool: "pool \<in> set (db_pools db)" "pool_name pool = claim_pool c" using claimed(2) get_pool_iff [OF assms] by auto
    have "available_slot slot" using claimed(8) by (simp add: available_slot_def)
    then have fresh: "slot_machine slot \<notin> lease_machine ` set (db_leases db)"
      using assms claimed(6) by (auto simp: pool_ok_def once_ok_def)
    have "pool_ok (db2\<lparr>db_leases := db_leases db2 @ [lease]\<rparr>)"
    proof (rule add_lease_ok [OF ok, of pool])
      show "active_leases db2 (lease_pool lease) < m" if "max_active pool = Some m" for m
        using claim_max_active_le [OF that, of "claim_limit c"] claimed(4) claimed(17) rows(1) by (auto simp: active_leases_def)
      show "slot_machine t \<noteq> lease_machine lease" if "t \<in> set (db_slots db2)" "available_slot t" for t
        using that s claimed(18) by (auto simp: db2_def put_rows split: if_splits)
    qed (use pool claimed rows fresh in auto)
    then show ?thesis using cl claimed rows by (simp add: db2_def dbv_def s_def)
  qed (simp add: cl)
qed

subsubsection \<open>Leases\<close>

lemma settle_slot_ok:
  assumes "pool_ok db" "\<not> available_slot (s\<lparr>slot_status := st, slot_updated_at := now, slot_error := err\<rparr>)" "s \<in> set (db_slots db)"
  shows "pool_ok (put_slot (s\<lparr>slot_status := st, slot_updated_at := now, slot_error := err\<rparr>) db)"
  using assms by (intro put_slot_ok slot_exists_demotes) (auto simp: slot_exists_def)

lemma transition_ok:
  assumes "pool_ok db" "expected = LeaseActivating \<or> expected = LeaseActive" "slot_next = Leased \<or> slot_next = Retiring"
  shows "pool_ok (snd (transition_fork_lease i expected next slot_next now err db))"
proof (cases "\<exists>lease. get_fork_lease_by_id db i = Some lease \<and> lease_status lease = expected")
  case True
  then obtain lease where lease: "get_fork_lease_by_id db i = Some lease" "lease_status lease = expected" by blast
  define l3 where "l3 = transitioned expected next now err lease"
  have mem: "lease \<in> set (db_leases db)" using lease(1) get_lease_iff [OF assms(1)] by simp
  have same: "same_claim lease l3" by (simp add: l3_def transitioned_def same_claim_def Let_def)
  have "live_lease lease" using lease(2) assms(2) by (auto simp: live_lease_def)
  then have "lease_demotes l3 db" unfolding lease_demotes_def using mem same by blast
  from put_lease_ok [OF assms(1) this] have ok: "pool_ok (put_lease l3 db)" .
  have db': "snd (transition_fork_lease i expected next slot_next now err db) =
    (case get_fork_pool_slot (put_lease l3 db) (lease_machine lease) of None \<Rightarrow> put_lease l3 db
     | Some slot \<Rightarrow> put_slot (slot\<lparr>slot_status := slot_next, slot_updated_at := now, slot_error := err\<rparr>) (put_lease l3 db))"
    unfolding l3_def using lease by (simp add: transition_fork_lease_def Let_def)
  show ?thesis
  proof (cases "get_fork_pool_slot (put_lease l3 db) (lease_machine lease)")
    case (Some slot)
    then have "slot \<in> set (db_slots (put_lease l3 db))" using get_slot_iff [OF ok] by simp
    from settle_slot_ok [OF ok _ this] assms(3) Some show ?thesis by (auto simp: db' available_slot_def)
  qed (use ok in \<open>simp add: db'\<close>)
next
  case False
  with assms(1) show ?thesis by (auto simp: transition_fork_lease_def split: option.splits)
qed

lemma heartbeat_ok:
  assumes "pool_ok db"
  shows "pool_ok (snd (heartbeat_fork_lease n i now db))"
proof (cases "get_fork_lease db n i")
  case (Some lease)
  then have mem: "lease \<in> set (db_leases db)" by (auto simp: get_fork_lease_def find_Some_iff)
  let ?l = "lease\<lparr>lease_updated_at := now, lease_expires_at := u64_add now (lease_ttl lease)\<rparr>"
  have "lease_demotes ?l db" unfolding lease_demotes_def
    by (rule bexI [OF _ mem]) (simp add: same_claim_def live_lease_def)
  from put_lease_ok [OF assms this] Some assms show ?thesis by (simp add: heartbeat_fork_lease_def Let_def)
qed (use assms in \<open>simp add: heartbeat_fork_lease_def\<close>)

lemma complete_ok: "pool_ok db \<Longrightarrow> pool_ok (snd (complete_fork_lease n i now db))"
  by (auto simp: complete_fork_lease_def transition_ok split: option.splits)

text \<open>Ending a list of leases, whatever their order, keeps every other row of the lease table.\<close>

definition lease_exists :: "pool_db \<Rightarrow> fork_lease \<Rightarrow> bool" where
  "lease_exists db l \<longleftrightarrow> (\<exists>k\<in>set (db_leases db). same_claim k l)"

lemma lease_exists_demotes: "lease_exists db l \<Longrightarrow> \<not> live_lease l \<Longrightarrow> lease_demotes l db"
  by (auto simp: lease_exists_def lease_demotes_def)

lemma same_claim_trans: "same_claim a b \<Longrightarrow> same_claim b c \<Longrightarrow> same_claim a c"
  and same_claim_sym: "same_claim a b \<Longrightarrow> same_claim b a"
  by (simp_all add: same_claim_def)

lemma lease_exists_put:
  assumes "keys_ok db" "lease_demotes l db" "lease_exists db k"
  shows "lease_exists (put_lease l db) k"
proof -
  obtain j where j: "j \<in> set (db_leases db)" "same_claim j k" using assms(3) by (auto simp: lease_exists_def)
  show ?thesis
  proof (cases "lease_id j = lease_id l")
    case True
    with lease_demotes_row [OF assms(1,2) j(1)] j(2) have "same_claim l k" by (blast intro: same_claim_trans same_claim_sym)
    with j(1) True show ?thesis by (force simp: lease_exists_def put_rows)
  next
    case False
    with j show ?thesis by (force simp: lease_exists_def put_rows)
  qed
qed

lemma expire_one_ok:
  assumes "pool_ok db" "lease_exists db l"
  shows "pool_ok (expire_one now l db) \<and> (\<forall>k. lease_exists db k \<longrightarrow> lease_exists (expire_one now l db) k)"
proof -
  let ?l = "l\<lparr>lease_status := Expired, lease_updated_at := now\<rparr>"
  have d: "lease_demotes ?l db"
    using assms(2) by (intro lease_exists_demotes) (auto simp: lease_exists_def same_claim_def live_lease_def)
  have ok: "pool_ok (put_lease ?l db)" using put_lease_ok [OF assms(1) d] .
  have keep: "lease_exists (put_lease ?l db) k" if "lease_exists db k" for k
    using lease_exists_put [OF _ d that] assms(1) by (simp add: pool_ok_def)
  show ?thesis
  proof (cases "get_fork_pool_slot (put_lease ?l db) (lease_machine l)")
    case (Some slot)
    then have "slot \<in> set (db_slots (put_lease ?l db))" using get_slot_iff [OF ok] by simp
    then have "slot_demotes (retire_at now slot) (put_lease ?l db)"
      by (intro slot_exists_demotes) (auto simp: slot_exists_def)
    from put_slot_ok [OF ok this] keep Some show ?thesis
      by (auto simp: expire_one_def Let_def lease_exists_def)
  qed (use ok keep in \<open>simp add: expire_one_def\<close>)
qed

lemma fold_expire_ok:
  "pool_ok db \<Longrightarrow> \<forall>l\<in>set ls. lease_exists db l \<Longrightarrow> pool_ok (fold (expire_one now) ls db)"
proof (induction ls arbitrary: db)
  case (Cons l ls)
  with expire_one_ok [of db l now] show ?case by simp
qed simp

lemma lease_exists_member [simp]: "l \<in> set (db_leases db) \<Longrightarrow> lease_exists db l"
  by (auto simp: lease_exists_def same_claim_def)

lemma expire_ok: "pool_ok db \<Longrightarrow> pool_ok (snd (expire_fork_leases now db))"
  unfolding expire_fork_leases_def by (simp add: fold_expire_ok overdue_def)

subsubsection \<open>Deletion\<close>

lemma fold_cancel_ok:
  "pool_ok db \<Longrightarrow> \<forall>l\<in>set ls. lease_exists db l \<Longrightarrow>
   pool_ok (fold (\<lambda>l. put_lease (l\<lparr>lease_status := Cancelled, lease_updated_at := now\<rparr>)) ls db)"
proof (induction ls arbitrary: db)
  case (Cons l ls)
  let ?l = "l\<lparr>lease_status := Cancelled, lease_updated_at := now\<rparr>"
  have d: "lease_demotes ?l db"
    using Cons.prems(2) by (intro lease_exists_demotes) (auto simp: lease_exists_def same_claim_def live_lease_def)
  have "lease_exists (put_lease ?l db) k" if "lease_exists db k" for k
    using lease_exists_put [OF _ d that] Cons.prems(1) by (simp add: pool_ok_def)
  with Cons.IH [OF put_lease_ok [OF Cons.prems(1) d]] Cons.prems(2) show ?case by simp
qed simp

lemma fold_put_slot_leases [simp]: "db_leases (fold (\<lambda>s. put_slot (f s)) ss db) = db_leases db"
  by (induction ss arbitrary: db) simp_all

lemma deletion_started_ok:
  assumes "pool_ok db" "get_fork_pool db n = Some pool"
    "db1 = put_pool (pool\<lparr>deleting := True\<rparr>) db"
    "db2 = fold (\<lambda>s. put_slot (retire_at now s)) (filter (\<lambda>s. slot_pool s = n) (db_slots db1)) db1"
  shows "pool_ok db2" "db_leases db2 = db_leases db"
proof -
  have p: "pool \<in> set (db_pools db)" using assms(2) get_pool_iff [OF assms(1)] by auto
  then have "pool_ok db1" unfolding assms(3) using assms(1)
    by (intro put_pool_ok [where q = pool]) (auto simp: pool_ok_def capacity_ok_def)
  then show "pool_ok db2" unfolding assms(4) by (intro fold_put_slot_ok [THEN conjunct1]) auto
  show "db_leases db2 = db_leases db" by (simp add: assms(3,4))
qed

lemma begin_delete_cases:
  assumes "pool_ok db"
  obtains (refused) "snd (begin_delete_fork_pool n force now db) = db"
  | (started) db2 where "pool_ok db2" "db_leases db2 = db_leases db"
      "snd (begin_delete_fork_pool n force now db) =
         (if force then fold (\<lambda>l. put_lease (l\<lparr>lease_status := Cancelled, lease_updated_at := now\<rparr>))
            (filter (\<lambda>l. lease_pool l = n \<and> live_lease l) (db_leases db2)) db2 else db2)"
proof (cases "\<exists>pool. get_fork_pool db n = Some pool \<and> \<not> (0 < active_leases db n \<and> \<not> force)")
  case True
  then obtain pool where pool: "get_fork_pool db n = Some pool" "\<not> (0 < active_leases db n \<and> \<not> force)" by blast
  show thesis
    by (rule started [OF deletion_started_ok [OF assms pool(1) refl refl, of now]])
      (use pool in \<open>auto simp: begin_delete_fork_pool_def Let_def\<close>)
next
  case False
  then show thesis by (intro refused) (auto simp: begin_delete_fork_pool_def split: option.splits)
qed

lemma begin_delete_ok:
  assumes "pool_ok db"
  shows "pool_ok (snd (begin_delete_fork_pool n force now db))"
  using assms by (cases rule: begin_delete_cases [where n = n and force = force and now = now]) (auto simp: fold_cancel_ok assms)

lemma finalize_one_ok:
  assumes "pool_ok db"
  shows "pool_ok (snd (finalize_one pool (removed, db)))"
proof (cases "deleting pool \<and> filter (\<lambda>s. slot_pool s = pool_name pool) (db_slots db) = []")
  case True
  let ?n = "pool_name pool"
  let ?db = "db\<lparr>db_leases := filter (\<lambda>l. lease_pool l \<noteq> ?n) (db_leases db), db_pools := filter (\<lambda>p. pool_name p \<noteq> ?n) (db_pools db)\<rparr>"
  have k: "keys_ok db" and c: "capacity_ok db" and o: "once_ok db" using assms by (simp_all add: pool_ok_def)
  have gone: "slot_pool s \<noteq> ?n" if "s \<in> set (db_slots db)" for s using True that by (simp add: filter_empty_conv)
  have "slot_pool s \<in> pool_name ` {p \<in> set (db_pools db). pool_name p \<noteq> ?n}" if "s \<in> set (db_slots db)" for s
  proof -
    have "slot_pool s \<in> pool_name ` set (db_pools db)" using k that by (auto simp: keys_ok_def)
    with gone [OF that] show ?thesis by auto
  qed
  moreover have "lease_pool l \<in> pool_name ` {p \<in> set (db_pools db). pool_name p \<noteq> ?n}"
    if "l \<in> set (db_leases db)" "lease_pool l \<noteq> ?n" for l
  proof -
    have "lease_pool l \<in> pool_name ` set (db_pools db)" using k that by (auto simp: keys_ok_def)
    with that show ?thesis by auto
  qed
  ultimately have "keys_ok ?db" using k by (simp add: keys_ok_def distinct_map_filter image_subset_iff)
  have "active_leases ?db n \<le> active_leases db n" for n
    using filter_filter_length_le [of _ "\<lambda>l. lease_pool l \<noteq> ?n"] by (simp add: active_leases_def del: filter_filter)
  moreover have "available_slots ?db n = available_slots db n" for n by (simp add: available_slots_def)
  ultimately have "capacity_ok ?db" by (intro capacity_ok_le [OF c]) auto
  moreover note \<open>keys_ok ?db\<close>
  moreover have "once_ok ?db" using o by (auto simp: once_ok_def distinct_map_filter)
  ultimately show ?thesis using True by (simp add: finalize_one_def pool_ok_def Let_def)
next
  case False
  with assms show ?thesis by (auto simp: finalize_one_def Let_def)
qed

lemma finalize_ok: "pool_ok db \<Longrightarrow> pool_ok (snd (finalize_deleted_fork_pools db))"
proof -
  have "pool_ok (snd acc) \<Longrightarrow> pool_ok (snd (fold finalize_one ps acc))" for ps acc
  proof (induction ps arbitrary: acc)
    case (Cons p ps)
    with finalize_one_ok [of "snd acc" p "fst acc"] show ?case by simp
  qed simp
  from this [of "([], db)"] show "pool_ok db \<Longrightarrow> pool_ok (snd (finalize_deleted_fork_pools db))"
    by (simp add: finalize_deleted_fork_pools_def)
qed

end
