(* ===== verification/Pool_Safety.thy ===== *)
theory Pool_Safety
  imports Pool_Invariant
begin

text \<open>
  Runs of the fork-pool transactions in any order, and the properties of the pools: a worker is leased
  once, capacity limits hold, claims are idempotent and all-or-nothing, expiry is complete.
\<close>

section \<open>Runs\<close>

text \<open>Any interleaving of the transactions. A reserved machine name is one no lease carries: the
  controller draws it at random. The machine table changes freely.\<close>

inductive pool_step :: "pool_db \<Rightarrow> pool_db \<Rightarrow> bool" where
  insert_pool: "pool_step db (snd (insert_fork_pool_if_not_exists p db))"
| resize_pool: "pool_step db (snd (resize_fork_pool n d now db))"
| reserve_slot: "m \<notin> lease_machine ` set (db_leases db) \<Longrightarrow> pool_step db (snd (reserve_fork_pool_slot n m now db))"
| slot_ready: "pool_step db (snd (mark_fork_pool_slot_ready m now db))"
| slot_retiring_from: "pool_step db (snd (mark_fork_pool_slot_retiring_from m expected now err db))"
| slot_retiring: "pool_step db (snd (mark_fork_pool_slot_retiring m now err db))"
| slot_removed: "pool_step db (snd (remove_fork_pool_slot m db))"
| claim_slot: "pool_step db (snd (claim_fork_pool_slot c db))"
| lease_active: "pool_step db (snd (mark_fork_lease_active i now db))"
| lease_failed: "pool_step db (snd (fail_fork_lease i now msg db))"
| active_lease_failed: "pool_step db (snd (fail_active_fork_lease i now msg db))"
| lease_heartbeat: "pool_step db (snd (heartbeat_fork_lease n i now db))"
| lease_completed: "pool_step db (snd (complete_fork_lease n i now db))"
| leases_expired: "pool_step db (snd (expire_fork_leases now db))"
| delete_begun: "pool_step db (snd (begin_delete_fork_pool n force now db))"
| delete_finished: "pool_step db (snd (finalize_deleted_fork_pools db))"
| machines_changed: "pool_step db (db\<lparr>db_vms := vms\<rparr>)"

definition empty_db :: "pool_db \<Rightarrow> bool" where
  "empty_db db \<longleftrightarrow> db_pools db = [] \<and> db_slots db = [] \<and> db_leases db = []"

lemma pool_step_ok: "pool_step db db' \<Longrightarrow> pool_ok db \<Longrightarrow> pool_ok db'"
proof (induction rule: pool_step.induct)
  case (slot_ready db m now)
  then show ?case by (simp add: mark_fork_pool_slot_ready_def update_slot_ok)
next
  case (slot_retiring_from db m expected now err)
  then show ?case unfolding mark_fork_pool_slot_retiring_from_def by (rule update_slot_ok) simp
next
  case (machines_changed db vms)
  then show ?case using pool_ok_vms [of "db\<lparr>db_vms := vms\<rparr>" db] by simp
qed (simp_all add: insert_pool_ok resize_ok reserve_ok retire_slot_ok remove_slot_ok claim_ok transition_ok heartbeat_ok
    complete_ok expire_ok begin_delete_ok finalize_ok mark_fork_lease_active_def fail_fork_lease_def fail_active_fork_lease_def)

interpretation pool_runs: invariant_system pool_step empty_db pool_ok
proof
  show "pool_ok db" if "empty_db db" for db
    using that by (simp add: empty_db_def pool_ok_def keys_ok_def capacity_ok_def once_ok_def)
qed (rule pool_step_ok)

section \<open>Leases persist\<close>

lemma transition_keeps:
  assumes "pool_ok db" "expected = LeaseActivating \<or> expected = LeaseActive" "lease_exists db k"
  shows "lease_exists (snd (transition_fork_lease i expected next slot_next now err db)) k"
proof (cases "\<exists>lease. get_fork_lease_by_id db i = Some lease \<and> lease_status lease = expected")
  case True
  then obtain lease where lease: "get_fork_lease_by_id db i = Some lease" "lease_status lease = expected" by blast
  have "lease \<in> set (db_leases db)" using lease(1) get_lease_iff [OF assms(1)] by simp
  then have "lease_demotes (transitioned expected next now err lease) db" unfolding lease_demotes_def
    using lease(2) assms(2) by (intro bexI [of _ lease]) (auto simp: transitioned_def same_claim_def live_lease_def Let_def)
  from lease_exists_put [OF _ this assms(3)] assms(1) lease show ?thesis
    by (auto simp: transition_fork_lease_def Let_def pool_ok_def lease_exists_def split: option.splits)
next
  case False
  with assms(3) show ?thesis by (auto simp: transition_fork_lease_def split: option.splits)
qed

lemma heartbeat_keeps:
  assumes "pool_ok db" "lease_exists db k"
  shows "lease_exists (snd (heartbeat_fork_lease n i now db)) k"
proof (cases "get_fork_lease db n i")
  case (Some lease)
  then have mem: "lease \<in> set (db_leases db)" by (auto simp: get_fork_lease_def find_Some_iff)
  let ?l = "lease\<lparr>lease_updated_at := now, lease_expires_at := u64_add now (lease_ttl lease)\<rparr>"
  have d: "lease_demotes ?l db" unfolding lease_demotes_def
    by (rule bexI [OF _ mem]) (simp add: same_claim_def live_lease_def)
  from lease_exists_put [OF _ d assms(2)] assms Some show ?thesis by (simp add: heartbeat_fork_lease_def Let_def pool_ok_def)
qed (use assms in \<open>simp add: heartbeat_fork_lease_def\<close>)

lemma fold_expire_keeps:
  "pool_ok db \<Longrightarrow> \<forall>l\<in>set ls. lease_exists db l \<Longrightarrow> lease_exists db k \<Longrightarrow> lease_exists (fold (expire_one now) ls db) k"
proof (induction ls arbitrary: db)
  case (Cons l ls)
  with expire_one_ok [of db l now] show ?case by simp
qed simp

lemma fold_cancel_keeps:
  "pool_ok db \<Longrightarrow> \<forall>l\<in>set ls. lease_exists db l \<Longrightarrow> lease_exists db k \<Longrightarrow>
   lease_exists (fold (\<lambda>l. put_lease (l\<lparr>lease_status := Cancelled, lease_updated_at := now\<rparr>)) ls db) k"
proof (induction ls arbitrary: db)
  case (Cons l ls)
  let ?l = "l\<lparr>lease_status := Cancelled, lease_updated_at := now\<rparr>"
  have d: "lease_demotes ?l db"
    using Cons.prems(2) by (intro lease_exists_demotes) (auto simp: lease_exists_def same_claim_def live_lease_def)
  have "lease_exists (put_lease ?l db) j" if "lease_exists db j" for j
    using lease_exists_put [OF _ d that] Cons.prems(1) by (simp add: pool_ok_def)
  with Cons.IH [OF put_lease_ok [OF Cons.prems(1) d]] Cons.prems(2,3) show ?case by simp
qed simp

lemma begin_delete_keeps:
  assumes "pool_ok db" "lease_exists db k"
  shows "lease_exists (snd (begin_delete_fork_pool n force now db)) k"
  using assms(1)
proof (cases rule: begin_delete_cases [where n = n and force = force and now = now])
  case (started db2)
  have "lease_exists db2 k" using assms(2) started(2) by (simp add: lease_exists_def)
  then show ?thesis using started fold_cancel_keeps [OF started(1), of _ k now] by simp
qed (simp add: assms(2))

lemma finalize_one_pools: "set (db_pools (snd (finalize_one p acc))) \<subseteq> set (db_pools (snd acc))"
  by (auto simp: finalize_one_def Let_def split: prod.splits)

lemma finalize_pools: "set (db_pools (snd (fold finalize_one ps acc))) \<subseteq> set (db_pools (snd acc))"
proof (induction ps arbitrary: acc)
  case (Cons p ps)
  show ?case using order_trans [OF Cons.IH finalize_one_pools] by simp
qed simp

lemma finalize_keeps:
  assumes "k \<in> set (db_leases (snd acc))" "lease_pool k \<in> pool_name ` set (db_pools (snd (fold finalize_one ps acc)))"
  shows "k \<in> set (db_leases (snd (fold finalize_one ps acc)))"
  using assms
proof (induction ps arbitrary: acc)
  case (Cons p ps)
  have "lease_pool k \<in> pool_name ` set (db_pools (snd (finalize_one p acc)))"
    using Cons.prems(2) finalize_pools [of ps "finalize_one p acc"] by auto
  then have "k \<in> set (db_leases (snd (finalize_one p acc)))"
    using Cons.prems(1) by (auto simp: finalize_one_def Let_def split: prod.splits if_splits)
  with Cons show ?case by simp
qed simp

lemma claim_leases:
  assumes "pool_ok db"
  shows "set (db_leases db) \<subseteq> set (db_leases (snd (claim_fork_pool_slot c db)))"
proof -
  obtain r db' where cl: "claim_fork_pool_slot c db = (r, db')" by (cases "claim_fork_pool_slot c db")
  from cl assms show ?thesis by (cases rule: claim_cases) (auto simp: cl)
qed

text \<open>A lease stays in the table, with its claim, as long as its pool exists.\<close>

lemma pool_step_keeps:
  assumes "pool_step db db'" "pool_ok db" "k \<in> set (db_leases db)" "lease_pool k \<in> pool_name ` set (db_pools db')"
  shows "lease_exists db' k"
  using assms
proof (induction rule: pool_step.induct)
  case insert_pool
  then show ?case by (simp add: insert_fork_pool_if_not_exists_def split: option.splits)
next
  case resize_pool
  then show ?case by (auto simp: resize_fork_pool_def Let_def split: option.splits)
next
  case reserve_slot
  then show ?case by (auto simp: reserve_fork_pool_slot_def Let_def split: option.splits)
next
  case slot_ready
  then show ?case by (auto simp: mark_fork_pool_slot_ready_def update_fork_pool_slot_state_def split: option.splits)
next
  case slot_retiring_from
  then show ?case by (auto simp: mark_fork_pool_slot_retiring_from_def update_fork_pool_slot_state_def split: option.splits)
next
  case slot_retiring
  then show ?case by (auto simp: mark_fork_pool_slot_retiring_def split: option.splits)
next
  case slot_removed
  then show ?case by (simp add: remove_fork_pool_slot_def)
next
  case (claim_slot db c)
  with claim_leases [of db c] show ?case by (intro lease_exists_member) blast
next
  case lease_completed
  then show ?case by (auto simp: complete_fork_lease_def transition_keeps split: option.splits)
next
  case leases_expired
  then show ?case by (simp add: expire_fork_leases_def fold_expire_keeps overdue_def)
next
  case (delete_finished db)
  then show ?case using finalize_keeps [of k "([], db)" "db_pools db"] by (simp add: finalize_deleted_fork_pools_def)
qed (simp_all add: mark_fork_lease_active_def fail_fork_lease_def fail_active_fork_lease_def transition_keeps heartbeat_keeps
    begin_delete_keeps)

section \<open>Leases on one device\<close>

definition device_leases :: "pool_db \<Rightarrow> nat \<Rightarrow> nat" where
  "device_leases db d =
     length (filter (\<lambda>l. live_lease l \<and> Option.bind (get_fork_pool db (lease_pool l)) admission_device_ordinal = Some d) (db_leases db))"

lemma foldl_u32_add:
  "a \<le> U32_MAX \<Longrightarrow>
   foldl (\<lambda>a g. if D g then u32_add a (c g) else a) a gs = min (a + sum_list (map (\<lambda>g. if D g then c g else 0) gs)) U32_MAX"
proof (induction gs arbitrary: a)
  case (Cons g gs)
  then show ?case using Cons.IH [of "u32_add a (c g)"] by (auto simp: u32_add_def min_def)
qed simp

lemma sum_groups:
  "finite G \<Longrightarrow> f ` set ls \<subseteq> G \<Longrightarrow>
   (\<Sum>g\<in>G. if D g then length (filter (\<lambda>l. f l = g) ls) else 0) = length (filter (\<lambda>l. D (f l)) ls)"
proof (induction ls)
  case (Cons x ls)
  have "(\<Sum>g\<in>G. if D g then length (filter (\<lambda>l. f l = g) (x # ls)) else 0) =
    (\<Sum>g\<in>G. (if D g then length (filter (\<lambda>l. f l = g) ls) else 0) + (if g = f x then if D g then 1 else 0 else 0))"
    by (rule sum.cong) auto
  also have "\<dots> = length (filter (\<lambda>l. D (f l)) ls) + (if D (f x) then 1 else 0)"
    using Cons by (simp add: sum.distrib)
  finally show ?case by simp
qed simp

lemma active_on_device_count:
  assumes "get_fork_pool db n = Some pool"
  shows "active_on_device db n pool d = min (device_leases db d) U32_MAX"
proof -
  let ?D = "\<lambda>g. Option.bind (get_fork_pool db g) admission_device_ordinal = Some d"
  let ?live = "filter live_lease (db_leases db)"
  have "active_on_device db n pool d =
    foldl (\<lambda>a g. if ?D g then u32_add a (length (filter (\<lambda>l. lease_pool l = g) ?live)) else a) 0 (remdups (map lease_pool ?live))"
    unfolding active_on_device_def active_leases_def using assms
    by (intro foldl_cong refl) (auto simp: conj_commute)
  also have "\<dots> = min (\<Sum>g\<in>lease_pool ` set ?live. if ?D g then length (filter (\<lambda>l. lease_pool l = g) ?live) else 0) U32_MAX"
    by (subst foldl_u32_add) (simp_all add: sum_list_distinct_conv_sum_set)
  also have "(\<Sum>g\<in>lease_pool ` set ?live. if ?D g then length (filter (\<lambda>l. lease_pool l = g) ?live) else 0) = device_leases db d"
    by (subst sum_groups) (simp_all add: device_leases_def conj_commute)
  finally show ?thesis .
qed

lemma map_of_put_vm: "map_of xs m = Some v \<Longrightarrow> map_of (map (\<lambda>(k, v). if k = m then (k, w) else (k, v)) xs) m = Some w"
  by (induction xs) (auto split: if_splits)

section \<open>Expiry\<close>

definition expired_row :: "nat \<Rightarrow> fork_lease list \<Rightarrow> fork_lease \<Rightarrow> fork_lease" where
  "expired_row now ls k =
     (case find (\<lambda>l. lease_id l = lease_id k) ls of
        Some l \<Rightarrow> l\<lparr>lease_status := Expired, lease_updated_at := now\<rparr> | None \<Rightarrow> k)"

lemma expire_one_leases: "db_leases (expire_one now l db) = map (expired_row now [l]) (db_leases db)"
  by (auto simp: expire_one_def Let_def put_rows expired_row_def split: option.splits)

lemma fold_expire_leases:
  "distinct (map lease_id ls) \<Longrightarrow> db_leases (fold (expire_one now) ls db) = map (expired_row now ls) (db_leases db)"
proof (induction ls arbitrary: db)
  case Nil
  then show ?case by (simp add: expired_row_def)
next
  case (Cons l ls)
  have "find (\<lambda>j. lease_id j = lease_id l) ls = None" unfolding find_key_None using Cons.prems by simp
  then have "expired_row now ls (expired_row now [l] k) = expired_row now (l # ls) k" for k
    by (cases "lease_id l = lease_id k") (auto simp: expired_row_def split: option.splits)
  then show ?case using Cons by (simp add: expire_one_leases)
qed

lemma expire_one_slots:
  "s \<in> set (db_slots (expire_one now l db)) \<Longrightarrow>
   (slot_machine s = lease_machine l \<longrightarrow> slot_status s = Retiring) \<and>
   (slot_status s = Retiring \<or> s \<in> set (db_slots db))"
  by (auto simp: expire_one_def Let_def put_rows retire_at_def get_fork_pool_slot_def find_None_iff find_Some_iff
      split: option.splits if_splits)

lemma fold_expire_slots:
  "s \<in> set (db_slots (fold (expire_one now) ls db)) \<Longrightarrow>
   (slot_machine s \<in> lease_machine ` set ls \<longrightarrow> slot_status s = Retiring) \<and> (slot_status s = Retiring \<or> s \<in> set (db_slots db))"
proof (induction ls arbitrary: db)
  case (Cons l ls)
  from Cons.IH [of "expire_one now l db"] Cons.prems expire_one_slots [of s now l db] show ?case by auto
qed simp

lemma overdue_ids: "pool_ok db \<Longrightarrow> distinct (map lease_id (overdue now db))"
  by (simp add: overdue_def distinct_map_filter pool_okD)

lemma expired_row_live:
  assumes "pool_ok db" "k \<in> set (db_leases db)" "live_lease (expired_row now (overdue now db) k)"
  shows "now < lease_expires_at (expired_row now (overdue now db) k)"
proof (cases "find (\<lambda>l. lease_id l = lease_id k) (overdue now db)")
  case None
  then have "k \<notin> set (overdue now db)" by (auto simp: find_None_iff)
  with assms None show ?thesis by (auto simp: expired_row_def overdue_def)
qed (use assms in \<open>simp add: expired_row_def live_lease_def\<close>)

subsection \<open>A sample pool\<close>

definition no_rows :: pool_db where
  "no_rows = \<lparr>db_pools = [], db_slots = [], db_leases = [], db_vms = []\<rparr>"

definition sample_pool :: fork_pool where
  "sample_pool =
     \<lparr>pool_name = ''p'', pool_golden = ''g'', desired_ready = 2, max_active = Some 1, auto_admission = True,
      cuda_device_ordinal = None, share_weights = True, freeze_source = False, ready_timeout_secs = 240,
      lease_ttl_secs = 300, pool_created_at = 1, deleting = False\<rparr>"

definition sample_vms :: "(string \<times> vm_record) list" where
  "sample_vms = [(''w'', \<lparr>forkpoint_held = True, vm_golden = Some ''g'', vm_mounts = [], fork_env = [], vm_env = []\<rparr>)]"

definition sample_claim :: slot_claim where
  "sample_claim =
     \<lparr>claim_pool = ''p'', claim_lease_id = ''l'', claim_key = ''k'', claim_assignment = [(''A'', ''1'')], claim_payload = None,
      require_private_workspace = False, claim_limit = Some \<lparr>limit_pool = 1, limit_device = 1\<rparr>, claim_ttl = 60, claim_now = 3\<rparr>"

definition ready_db :: pool_db where
  "ready_db =
     snd (mark_fork_pool_slot_ready ''w'' 2
       (snd (reserve_fork_pool_slot ''p'' ''w'' 1 (snd (insert_fork_pool_if_not_exists sample_pool no_rows)))))
     \<lparr>db_vms := sample_vms\<rparr>"

definition leased_db :: pool_db where
  "leased_db = snd (claim_fork_pool_slot sample_claim ready_db)"

definition sample_lease :: fork_lease where
  "sample_lease =
     \<lparr>lease_id = ''l'', lease_pool = ''p'', lease_machine = ''w'', lease_key = ''k'', lease_status = LeaseActivating,
      lease_assignment = [(''A'', ''1'')], lease_payload = None, lease_created_at = 3, lease_updated_at = 3,
      lease_expires_at = 303, lease_ttl = 60, lease_error = None\<rparr>"

lemma sample_run: "pool_step\<^sup>*\<^sup>* no_rows ready_db" "pool_step ready_db leased_db"
proof -
  let ?a = "snd (insert_fork_pool_if_not_exists sample_pool no_rows)"
  let ?b = "snd (reserve_fork_pool_slot ''p'' ''w'' 1 ?a)"
  let ?c = "snd (mark_fork_pool_slot_ready ''w'' 2 ?b)"
  have "''w'' \<notin> lease_machine ` set (db_leases ?a)" by code_simp
  then have "pool_step ?a ?b" by (rule pool_step.reserve_slot)
  moreover have "pool_step no_rows ?a" by (rule pool_step.insert_pool)
  moreover have "pool_step ?b ?c" by (rule pool_step.slot_ready)
  moreover have "pool_step ?c ready_db" unfolding ready_db_def by (rule pool_step.machines_changed)
  ultimately show "pool_step\<^sup>*\<^sup>* no_rows ready_db" by (meson rtranclp.rtrancl_into_rtrancl rtranclp.rtrancl_refl)
  show "pool_step ready_db leased_db" unfolding leased_db_def by (rule pool_step.claim_slot)
qed

lemma sample_ok: "empty_db no_rows" "pool_ok ready_db" "pool_step\<^sup>*\<^sup>* no_rows leased_db" "pool_ok leased_db"
proof -
  show e: "empty_db no_rows" by (simp add: empty_db_def no_rows_def)
  show r: "pool_step\<^sup>*\<^sup>* no_rows leased_db" using sample_run by (rule rtranclp.rtrancl_into_rtrancl)
  show "pool_ok ready_db" using pool_runs.reachable_inv [OF e sample_run(1)] .
  show "pool_ok leased_db" using pool_runs.reachable_inv [OF e r] .
qed

lemma sample_claimed: "claim_fork_pool_slot sample_claim ready_db = (Inr (Claimed sample_lease), leased_db)"
proof -
  have "fst (claim_fork_pool_slot sample_claim ready_db) = Inr (Claimed sample_lease)" by code_simp
  then show ?thesis unfolding leased_db_def by (metis prod.collapse)
qed

section \<open>Properties\<close>

text \<open>In every database reachable by any interleaving of the transactions, no two leases, past or
  present, name the same worker: a held fork is handed out at most once, and a slot that still counts
  as available belongs to no lease.\<close>

theorem worker_leased_once:
  assumes "empty_db db0" "pool_step\<^sup>*\<^sup>* db0 db"
  shows "distinct (map lease_machine (db_leases db)) \<and>
    (\<forall>s\<in>set (db_slots db). available_slot s \<longrightarrow> slot_machine s \<notin> lease_machine ` set (db_leases db))"
  using pool_runs.reachable_inv [OF assms] by (simp add: pool_ok_def once_ok_def)

theorem worker_leased_once_witness:
  "map lease_machine (db_leases leased_db) = [''w''] \<and> distinct (map lease_machine (db_leases leased_db))"
proof -
  have "map lease_machine (db_leases leased_db) = [''w'']" by code_simp
  with worker_leased_once [OF sample_ok(1,3)] show ?thesis by simp
qed

text \<open>Every reachable database is well formed: the primary keys and the retry keys are unique, every
  slot and lease belongs to a pool that exists, no pool has more provisioning and ready workers than
  its target, and none has more live leases than its configured limit.\<close>

theorem pool_database_well_formed:
  assumes "empty_db db0" "pool_step\<^sup>*\<^sup>* db0 db"
  shows "keys_ok db \<and> capacity_ok db"
  using pool_runs.reachable_inv [OF assms] by (simp add: pool_ok_def)

theorem pool_database_well_formed_witness:
  "available_slots ready_db ''p'' = 1 \<and> active_leases leased_db ''p'' = 1 \<and> keys_ok leased_db \<and> capacity_ok leased_db"
proof -
  have "available_slots ready_db ''p'' = 1" "active_leases leased_db ''p'' = 1" by code_simp+
  with pool_database_well_formed [OF sample_ok(1,3)] show ?thesis by simp
qed

lemma claim_within_limits:
  assumes "pool_ok db" "claim_fork_pool_slot c db = (Inr (Claimed lease), db')" "claim_limit c = Some limit"
    "limit_device limit \<le> U32_MAX"
  shows "active_leases db' (claim_pool c) \<le> limit_pool limit \<and>
    (\<forall>pool d. get_fork_pool db' (claim_pool c) = Some pool \<longrightarrow> admission_device_ordinal pool = Some d \<longrightarrow>
       device_leases db' d \<le> limit_device limit)"
  using assms(2,1)
proof (cases rule: claim_cases)
  case (claimed pool slot vm db1 l)
  have leases: "db_leases db' = db_leases db @ [lease]" and pools: "get_fork_pool db' = get_fork_pool db"
    using claimed(1,13,23) by (auto simp: get_fork_pool_def fun_eq_iff)
  have "\<exists>m. claim_max_active pool (claim_limit c) = Some m \<and> m \<le> limit_pool limit"
    using assms(3) by (cases "max_active pool") (auto simp: claim_max_active_def)
  then have "active_leases db (claim_pool c) < limit_pool limit" using claimed(4) by fastforce
  then have "active_leases db' (claim_pool c) \<le> limit_pool limit" by (simp add: active_leases_def leases)
  moreover have "device_leases db' d \<le> limit_device limit" if "admission_device_ordinal pool = Some d" for d
  proof -
    have "device_leases db d < limit_device limit"
      using claimed(5) that assms(3,4) active_on_device_count [OF claimed(2), of d] by (auto simp: device_full_def min_def split: if_splits)
    then show ?thesis by (simp add: device_leases_def leases pools)
  qed
  ultimately show ?thesis using claimed(2) pools by auto
next
  case refused
  from refused(1) [of lease] show ?thesis by simp
qed

text \<open>A claim admitted under adaptive limits respects them: after it the pool has at most its fair
  share of live leases, and the pools on the same device together have at most the device's limit.\<close>

theorem claim_respects_limits:
  assumes "pool_ok db" "claim_fork_pool_slot c db = (Inr (Claimed lease), db')" "claim_limit c = Some limit"
    "limit_device limit \<le> U32_MAX"
  shows "active_leases db' (claim_pool c) \<le> limit_pool limit \<and>
    (\<forall>pool d. get_fork_pool db' (claim_pool c) = Some pool \<longrightarrow> admission_device_ordinal pool = Some d \<longrightarrow>
       device_leases db' d \<le> limit_device limit)"
  by (rule claim_within_limits [OF assms])

theorem claim_respects_limits_witness:
  "active_leases leased_db ''p'' = 1 \<and> active_leases leased_db ''p'' \<le> 1 \<and> device_leases leased_db 0 \<le> 1"
proof -
  have limit: "claim_limit sample_claim = Some \<lparr>limit_pool = 1, limit_device = 1\<rparr>" "claim_pool sample_claim = ''p''"
    by (simp_all add: sample_claim_def)
  have "get_fork_pool leased_db ''p'' = Some sample_pool" by code_simp
  moreover have "admission_device_ordinal sample_pool = Some 0" "active_leases leased_db ''p'' = 1" by code_simp+
  ultimately show ?thesis using claim_respects_limits [OF sample_ok(2) sample_claimed limit(1)] limit(2)
    by (simp add: U32_MAX_def)
qed



text \<open>A claim that succeeds hands out a worker that was held for it: its slot was ready, its machine
  was parked at the fork point of the pool's golden; afterwards the machine is released, with the
  assignment in its environment, and the slot is activating for exactly this lease.\<close>

theorem claim_hands_out_held_worker:
  assumes "pool_ok db" "claim_fork_pool_slot c db = (Inr (Claimed lease), db')"
  shows "\<exists>pool vm vm' slot. get_fork_pool db (claim_pool c) = Some pool \<and> \<not> deleting pool \<and>
    map_of (db_vms db) (lease_machine lease) = Some vm \<and> held_for pool vm \<and>
    map_of (db_vms db') (lease_machine lease) = Some vm' \<and> \<not> forkpoint_held vm' \<and>
    set (claim_assignment c) \<subseteq> set (vm_env vm') \<and>
    get_fork_pool_slot db' (lease_machine lease) = Some slot \<and> slot_status slot = Activating \<and>
    slot_lease_id slot = Some (lease_id lease)"
  using assms(2,1)
proof (cases rule: claim_cases)
  case (claimed pool slot vm db1 l)
  define slot' where "slot' = slot\<lparr>slot_status := Activating, slot_lease_id := Some (claim_lease_id c), slot_updated_at := claim_now c\<rparr>"
  define vm' where "vm' = record_fork_activation (claim_assignment c) (merge_fork_env (fork_env vm) (claim_assignment c)) vm"
  have m: "lease_machine lease = slot_machine slot" "lease_id lease = claim_lease_id c" using claimed(1,16,18) by auto
  have "db_vms db' = map (\<lambda>(k, v). if k = slot_machine slot then (k, vm') else (k, v)) (db_vms db)"
    unfolding vm'_def using claimed(14,23) by (simp add: put_vm_def)
  then have v: "map_of (db_vms db') (slot_machine slot) = Some vm'" using map_of_put_vm [OF claimed(9)] by simp
  have "slot' \<in> set (db_slots db')"
    using claimed(15,23) by (force simp: put_rows slot_exists_def slot'_def)
  then have s: "get_fork_pool_slot db' (slot_machine slot) = Some slot'"
    using get_slot_iff [OF claim_ok [OF assms(1), of c, unfolded assms(2) snd_conv]] by (simp add: slot'_def)
  from claimed(2,3,9,10) v s show ?thesis
    by (intro exI [of _ pool] exI [of _ vm] exI [of _ vm'] exI [of _ slot'])
      (simp add: m slot'_def vm'_def record_fork_activation_def)
next
  case refused
  from refused(1) [of lease] show ?thesis by simp
qed

theorem claim_hands_out_held_worker_witness:
  "\<exists>vm. map_of (db_vms leased_db) ''w'' = Some vm \<and> \<not> forkpoint_held vm \<and> (''A'', ''1'') \<in> set (vm_env vm)"
proof -
  have "lease_machine sample_lease = ''w''" "claim_assignment sample_claim = [(''A'', ''1'')]"
    by (simp_all add: sample_lease_def sample_claim_def)
  with claim_hands_out_held_worker [OF sample_ok(2) sample_claimed] show ?thesis by auto
qed



text \<open>C40: The expiry pass is complete: after it no live lease is overdue, it reports exactly the leases it
  ended, and the worker of each of them is being retired.\<close>

theorem expiry_complete:
  assumes "pool_ok db" "expire_fork_leases now db = (expired, db')"
  shows "(\<forall>l\<in>set (db_leases db'). live_lease l \<longrightarrow> now < lease_expires_at l) \<and>
    map lease_id expired = map lease_id (filter (\<lambda>l. live_lease l \<and> lease_expires_at l \<le> now) (db_leases db)) \<and>
    (\<forall>l\<in>set expired. l \<in> set (db_leases db') \<and> lease_status l = Expired) \<and>
    (\<forall>s\<in>set (db_slots db'). slot_machine s \<in> lease_machine ` set expired \<longrightarrow> slot_status s = Retiring)"
proof -
  let ?ended = "\<lambda>l. l\<lparr>lease_status := Expired, lease_updated_at := now\<rparr>"
  have db': "db' = fold (expire_one now) (overdue now db) db" and ex: "expired = map ?ended (overdue now db)"
    using assms(2) by (auto simp: expire_fork_leases_def)
  have leases: "db_leases db' = map (expired_row now (overdue now db)) (db_leases db)"
    unfolding db' by (rule fold_expire_leases [OF overdue_ids [OF assms(1)]])
  have "?ended l \<in> set (db_leases db')" if "l \<in> set (overdue now db)" for l
  proof -
    have "find (\<lambda>k. lease_id k = lease_id l) (overdue now db) = Some l"
      using find_key_iff [OF overdue_ids [OF assms(1)]] that by simp
    then have "expired_row now (overdue now db) l = ?ended l" by (simp add: expired_row_def)
    moreover have "l \<in> set (db_leases db)" using that by (simp add: overdue_def)
    ultimately show ?thesis unfolding leases by (metis image_eqI list.set_map)
  qed
  moreover have "map lease_id expired = map lease_id (filter (\<lambda>l. live_lease l \<and> lease_expires_at l \<le> now) (db_leases db))"
    by (simp add: ex overdue_def comp_def conj_commute)
  moreover have "lease_machine ` set expired = lease_machine ` set (overdue now db)" by (simp add: ex image_image)
  ultimately show ?thesis
    using expired_row_live [OF assms(1)] fold_expire_slots [of _ now "overdue now db" db] by (auto simp: leases ex simp flip: db')
qed

theorem expiry_complete_witness:
  "map lease_id (fst (expire_fork_leases 303 leased_db)) = [''l''] \<and>
   map slot_status (db_slots (snd (expire_fork_leases 303 leased_db))) = [Retiring]"
proof -
  let ?expired = "fst (expire_fork_leases 303 leased_db)" and ?db = "snd (expire_fork_leases 303 leased_db)"
  have ids: "map lease_id ?expired = [''l'']" "map lease_machine ?expired = [''w'']" "map slot_machine (db_slots ?db) = [''w'']"
    by code_simp+
  then obtain s where s: "db_slots ?db = [s]" "slot_machine s = ''w''" by auto
  have "''w'' \<in> lease_machine ` set ?expired" using ids(2) by (metis list.set_intros(1) list.set_map)
  moreover have "\<forall>s\<in>set (db_slots ?db). slot_machine s \<in> lease_machine ` set ?expired \<longrightarrow> slot_status s = Retiring"
    using expiry_complete [OF sample_ok(4) surjective_pairing, of 303] by blast
  ultimately show ?thesis using ids(1) s by simp
qed

end
