(* ===== verification/Admission.thy ===== *)
theory Admission
  imports Fork_Pool
begin

text \<open>
  Lease-aware admission for CUDA fork pools (\<open>src/api/admission.rs\<close>): the per-device controller that
  learns how many leases a GPU can hold, the registry that shares a device among its pools, and the
  parsing of the host's telemetry.

  Floating-point values have an abstract type \<open>'f\<close>; the arithmetic the code uses is an argument, so the
  results hold for every behaviour of it, rounding and NaN included. Explanations are constructors,
  one per message of the code. Time is in nanoseconds. A function whose search loop might not return
  has an optional result, \<open>None\<close> standing for a call that does not return.
\<close>

section \<open>Constants and telemetry\<close>

record 'f float_ops =
  f_add :: "'f \<Rightarrow> 'f \<Rightarrow> 'f"
  f_sub :: "'f \<Rightarrow> 'f \<Rightarrow> 'f"
  f_mul :: "'f \<Rightarrow> 'f \<Rightarrow> 'f"
  f_div :: "'f \<Rightarrow> 'f \<Rightarrow> 'f"
  f_lt :: "'f \<Rightarrow> 'f \<Rightarrow> bool"
  f_le :: "'f \<Rightarrow> 'f \<Rightarrow> bool"
  f_of :: "nat \<Rightarrow> 'f"
  f_secs :: "nat \<Rightarrow> 'f"
  f_infinity :: 'f

definition OBSERVATION_WINDOW :: nat where "OBSERVATION_WINDOW = secs 8"
definition MIN_STABLE_SAMPLES :: nat where "MIN_STABLE_SAMPLES = 5"
definition PRESSURE_TTL :: nat where "PRESSURE_TTL = secs 30"
definition REPROBE_INTERVAL :: nat where "REPROBE_INTERVAL = secs (15 * 60)"
definition TARGET_VRAM_RESERVE_MIB :: nat where "TARGET_VRAM_RESERVE_MIB = 8 * 1024"
definition VRAM_RESERVE_PERCENT :: nat where "VRAM_RESERVE_PERCENT = 10"
definition SMALL_DEVICE_RESERVE_CAP_PERCENT :: nat where "SMALL_DEVICE_RESERVE_CAP_PERCENT = 25"
definition CPU_SATURATION_PERCENT :: nat where "CPU_SATURATION_PERCENT = 90"
definition MARGINAL_GAIN_PERCENT :: nat where "MARGINAL_GAIN_PERCENT = 2"
definition MIN_GPU_ACTIVITY_PERCENT :: nat where "MIN_GPU_ACTIVITY_PERCENT = 10"

record 'f gpu_sample =
  device_ordinal :: nat
  utilization_percent :: 'f
  used_memory_mib :: nat
  total_memory_mib :: nat
  free_memory_mib :: nat
  reserve_mib :: nat

record 'f gpu_device_sample =
  gd_ordinal :: nat
  gd_uuid :: string
  gd_name :: string
  gd_utilization :: 'f
  gd_used :: nat
  gd_free :: nat
  gd_total :: nat

definition device_reserve_mib :: "nat \<Rightarrow> nat" where
  "device_reserve_mib capacity =
     (let percentage_reserve = u64_mul capacity VRAM_RESERVE_PERCENT div 100;
          absolute_reserve = min TARGET_VRAM_RESERVE_MIB (u64_mul capacity SMALL_DEVICE_RESERVE_CAP_PERCENT div 100)
      in max percentage_reserve absolute_reserve)"

definition gpu_sample_new :: "nat \<Rightarrow> 'f \<Rightarrow> nat \<Rightarrow> nat \<Rightarrow> nat \<Rightarrow> 'f gpu_sample" where
  "gpu_sample_new ordinal util used free capacity =
     \<lparr>device_ordinal = ordinal, utilization_percent = util, used_memory_mib = used, total_memory_mib = capacity,
      free_memory_mib = free, reserve_mib = device_reserve_mib capacity\<rparr>"

definition admission_sample :: "'f gpu_device_sample \<Rightarrow> 'f gpu_sample" where
  "admission_sample d = gpu_sample_new (gd_ordinal d) (gd_utilization d) (gd_used d) (gd_free d) (gd_total d)"

definition memory_safe :: "'f gpu_sample \<Rightarrow> bool" where
  "memory_safe g \<longleftrightarrow> reserve_mib g \<le> free_memory_mib g"

record 'f score =
  score_gpu :: 'f
  score_rate :: "'f option"

definition improvement_over :: "'f float_ops \<Rightarrow> 'f score \<Rightarrow> 'f score \<Rightarrow> 'f" where
  "improvement_over F self baseline =
     (let gain = (\<lambda>current previous. f_mul F (f_div F (f_sub F current previous) previous) (f_of F 100));
          by_gpu = (if f_lt F (f_of F 0) (score_gpu baseline) then gain (score_gpu self) (score_gpu baseline)
                    else f_infinity F)
      in case (score_rate self, score_rate baseline) of
           (Some current, Some previous) \<Rightarrow> if f_lt F (f_of F 0) previous then gain current previous else by_gpu
         | _ \<Rightarrow> by_gpu)"

section \<open>The controller of one device\<close>

datatype 'f reason =
    WaitingForTelemetry | CeilingChanged | TelemetryUnavailable | TelemetryRecovered
  | Draining nat nat | Observing nat nat | MatureWindow nat | WaitingForActivity nat nat
  | ReturnedMemory nat nat nat | ReturnedCpu nat 'f | ReturnedGain nat 'f
  | HoldingProjected nat nat nat nat | Probing nat | ProbingMemorySafe nat nat
  | HoldingMemory nat nat nat | HoldingCpu nat 'f | SettledAt nat
  | PoolShare nat nat nat "'f reason"

record 'f admission =
  ceiling :: nat
  effective_limit :: nat
  best_limit :: nat
  best_score :: "'f score option"
  testing_from :: "(nat \<times> 'f score) option"
  last_lower :: "(nat \<times> 'f score) option"
  settled :: bool
  last_probe :: instant
  last_blocked :: "instant option"
  observed_active :: nat
  window_started :: instant
  window_samples :: nat
  gpu_utilization_sum :: 'f
  host_cpu_sum :: 'f
  window_peak_gpu_memory_mib :: nat
  idle_gpu_memory_mib :: "nat option"
  waiting_for_maturity :: bool
  completed_at_start :: nat
  latest_gpu :: "'f gpu_sample option"
  latest_host_cpu_percent :: "'f option"
  telemetry_failed_open :: bool
  adm_reason :: "'f reason"

definition initial_limit :: "nat \<Rightarrow> nat" where
  "initial_limit c = (if c \<le> 2 then c else max (div_ceil c 3) 1)"

definition admission_new :: "'f float_ops \<Rightarrow> nat \<Rightarrow> instant \<Rightarrow> nat \<Rightarrow> 'f admission" where
  "admission_new F c now completed_total =
     \<lparr>ceiling = c, effective_limit = initial_limit c, best_limit = initial_limit c, best_score = None,
      testing_from = None, last_lower = None, settled = (initial_limit c = c), last_probe = now, last_blocked = None,
      observed_active = 0, window_started = now, window_samples = 0, gpu_utilization_sum = f_of F 0,
      host_cpu_sum = f_of F 0, window_peak_gpu_memory_mib = 0, idle_gpu_memory_mib = None,
      waiting_for_maturity = False, completed_at_start = completed_total, latest_gpu = None,
      latest_host_cpu_percent = None, telemetry_failed_open = False, adm_reason = WaitingForTelemetry\<rparr>"

definition reset_window :: "'f float_ops \<Rightarrow> instant \<Rightarrow> nat \<Rightarrow> nat \<Rightarrow> 'f admission \<Rightarrow> 'f admission" where
  "reset_window F now active completed_total st =
     st\<lparr>observed_active := active, window_started := now, window_samples := 0, gpu_utilization_sum := f_of F 0,
        host_cpu_sum := f_of F 0, window_peak_gpu_memory_mib := 0, waiting_for_maturity := False,
        completed_at_start := completed_total\<rparr>"

definition has_pressure :: "instant \<Rightarrow> 'f admission \<Rightarrow> bool" where
  "has_pressure now st = (case last_blocked st of Some blocked \<Rightarrow> now - blocked \<le> PRESSURE_TTL | None \<Rightarrow> False)"

definition update_ceiling :: "'f float_ops \<Rightarrow> nat \<Rightarrow> instant \<Rightarrow> nat \<Rightarrow> 'f admission \<Rightarrow> 'f admission" where
  "update_ceiling F c now completed_total st =
     (if ceiling st = c then st
      else
        let limit = max (min (effective_limit st) c) 1
        in (reset_window F now 0 completed_total
              (st\<lparr>ceiling := c, effective_limit := limit, best_limit := max (min (best_limit st) c) 1,
                  testing_from := None, last_lower := None, settled := (limit = c), best_score := None,
                  idle_gpu_memory_mib := None, last_probe := now\<rparr>))
            \<lparr>adm_reason := CeilingChanged\<rparr>)"

subsection \<open>Memory projections\<close>

definition projected_free_memory_mib :: "'f admission \<Rightarrow> 'f gpu_sample \<Rightarrow> nat \<Rightarrow> nat \<Rightarrow> nat option" where
  "projected_free_memory_mib st gpu active candidate =
     (if active = 0 \<or> candidate \<le> active then None
      else
        let peak = max (window_peak_gpu_memory_mib st) (used_memory_mib gpu);
            active_memory = (case idle_gpu_memory_mib st of
                               Some idle \<Rightarrow> if idle < peak then peak - idle else peak
                             | None \<Rightarrow> peak);
            additional_workers = candidate - active;
            projected_additional = div_ceil (u64_mul active_memory additional_workers) active
        in Some (total_memory_mib gpu - u64_add peak projected_additional))"

partial_function (option) candidate_loop ::
  "(nat \<Rightarrow> nat option) \<Rightarrow> nat \<Rightarrow> nat \<Rightarrow> nat \<Rightarrow> (nat \<times> nat) option \<Rightarrow> (nat \<times> nat) option option" where
  "candidate_loop project reserve low high best =
     (if low \<le> high then
        let candidate = low + (high - low) div 2
        in case project candidate of
             None \<Rightarrow> Some None
           | Some projected_free \<Rightarrow>
               if reserve \<le> projected_free
               then candidate_loop project reserve (u32_add candidate 1) high (Some (candidate, projected_free))
               else candidate_loop project reserve low (candidate - 1) best
      else Some best)"

declare candidate_loop.simps [code]

definition largest_memory_safe_candidate ::
  "'f admission \<Rightarrow> 'f gpu_sample \<Rightarrow> nat \<Rightarrow> nat \<Rightarrow> (nat \<times> nat) option option" where
  "largest_memory_safe_candidate st gpu active upper =
     (if active = 0 \<or> upper \<le> active then Some None
      else candidate_loop (projected_free_memory_mib st gpu active) (reserve_mib gpu) (u32_add active 1) upper None)"

subsection \<open>Observing\<close>

text \<open>The values computed from a full observation window.\<close>

record 'f window =
  w_mean_cpu :: 'f
  w_mean_gpu :: 'f
  w_rate :: "'f option"
  w_observed_free :: nat
  w_memory_safe :: bool
  w_cpu_safe :: bool

definition window_values :: "'f float_ops \<Rightarrow> instant \<Rightarrow> nat \<Rightarrow> nat \<Rightarrow> 'f gpu_sample \<Rightarrow> 'f admission \<Rightarrow> 'f window" where
  "window_values F now active completed_total gpu st =
     (let elapsed = now - window_started st;
          mean_gpu = f_div F (gpu_utilization_sum st) (f_of F (window_samples st));
          mean_cpu = f_div F (host_cpu_sum st) (f_of F (window_samples st));
          completed = completed_total - completed_at_start st;
          observed_free = total_memory_mib gpu - window_peak_gpu_memory_mib st
      in \<lparr>w_mean_cpu = mean_cpu, w_mean_gpu = mean_gpu,
          w_rate = (if 0 < active \<and> active \<le> completed \<and> f_lt F (f_of F 0) (f_secs F elapsed)
                    then Some (f_div F (f_of F completed) (f_secs F elapsed)) else None),
          w_observed_free = observed_free,
          w_memory_safe = (memory_safe gpu \<and> reserve_mib gpu \<le> observed_free),
          w_cpu_safe = f_lt F mean_cpu (f_of F CPU_SATURATION_PERCENT)\<rparr>)"

definition window_score :: "'f window \<Rightarrow> 'f score" where
  "window_score w = \<lparr>score_gpu = w_mean_gpu w, score_rate = w_rate w\<rparr>"

definition settle :: "'f float_ops \<Rightarrow> instant \<Rightarrow> nat \<Rightarrow> nat \<Rightarrow> 'f gpu_sample \<Rightarrow> 'f window \<Rightarrow> 'f admission \<Rightarrow> 'f admission" where
  "settle F now active completed_total gpu w st =
     reset_window F now active completed_total
       (st\<lparr>settled := True, last_probe := now,
           adm_reason := (if \<not> w_memory_safe w then HoldingMemory (effective_limit st) (w_observed_free w) (reserve_mib gpu)
                          else if \<not> w_cpu_safe w then HoldingCpu (effective_limit st) (w_mean_cpu w)
                          else SettledAt (effective_limit st))\<rparr>)"

definition probe :: "'f float_ops \<Rightarrow> instant \<Rightarrow> nat \<Rightarrow> nat \<Rightarrow> 'f gpu_sample \<Rightarrow> 'f window \<Rightarrow> 'f admission \<Rightarrow> 'f admission option" where
  "probe F now active completed_total gpu w st =
     (if \<not> settled st \<and> has_pressure now st \<and> w_memory_safe w \<and> w_cpu_safe w then
        let desired_next = min (u32_mul (effective_limit st) 2) (ceiling st)
        in if effective_limit st < desired_next then
             (case largest_memory_safe_candidate st gpu active desired_next of
                None \<Rightarrow> None
              | Some None \<Rightarrow>
                  let projected_free = (case projected_free_memory_mib st gpu active desired_next of
                                          Some free \<Rightarrow> free | None \<Rightarrow> w_observed_free w)
                  in Some (reset_window F now active completed_total
                       (st\<lparr>settled := True, last_probe := now,
                           adm_reason := HoldingProjected (effective_limit st) desired_next projected_free (reserve_mib gpu)\<rparr>))
              | Some (Some (next, projected_free)) \<Rightarrow>
                  Some (reset_window F now active completed_total
                    (st\<lparr>testing_from := Some (effective_limit st, window_score w), effective_limit := next,
                        adm_reason := (if next = desired_next then Probing next else ProbingMemorySafe next projected_free)\<rparr>)))
           else Some (settle F now active completed_total gpu w st)
      else Some (settle F now active completed_total gpu w st))"

definition record_best :: "instant \<Rightarrow> 'f window \<Rightarrow> 'f admission \<Rightarrow> 'f admission" where
  "record_best now w st0 =
     (let st = st0\<lparr>best_limit := effective_limit st0, best_score := Some (window_score w)\<rparr>
      in if settled st \<and> REPROBE_INTERVAL \<le> now - last_probe st \<and> has_pressure now st \<and> effective_limit st < ceiling st
         then st\<lparr>settled := False\<rparr> else st)"

definition judge :: "'f float_ops \<Rightarrow> instant \<Rightarrow> nat \<Rightarrow> nat \<Rightarrow> 'f gpu_sample \<Rightarrow> 'f window \<Rightarrow> 'f admission \<Rightarrow> 'f admission option" where
  "judge F now active completed_total gpu w st0 =
     (let st = record_best now w st0
      in if settled st \<and> (\<not> w_memory_safe w \<or> \<not> w_cpu_safe w) then
           (case last_lower st of
              Some (lower_limit, lower_score) \<Rightarrow>
                Some (reset_window F now active completed_total
                  (st\<lparr>last_lower := None, effective_limit := lower_limit, best_limit := lower_limit,
                      best_score := Some lower_score, last_probe := now,
                      adm_reason := (if \<not> w_memory_safe w
                                     then ReturnedMemory lower_limit (w_observed_free w) (reserve_mib gpu)
                                     else ReturnedCpu lower_limit (w_mean_cpu w))\<rparr>))
            | None \<Rightarrow> probe F now active completed_total gpu w st)
         else probe F now active completed_total gpu w st)"

definition compare_probe :: "'f float_ops \<Rightarrow> instant \<Rightarrow> nat \<Rightarrow> nat \<Rightarrow> 'f gpu_sample \<Rightarrow> 'f window \<Rightarrow> 'f admission \<Rightarrow> 'f admission option" where
  "compare_probe F now active completed_total gpu w st =
     (case testing_from st of
        None \<Rightarrow> judge F now active completed_total gpu w st
      | Some (prior_limit, prior_score) \<Rightarrow>
          let improvement = improvement_over F (window_score w) prior_score
          in if f_lt F improvement (f_of F MARGINAL_GAIN_PERCENT) \<or> \<not> w_memory_safe w \<or> \<not> w_cpu_safe w then
               Some (reset_window F now active completed_total
                 (st\<lparr>testing_from := None, effective_limit := prior_limit, best_limit := prior_limit,
                     best_score := Some prior_score, settled := True, last_probe := now,
                     adm_reason := (if \<not> w_memory_safe w
                                    then ReturnedMemory prior_limit (w_observed_free w) (reserve_mib gpu)
                                    else if \<not> w_cpu_safe w then ReturnedCpu prior_limit (w_mean_cpu w)
                                    else ReturnedGain prior_limit improvement)\<rparr>))
             else judge F now active completed_total gpu w
                    (st\<lparr>testing_from := None, last_lower := Some (prior_limit, prior_score)\<rparr>))"

definition evaluate :: "'f float_ops \<Rightarrow> instant \<Rightarrow> nat \<Rightarrow> nat \<Rightarrow> 'f gpu_sample \<Rightarrow> 'f admission \<Rightarrow> 'f admission option" where
  "evaluate F now active completed_total gpu st =
     (let w = window_values F now active completed_total gpu st
      in if w_memory_safe w \<and> w_cpu_safe w \<and> waiting_for_maturity st \<and> w_rate w = None \<and>
            f_le F (f_of F MIN_GPU_ACTIVITY_PERCENT) (utilization_percent gpu)
         then Some ((reset_window F now active completed_total st)\<lparr>adm_reason := MatureWindow (effective_limit st)\<rparr>)
         else if w_memory_safe w \<and> w_cpu_safe w \<and> w_rate w = None \<and> f_lt F (w_mean_gpu w) (f_of F MIN_GPU_ACTIVITY_PERCENT)
         then Some (st\<lparr>waiting_for_maturity := True, adm_reason := WaitingForActivity active (effective_limit st)\<rparr>)
         else compare_probe F now active completed_total gpu w (st\<lparr>waiting_for_maturity := False\<rparr>))"

definition fail_open :: "'f float_ops \<Rightarrow> instant \<Rightarrow> nat \<Rightarrow> nat \<Rightarrow> 'f admission \<Rightarrow> 'f admission" where
  "fail_open F now active completed_total st =
     reset_window F now active completed_total
       (st\<lparr>effective_limit := ceiling st, best_limit := ceiling st, best_score := None, testing_from := None,
           last_lower := None, settled := True, telemetry_failed_open := True, idle_gpu_memory_mib := None,
           adm_reason := TelemetryUnavailable\<rparr>)"

definition recover :: "'f float_ops \<Rightarrow> instant \<Rightarrow> nat \<Rightarrow> nat \<Rightarrow> 'f admission \<Rightarrow> 'f admission" where
  "recover F now active completed_total st =
     reset_window F now active completed_total
       (st\<lparr>effective_limit := initial_limit (ceiling st), best_limit := initial_limit (ceiling st), best_score := None,
           testing_from := None, last_lower := None, settled := (initial_limit (ceiling st) = ceiling st),
           last_probe := now, telemetry_failed_open := False, idle_gpu_memory_mib := None,
           adm_reason := TelemetryRecovered\<rparr>)"

definition accumulate :: "'f float_ops \<Rightarrow> instant \<Rightarrow> nat \<Rightarrow> nat \<Rightarrow> 'f gpu_sample \<Rightarrow> 'f option \<Rightarrow> 'f admission \<Rightarrow> 'f admission" where
  "accumulate F now active completed_total gpu host_cpu st0 =
     (let st1 = (if active \<noteq> observed_active st0 then reset_window F now active completed_total st0 else st0);
          st = (if active = 0
                then st1\<lparr>idle_gpu_memory_mib := Some (case idle_gpu_memory_mib st1 of
                            None \<Rightarrow> used_memory_mib gpu | Some idle \<Rightarrow> min idle (used_memory_mib gpu))\<rparr>
                else st1)
      in st\<lparr>window_samples := u32_add (window_samples st) 1,
            gpu_utilization_sum := f_add F (gpu_utilization_sum st) (utilization_percent gpu),
            host_cpu_sum := f_add F (host_cpu_sum st) (case host_cpu of Some c \<Rightarrow> c | None \<Rightarrow> f_of F 0),
            window_peak_gpu_memory_mib := max (window_peak_gpu_memory_mib st) (used_memory_mib gpu)\<rparr>)"

definition adm_observe ::
  "'f float_ops \<Rightarrow> instant \<Rightarrow> nat \<Rightarrow> nat \<Rightarrow> 'f gpu_sample option \<Rightarrow> 'f option \<Rightarrow> 'f admission \<Rightarrow> 'f admission option" where
  "adm_observe F now active completed_total gpu host_cpu st =
     (let st0 = st\<lparr>latest_gpu := gpu, latest_host_cpu_percent := host_cpu\<rparr>
      in case gpu of
           None \<Rightarrow> Some (fail_open F now active completed_total st0)
         | Some g \<Rightarrow>
             if telemetry_failed_open st then Some (recover F now active completed_total st0)
             else
               let st1 = accumulate F now active completed_total g host_cpu st0;
                   elapsed = now - window_started st1
               in if effective_limit st1 < active then Some (st1\<lparr>adm_reason := Draining active (effective_limit st1)\<rparr>)
                  else if active \<noteq> effective_limit st1 \<or> window_samples st1 < MIN_STABLE_SAMPLES \<or> elapsed < OBSERVATION_WINDOW
                  then Some (st1\<lparr>adm_reason := Observing active (effective_limit st1)\<rparr>)
                  else evaluate F now active completed_total g st1)"

record 'f snapshot =
  snap_limit :: nat
  snap_device_limit :: nat
  snap_device :: nat
  snap_reason :: "'f reason"
  snap_calibrating :: bool
  snap_gpu_utilization :: "'f option"
  snap_memory_used :: "nat option"
  snap_memory_total :: "nat option"
  snap_cpu :: "'f option"

definition adm_snapshot :: "'f admission \<Rightarrow> 'f snapshot" where
  "adm_snapshot st =
     \<lparr>snap_limit = effective_limit st, snap_device_limit = effective_limit st, snap_device = 0,
      snap_reason = adm_reason st, snap_calibrating = (\<not> settled st),
      snap_gpu_utilization = map_option utilization_percent (latest_gpu st),
      snap_memory_used = map_option used_memory_mib (latest_gpu st),
      snap_memory_total = map_option total_memory_mib (latest_gpu st), snap_cpu = latest_host_cpu_percent st\<rparr>"

section \<open>Sharing a device among pools\<close>

record device_pool =
  dp_ceiling :: nat
  dp_active :: nat
  dp_last_demand :: "instant option"

record 'f device_state =
  dev_admission :: "'f admission"
  dev_pools :: "(string \<times> device_pool) list"

text \<open>The shares being dealt: each demanded pool with its ceiling and its share so far.\<close>

type_synonym share = "string \<times> nat \<times> nat"

text \<open>One round over the demanded pools: a pool below its ceiling gets one slot while any remain.\<close>

fun share_pass :: "share list \<Rightarrow> nat \<Rightarrow> share list \<times> nat \<times> bool" where
  "share_pass [] remaining = ([], remaining, False)"
| "share_pass ((name, cap, share) # rest) remaining =
     (if remaining = 0 then ((name, cap, share) # rest, remaining, False)
      else if share < cap then
        (case share_pass rest (remaining - 1) of (rest', r, _) \<Rightarrow> ((name, cap, share + 1) # rest', r, True))
      else
        (case share_pass rest remaining of (rest', r, advanced) \<Rightarrow> ((name, cap, share) # rest', r, advanced)))"

lemma share_pass_remaining:
  "share_pass xs r = (ys, r', advanced) \<Longrightarrow> r' \<le> r \<and> (advanced \<longrightarrow> r' < r)"
  by (induction xs r arbitrary: ys r' advanced rule: share_pass.induct)
    (fastforce split: if_splits prod.splits)+

function share_rounds :: "share list \<Rightarrow> nat \<Rightarrow> share list" where
  "share_rounds xs remaining =
     (if remaining = 0 then xs
      else case share_pass xs remaining of
             (ys, r, advanced) \<Rightarrow> if advanced then share_rounds ys r else ys)"
  by pat_completeness auto
termination
  by (relation "measure snd") (auto dest: share_pass_remaining [OF sym])

declare share_rounds.simps [simp del]

definition recent_demand :: "instant \<Rightarrow> device_pool \<Rightarrow> bool" where
  "recent_demand now pool = (case dp_last_demand pool of Some d \<Rightarrow> now - d \<le> PRESSURE_TTL | None \<Rightarrow> False)"

definition demanded_pools :: "'f device_state \<Rightarrow> string \<Rightarrow> instant \<Rightarrow> bool \<Rightarrow> (string \<times> device_pool) list" where
  "demanded_pools device target now include_target =
     sort_key fst (filter (\<lambda>(name, pool). recent_demand now pool \<or> (include_target \<and> name = target)) (dev_pools device))"

definition fair_shares :: "'f device_state \<Rightarrow> (string \<times> device_pool) list \<Rightarrow> nat \<Rightarrow> share list" where
  "fair_shares device demanded device_limit =
     (let occupied = foldl (\<lambda>t (_, pool). u32_add t (dp_active pool)) 0
                       (filter (\<lambda>(name, _). name \<notin> set (map fst demanded)) (dev_pools device))
      in share_rounds (map (\<lambda>(name, pool). (name, dp_ceiling pool, 0)) demanded) (device_limit - occupied))"

definition fair_pool_limit :: "'f device_state \<Rightarrow> string \<Rightarrow> nat \<Rightarrow> instant \<Rightarrow> bool \<Rightarrow> nat" where
  "fair_pool_limit device target device_limit now include_target =
     (let demanded = demanded_pools device target now include_target
      in if demanded = [] then
           (case map_of (dev_pools device) target of
              None \<Rightarrow> device_limit | Some pool \<Rightarrow> min (dp_ceiling pool) device_limit)
         else
           (case map_of (fair_shares device demanded device_limit) target of
              Some (_, share) \<Rightarrow> share | None \<Rightarrow> 0))"

section \<open>The registry\<close>

text \<open>The maps are association lists with distinct keys; the devices of one tick are visited in the
  order of their first pool, any order giving the same devices.\<close>

record 'f registry =
  reg_devices :: "(nat \<times> 'f device_state) list"
  reg_pool_devices :: "(string \<times> nat) list"

definition registry_default :: "'f registry" where
  "registry_default = \<lparr>reg_devices = [], reg_pool_devices = []\<rparr>"

definition pool_ceiling :: "fork_pool \<Rightarrow> nat" where
  "pool_ceiling p =
     max (min (case max_active p of Some m \<Rightarrow> m | None \<Rightarrow> desired_ready p) (desired_ready p)) 1"

definition note_blocked :: "instant \<Rightarrow> string \<Rightarrow> 'f registry \<Rightarrow> 'f registry" where
  "note_blocked now name r =
     (case map_of (reg_pool_devices r) name of
        None \<Rightarrow> r
      | Some device \<Rightarrow>
          (case map_of (reg_devices r) device of
             None \<Rightarrow> r
           | Some st \<Rightarrow>
               let pools = (case map_of (dev_pools st) name of
                              None \<Rightarrow> dev_pools st
                            | Some pool \<Rightarrow> hm_insert name (pool\<lparr>dp_last_demand := Some now\<rparr>) (dev_pools st))
               in r\<lparr>reg_devices := hm_insert device
                     (st\<lparr>dev_admission := (dev_admission st)\<lparr>last_blocked := Some now\<rparr>, dev_pools := pools\<rparr>)
                     (reg_devices r)\<rparr>))"

definition registry_limit :: "instant \<Rightarrow> fork_pool \<Rightarrow> 'f registry \<Rightarrow> admission_limit option \<times> 'f registry" where
  "registry_limit now p r =
     (if \<not> auto_admission p then (None, r)
      else
        let fallback = pool_ceiling p; static = \<lparr>limit_pool = fallback, limit_device = fallback\<rparr>
        in case admission_device_ordinal p of
             None \<Rightarrow> (Some static, r)
           | Some device \<Rightarrow>
               (case map_of (reg_devices r) device of
                  None \<Rightarrow> (Some static, r)
                | Some st \<Rightarrow>
                    let st' = (case map_of (dev_pools st) (pool_name p) of
                                 Some _ \<Rightarrow> st
                               | None \<Rightarrow> st\<lparr>dev_pools := hm_insert (pool_name p)
                                            \<lparr>dp_ceiling = fallback, dp_active = 0, dp_last_demand = None\<rparr> (dev_pools st)\<rparr>);
                        device_limit = effective_limit (dev_admission st')
                    in (Some \<lparr>limit_pool = fair_pool_limit st' (pool_name p) device_limit now True, limit_device = device_limit\<rparr>,
                        r\<lparr>reg_devices := hm_insert device st' (reg_devices r)\<rparr>)))"

definition registry_snapshot :: "instant \<Rightarrow> fork_pool \<Rightarrow> 'f registry \<Rightarrow> 'f snapshot option" where
  "registry_snapshot now p r =
     (if \<not> auto_admission p then None
      else Option.bind (admission_device_ordinal p) (\<lambda>device.
        map_option (\<lambda>st.
          let snap = adm_snapshot (dev_admission st);
              pool_limit = fair_pool_limit st (pool_name p) (snap_limit snap) now True;
              why = (if 1 < length (dev_pools st)
                     then PoolShare device (snap_limit snap) pool_limit (snap_reason snap) else snap_reason snap)
          in snap\<lparr>snap_device_limit := snap_limit snap, snap_device := device, snap_reason := why, snap_limit := pool_limit\<rparr>)
        (map_of (reg_devices r) device)))"

type_synonym observation = "fork_pool \<times> nat \<times> nat"

definition group_devices :: "observation list \<Rightarrow> (nat \<times> observation list) list" where
  "group_devices observations =
     foldl (\<lambda>grouped (p, active, completed).
        if deleting p then grouped
        else case admission_device_ordinal p of
               None \<Rightarrow> grouped
             | Some device \<Rightarrow>
                 hm_insert device ((case map_of grouped device of Some os \<Rightarrow> os | None \<Rightarrow> []) @ [(p, active, completed)]) grouped)
       [] observations"

definition sync_pools :: "observation list \<Rightarrow> (string \<times> device_pool) list \<Rightarrow> (string \<times> device_pool) list" where
  "sync_pools auto_pools pools =
     foldl (\<lambda>m (p, active, _).
        hm_insert (pool_name p)
          (case map_of m (pool_name p) of
             Some runtime \<Rightarrow> runtime\<lparr>dp_ceiling := pool_ceiling p, dp_active := active\<rparr>
           | None \<Rightarrow> \<lparr>dp_ceiling = pool_ceiling p, dp_active = active, dp_last_demand = None\<rparr>) m)
       (filter (\<lambda>(name, _). name \<in> set (map (\<lambda>(p, _). pool_name p) auto_pools)) pools) auto_pools"

definition tick_device ::
  "'f float_ops \<Rightarrow> (nat \<times> 'f gpu_sample) list option \<Rightarrow> 'f option \<Rightarrow> instant \<Rightarrow> bool \<Rightarrow> nat \<times> observation list \<Rightarrow>
   'f registry \<Rightarrow> 'f registry option" where
  "tick_device F gpu host_cpu now sample grp r =
     (case grp of (device, pools) \<Rightarrow>
        let auto_pools = filter (\<lambda>(p, _, _). auto_admission p) pools
        in if auto_pools = [] then Some r
           else
             let total_ceiling = foldl (\<lambda>t (p, _, _). u32_add t (pool_ceiling p)) 0 auto_pools;
                 active = foldl (\<lambda>t (_, a, _). u32_add t a) 0 pools;
                 completed = foldl (\<lambda>t (_, _, c). u64_add t c) 0 pools;
                 owners = foldl (\<lambda>m (p, _, _). hm_insert (pool_name p) device m) (reg_pool_devices r) auto_pools;
                 st = (case map_of (reg_devices r) device of
                         Some st \<Rightarrow> st
                       | None \<Rightarrow> \<lparr>dev_admission = admission_new F (max total_ceiling 1) now completed, dev_pools = []\<rparr>);
                 adm = update_ceiling F (max total_ceiling 1) now completed (dev_admission st);
                 pools' = sync_pools auto_pools (dev_pools st)
             in map_option (\<lambda>adm'.
                  \<lparr>reg_devices = hm_insert device \<lparr>dev_admission = adm', dev_pools = pools'\<rparr> (reg_devices r), reg_pool_devices = owners\<rparr>)
                  (if sample
                   then adm_observe F now active completed (Option.bind gpu (\<lambda>samples. map_of samples device)) host_cpu adm
                   else Some adm))"

fun tick_devices ::
  "'f float_ops \<Rightarrow> (nat \<times> 'f gpu_sample) list option \<Rightarrow> 'f option \<Rightarrow> instant \<Rightarrow> bool \<Rightarrow> (nat \<times> observation list) list \<Rightarrow>
   'f registry \<Rightarrow> 'f registry option" where
  "tick_devices F gpu host_cpu now sample [] r = Some r"
| "tick_devices F gpu host_cpu now sample (g # gs) r =
     Option.bind (tick_device F gpu host_cpu now sample g r) (tick_devices F gpu host_cpu now sample gs)"

definition update_pools_at ::
  "'f float_ops \<Rightarrow> observation list \<Rightarrow> (nat \<times> 'f gpu_sample) list option \<Rightarrow> 'f option \<Rightarrow> instant \<Rightarrow> bool \<Rightarrow>
   'f registry \<Rightarrow> 'f registry option" where
  "update_pools_at F observations gpu host_cpu now sample r =
     (let grouped = group_devices observations;
          live_names = map (\<lambda>(p, _). pool_name p)
            (filter (\<lambda>(p, _, _). \<not> deleting p \<and> auto_admission p \<and> admission_device_ordinal p \<noteq> None) observations);
          live_devices = map fst (filter (\<lambda>(_, pools). list_ex (\<lambda>(p, _, _). auto_admission p) pools) grouped);
          r' = \<lparr>reg_devices = filter (\<lambda>(device, _). device \<in> set live_devices) (reg_devices r),
                reg_pool_devices = filter (\<lambda>(name, _). name \<in> set live_names) (reg_pool_devices r)\<rparr>
      in tick_devices F gpu host_cpu now sample grouped r')"

definition observe_pools ::
  "'f float_ops \<Rightarrow> observation list \<Rightarrow> (nat \<times> 'f gpu_sample) list option \<Rightarrow> 'f option \<Rightarrow> instant \<Rightarrow> 'f registry \<Rightarrow> 'f registry option" where
  "observe_pools F observations gpu host_cpu now r = update_pools_at F observations gpu host_cpu now True r"

definition observe_pool ::
  "'f float_ops \<Rightarrow> fork_pool \<Rightarrow> nat \<Rightarrow> nat \<Rightarrow> 'f gpu_sample option \<Rightarrow> 'f option \<Rightarrow> instant \<Rightarrow> 'f registry \<Rightarrow> 'f registry option" where
  "observe_pool F p active completed gpu host_cpu now r =
     observe_pools F [(p, active, completed)] (map_option (\<lambda>s. [(device_ordinal s, s)]) gpu) host_cpu now r"

definition ensure_pools :: "'f float_ops \<Rightarrow> observation list \<Rightarrow> instant \<Rightarrow> 'f registry \<Rightarrow> 'f registry option" where
  "ensure_pools F observations now r = update_pools_at F observations None None now False r"

section \<open>Host telemetry\<close>

fun some_values :: "'a option list \<Rightarrow> 'a list" where
  "some_values [] = []"
| "some_values (None # xs) = some_values xs"
| "some_values (Some x # xs) = x # some_values xs"

text \<open>\<open>HostCpuSampler::sample\<close> on the text of \<open>/proc/stat\<close>, \<open>None\<close> when it cannot be read; the busy
  share since the previous call, and the totals remembered for the next one.\<close>

definition cpu_sample :: "'f float_ops \<Rightarrow> string option \<Rightarrow> (nat \<times> nat) option \<Rightarrow> 'f option \<times> (nat \<times> nat) option" where
  "cpu_sample F data previous =
     (case Option.bind data (\<lambda>d. case lines d of l # _ \<Rightarrow> Some (split_whitespace l) | [] \<Rightarrow> None) of
        Some (first # counters) \<Rightarrow>
          if first \<noteq> ''cpu'' then (None, previous)
          else
            let values = some_values (map (parse_uint (2 ^ 64)) counters)
            in if length values < 4 then (None, previous)
               else
                 let busy_total = sum_list values mod 2 ^ 64;
                     idle = u64_add (values ! 3) (if 4 < length values then values ! 4 else 0)
                 in (Option.bind previous (\<lambda>(old_total, old_idle).
                       let delta_total = busy_total - old_total; delta_idle = idle - old_idle
                       in if 0 < delta_total
                          then Some (f_div F (f_mul F (f_of F 100) (f_of F (delta_total - delta_idle))) (f_of F delta_total))
                          else None),
                     Some (busy_total, idle))
      | _ \<Rightarrow> (None, previous))"

record nvml_identity =
  nv_uuid :: string
  nv_name :: string
  nv_domain :: nat
  nv_bus :: nat
  nv_device :: nat
  nv_mig :: bool

datatype visible_error = IndexOutside nat nat | NotUnique string

fun select_tokens :: "nvml_identity list \<Rightarrow> string list \<Rightarrow> visible_error + nvml_identity list" where
  "select_tokens devices [] = Inr []"
| "select_tokens devices (token # tokens) =
     (if token = ''-1'' then Inr []
      else
        let picked =
          (case parse_uint (2 ^ 64) token of
             Some index \<Rightarrow> if index < length devices then Inr (devices ! index) else Inl (IndexOutside index (length devices))
           | None \<Rightarrow>
               (case filter (\<lambda>d. starts_with (nv_uuid d) token) devices of
                  [d] \<Rightarrow> Inr d | _ \<Rightarrow> Inl (NotUnique token)))
        in case picked of
             Inl e \<Rightarrow> Inl e
           | Inr d \<Rightarrow> (case select_tokens devices tokens of Inl e \<Rightarrow> Inl e | Inr ds \<Rightarrow> Inr (d # ds)))"

definition select_visible_devices :: "nvml_identity list \<Rightarrow> string option \<Rightarrow> visible_error + nvml_identity list" where
  "select_visible_devices devices visible =
     (let sorted_devices = sort_key (\<lambda>d. (nv_domain d, nv_bus d, nv_device d)) devices
      in case visible of
           None \<Rightarrow> Inr sorted_devices
         | Some v \<Rightarrow>
             if trim v = [] then Inr [] else select_tokens sorted_devices (map trim (split_char (CHR '','') v)))"

end
