(* ===== verification/Admission_Invariant.thy ===== *)
theory Admission_Invariant
  imports Admission
begin

text \<open>
  The controller of one device: the binary search of a probe against its specification, the range of
  the limits that every observation keeps, and what holds of an observation that raises the limit.
\<close>

section \<open>The search for the largest safe candidate\<close>

lemma candidate_loop_search:
  assumes "lo \<le> low" "high \<le> up" "low \<le> Suc high" "up < U32_MAX" "0 < lo"
    and project: "\<And>c. lo \<le> c \<Longrightarrow> c \<le> up \<Longrightarrow> project c = Some (p c)"
    and antitone: "\<And>c c'. lo \<le> c \<Longrightarrow> c \<le> c' \<Longrightarrow> c' \<le> up \<Longrightarrow> p c' \<le> p c"
    and "\<And>c. lo \<le> c \<Longrightarrow> c < low \<Longrightarrow> reserve \<le> p c"
    and "\<And>c. high < c \<Longrightarrow> c \<le> up \<Longrightarrow> p c < reserve"
    and "best = (if low = lo then None else Some (low - 1, p (low - 1)))"
  shows "\<exists>b. lo \<le> b \<and> b \<le> Suc up \<and> (\<forall>c. lo \<le> c \<and> c < b \<longrightarrow> reserve \<le> p c) \<and> (\<forall>c. b \<le> c \<and> c \<le> up \<longrightarrow> p c < reserve) \<and>
    candidate_loop project reserve low high best = Some (if b = lo then None else Some (b - 1, p (b - 1)))"
  using assms(1-3,8-10)
proof (induction "Suc high - low" arbitrary: low high best rule: less_induct)
  case less
  show ?case
  proof (cases "low \<le> high")
    case False
    then have "low = Suc high" using less.prems(3) by simp
    with False less.prems show ?thesis
      by (intro exI [of _ low]) (auto simp: candidate_loop.simps)
  next
    case True
    define c where "c = low + (high - low) div 2"
    have c: "low \<le> c" "c \<le> high" using True by (simp_all add: c_def)
    have bound: "lo \<le> c" "c \<le> up" "u32_add c 1 = Suc c" using c less.prems assms(4) by (simp_all add: u32_add_def)
    have loop: "candidate_loop project reserve low high best =
      (if reserve \<le> p c then candidate_loop project reserve (Suc c) high (Some (c, p c))
       else candidate_loop project reserve low (c - 1) best)"
      using True project [OF bound(1,2)] bound(3) by (subst candidate_loop.simps) (simp add: Let_def flip: c_def)
    show ?thesis
    proof (cases "reserve \<le> p c")
      case safe: True
      have "reserve \<le> p k" if "lo \<le> k" "k < Suc c" for k
        using antitone [of k c] that bound safe by simp
      moreover have "candidate_loop project reserve low high best = candidate_loop project reserve (Suc c) high (Some (c, p c))"
        using loop safe by simp
      ultimately show ?thesis by (simp only:) (rule less.hyps, use c bound less.prems in auto)
    next
      case unsafe: False
      have "p k < reserve" if "c - 1 < k" "k \<le> up" for k
      proof -
        have "c \<le> k" using that(1) by simp
        with antitone [of c k] that bound unsafe show ?thesis by simp
      qed
      moreover have "candidate_loop project reserve low high best = candidate_loop project reserve low (c - 1) best"
        using loop unsafe by simp
      ultimately show ?thesis by (simp only:) (rule less.hyps, use c bound less.prems assms(5) in auto)
    qed
  qed
qed

definition projection :: "'f admission \<Rightarrow> 'f gpu_sample \<Rightarrow> nat \<Rightarrow> nat \<Rightarrow> nat" where
  "projection st gpu active c =
     (case projected_free_memory_mib st gpu active c of Some free \<Rightarrow> free | None \<Rightarrow> 0)"

lemma projected_Some:
  assumes "0 < active" "active < c"
  shows "projected_free_memory_mib st gpu active c = Some (projection st gpu active c)"
  using assms by (simp add: projection_def projected_free_memory_mib_def Let_def)

text \<open>A larger candidate never leaves more memory free.\<close>

lemma projection_antitone:
  assumes "0 < active" "active < c" "c \<le> c'"
  shows "projection st gpu active c' \<le> projection st gpu active c"
  using assms unfolding projection_def projected_free_memory_mib_def Let_def
  by (simp add: diff_le_mono2 u64_add_mono div_ceil_mono u64_mul_mono)

lemma largest_candidate:
  assumes "0 < active" "active < upper" "upper < U32_MAX"
  shows "\<exists>b. active < b \<and> b \<le> Suc upper \<and>
    (\<forall>c. active < c \<and> c < b \<longrightarrow> reserve_mib gpu \<le> projection st gpu active c) \<and>
    (\<forall>c. b \<le> c \<and> c \<le> upper \<longrightarrow> projection st gpu active c < reserve_mib gpu) \<and>
    largest_memory_safe_candidate st gpu active upper =
      Some (if b = Suc active then None else Some (b - 1, projection st gpu active (b - 1)))"
proof -
  have "u32_add active (Suc 0) = Suc active" using assms by (simp add: u32_add_def)
  then have eq: "largest_memory_safe_candidate st gpu active upper =
    candidate_loop (projected_free_memory_mib st gpu active) (reserve_mib gpu) (Suc active) upper None"
    using assms by (simp add: largest_memory_safe_candidate_def)
  have "\<exists>b. Suc active \<le> b \<and> b \<le> Suc upper \<and> (\<forall>c. Suc active \<le> c \<and> c < b \<longrightarrow> reserve_mib gpu \<le> projection st gpu active c) \<and>
    (\<forall>c. b \<le> c \<and> c \<le> upper \<longrightarrow> projection st gpu active c < reserve_mib gpu) \<and>
    candidate_loop (projected_free_memory_mib st gpu active) (reserve_mib gpu) (Suc active) upper None =
      Some (if b = Suc active then None else Some (b - 1, projection st gpu active (b - 1)))"
    by (rule candidate_loop_search) (use assms in \<open>auto simp: projected_Some projection_antitone\<close>)
  then show ?thesis unfolding eq Suc_le_eq .
qed

definition stuck_search :: "(nat \<Rightarrow> nat option) \<Rightarrow> nat \<Rightarrow> nat \<Rightarrow> nat \<Rightarrow> bool" where
  "stuck_search project reserve low high \<longleftrightarrow>
     low = U32_MAX \<and> high = U32_MAX \<and> (\<exists>free. project U32_MAX = Some free \<and> reserve \<le> free)"

lemma candidate_loop_returns:
  assumes "candidate_loop project reserve low high best = Some y"
  shows "\<not> stuck_search project reserve low high"
proof (rule candidate_loop.raw_induct [OF _ assms, of "\<lambda>project reserve low high best y. \<not> stuck_search project reserve low high"])
  fix loop :: "(nat \<Rightarrow> nat option) \<Rightarrow> nat \<Rightarrow> nat \<Rightarrow> nat \<Rightarrow> (nat \<times> nat) option \<Rightarrow> (nat \<times> nat) option option"
    and project reserve low high best y
  assume IH: "\<And>project reserve low high best y. loop project reserve low high best = Some y \<Longrightarrow> \<not> stuck_search project reserve low high"
    and eq: "(if low \<le> high then
        let candidate = low + (high - low) div 2
        in case project candidate of
             None \<Rightarrow> Some None
           | Some projected_free \<Rightarrow>
               if reserve \<le> projected_free
               then loop project reserve (u32_add candidate 1) high (Some (candidate, projected_free))
               else loop project reserve low (candidate - 1) best
      else Some best) = Some y"
  show "\<not> stuck_search project reserve low high"
  proof
    assume stuck: "stuck_search project reserve low high"
    then obtain free where free: "project U32_MAX = Some free" "reserve \<le> free" "low = U32_MAX" "high = U32_MAX"
      by (auto simp: stuck_search_def)
    with eq have "loop project reserve U32_MAX U32_MAX (Some (U32_MAX, free)) = Some y"
      by (simp add: Let_def u32_add_def)
    with IH stuck free show False by blast
  qed
qed

text \<open>The largest \<open>u32\<close> is the one bound the search does not return from.\<close>

lemma candidate_loop_diverges:
  "project U32_MAX = Some free \<Longrightarrow> reserve \<le> free \<Longrightarrow> candidate_loop project reserve U32_MAX U32_MAX best = None"
  using candidate_loop_returns [of project reserve U32_MAX U32_MAX best]
  by (cases "candidate_loop project reserve U32_MAX U32_MAX best") (auto simp: stuck_search_def)

section \<open>The limits of one device\<close>

definition adm_ok :: "'f admission \<Rightarrow> bool" where
  "adm_ok st \<longleftrightarrow>
     1 \<le> effective_limit st \<and> effective_limit st \<le> ceiling st \<and> 1 \<le> best_limit st \<and> best_limit st \<le> ceiling st \<and>
     (\<forall>l s. testing_from st = Some (l, s) \<longrightarrow> 1 \<le> l \<and> l < effective_limit st) \<and>
     (\<forall>l s. last_lower st = Some (l, s) \<longrightarrow> 1 \<le> l \<and> l < effective_limit st \<and>
        (\<forall>l' s'. testing_from st = Some (l', s') \<longrightarrow> l < l'))"

lemma initial_limit_bounds: "1 \<le> c \<Longrightarrow> 1 \<le> initial_limit c \<and> initial_limit c \<le> c"
  by (simp add: initial_limit_def div_ceil_le)

lemma admission_new_ok: "1 \<le> c \<Longrightarrow> adm_ok (admission_new F c now completed)"
  using initial_limit_bounds [of c] by (simp add: adm_ok_def admission_new_def)

lemma reset_window_fields [simp]:
  "ceiling (reset_window F now a t st) = ceiling st" "effective_limit (reset_window F now a t st) = effective_limit st"
  "best_limit (reset_window F now a t st) = best_limit st" "testing_from (reset_window F now a t st) = testing_from st"
  "last_lower (reset_window F now a t st) = last_lower st" "last_blocked (reset_window F now a t st) = last_blocked st"
  "settled (reset_window F now a t st) = settled st" "idle_gpu_memory_mib (reset_window F now a t st) = idle_gpu_memory_mib st"
  by (simp_all add: reset_window_def)

lemma reset_window_ok [simp]: "adm_ok (reset_window F now a t st) = adm_ok st"
  by (simp add: adm_ok_def)

lemma update_ceiling_ok: "1 \<le> c \<Longrightarrow> adm_ok st \<Longrightarrow> adm_ok (update_ceiling F c now t st) \<and> ceiling (update_ceiling F c now t st) = c"
  by (auto simp: update_ceiling_def adm_ok_def Let_def)

lemma accumulate_fields [simp]:
  "ceiling (accumulate F now a t g cpu st) = ceiling st" "effective_limit (accumulate F now a t g cpu st) = effective_limit st"
  "best_limit (accumulate F now a t g cpu st) = best_limit st" "testing_from (accumulate F now a t g cpu st) = testing_from st"
  "last_lower (accumulate F now a t g cpu st) = last_lower st" "last_blocked (accumulate F now a t g cpu st) = last_blocked st"
  by (simp_all add: accumulate_def Let_def)

lemma accumulate_ok [simp]: "adm_ok (accumulate F now a t g cpu st) = adm_ok st"
  by (simp add: adm_ok_def)

lemma settle_ok [simp]: "adm_ok (settle F now a t g w st) = adm_ok st"
  "effective_limit (settle F now a t g w st) = effective_limit st" "ceiling (settle F now a t g w st) = ceiling st"
  by (simp_all add: settle_def adm_ok_def)

text \<open>A probe: the limit is kept, or raised to a candidate whose projection keeps the reserve.\<close>

definition raised_safely :: "instant \<Rightarrow> nat \<Rightarrow> 'f gpu_sample \<Rightarrow> 'f admission \<Rightarrow> 'f admission \<Rightarrow> bool" where
  "raised_safely now active gpu st st' \<longleftrightarrow>
     effective_limit st' \<le> effective_limit st \<or>
     (effective_limit st' \<le> 2 * effective_limit st \<and> effective_limit st' \<le> ceiling st \<and> has_pressure now st \<and>
      reserve_mib gpu \<le> projection st gpu active (effective_limit st'))"

lemma probe_result:
  assumes "adm_ok st" "testing_from st = None" "active = effective_limit st" "ceiling st < U32_MAX"
  shows "\<exists>st'. probe F now active t gpu w st = Some st' \<and> adm_ok st' \<and> ceiling st' = ceiling st \<and> raised_safely now active gpu st st'"
proof (cases "\<not> settled st \<and> has_pressure now st \<and> w_memory_safe w \<and> w_cpu_safe w \<and>
    effective_limit st < min (u32_mul (effective_limit st) 2) (ceiling st)")
  case False
  then have "probe F now active t gpu w st = Some (settle F now active t gpu w st)" by (auto simp: probe_def Let_def)
  with assms(1) show ?thesis by (simp add: raised_safely_def)
next
  case True
  define d where "d = min (u32_mul (effective_limit st) 2) (ceiling st)"
  have d: "active < d" "d < U32_MAX" "d \<le> ceiling st" "d \<le> 2 * effective_limit st" "0 < active"
    using True assms by (auto simp: d_def u32_mul_def adm_ok_def)
  obtain b where b: "active < b" "b \<le> Suc d" "\<forall>c. active < c \<and> c < b \<longrightarrow> reserve_mib gpu \<le> projection st gpu active c"
    "largest_memory_safe_candidate st gpu active d = Some (if b = Suc active then None else Some (b - 1, projection st gpu active (b - 1)))"
    using largest_candidate [OF d(5,1,2), of gpu st] by blast
  show ?thesis
  proof (cases "b = Suc active")
    case hold: True
    with True b(4) assms(1) show ?thesis
      by (simp add: probe_def Let_def raised_safely_def adm_ok_def flip: d_def)
  next
    case step: False
    then have "active < b - 1" "b - 1 \<le> d" "reserve_mib gpu \<le> projection st gpu active (b - 1)" using b by auto
    with step True b(4) assms(1-3) d show ?thesis
      by (simp add: probe_def Let_def raised_safely_def adm_ok_def flip: d_def) (auto intro: order_trans)
  qed
qed

lemma raised_safely_refl [simp]: "effective_limit st' \<le> effective_limit st \<Longrightarrow> raised_safely now active gpu st st'"
  by (simp add: raised_safely_def)

text \<open>The decision only reads the fields that the bookkeeping before it leaves alone.\<close>

definition same_view :: "'f admission \<Rightarrow> 'f admission \<Rightarrow> bool" where
  "same_view st st' \<longleftrightarrow>
     effective_limit st' = effective_limit st \<and> ceiling st' = ceiling st \<and> last_blocked st' = last_blocked st \<and>
     window_peak_gpu_memory_mib st' = window_peak_gpu_memory_mib st \<and> idle_gpu_memory_mib st' = idle_gpu_memory_mib st"

lemma raised_safely_view: "same_view st st1 \<Longrightarrow> raised_safely now active gpu st1 st' = raised_safely now active gpu st st'"
  by (simp add: same_view_def raised_safely_def has_pressure_def projection_def projected_free_memory_mib_def)

lemma judge_result:
  assumes "adm_ok st" "testing_from st = None" "active = effective_limit st" "ceiling st < U32_MAX"
  shows "\<exists>st'. judge F now active t gpu w st = Some st' \<and> adm_ok st' \<and> ceiling st' = ceiling st \<and> raised_safely now active gpu st st'"
proof -
  define st2 where "st2 = record_best now w st"
  have ok: "adm_ok st2" "testing_from st2 = None" "active = effective_limit st2" "ceiling st2 = ceiling st" "same_view st st2"
    using assms by (simp_all add: st2_def record_best_def Let_def adm_ok_def same_view_def)
  obtain st' where p: "probe F now active t gpu w st2 = Some st'" "adm_ok st'" "ceiling st' = ceiling st" "raised_safely now active gpu st st'"
    using probe_result [OF ok(1-3), of F now t gpu w] assms(4) ok(4) raised_safely_view [OF ok(5)] by auto
  show ?thesis
  proof (cases "settled st2 \<and> (\<not> w_memory_safe w \<or> \<not> w_cpu_safe w) \<and> last_lower st2 \<noteq> None")
    case True
    then obtain l s where l: "last_lower st2 = Some (l, s)" by auto
    then have "1 \<le> l" "l < effective_limit st2" using ok(1) by (auto simp: adm_ok_def)
    moreover have "effective_limit st2 = effective_limit st" using ok(5) by (simp add: same_view_def)
    ultimately show ?thesis using True l ok(1,2,4)
      by (simp add: judge_def Let_def adm_ok_def flip: st2_def)
  next
    case False
    then have "judge F now active t gpu w st = probe F now active t gpu w st2"
      by (auto simp: judge_def Let_def simp flip: st2_def split: option.splits)
    with p show ?thesis by simp
  qed
qed

lemma compare_result:
  assumes "adm_ok st" "active = effective_limit st" "ceiling st < U32_MAX"
  shows "\<exists>st'. compare_probe F now active t gpu w st = Some st' \<and> adm_ok st' \<and> ceiling st' = ceiling st \<and> raised_safely now active gpu st st'"
proof (cases "testing_from st")
  case None
  with judge_result [OF assms(1) None assms(2,3)] show ?thesis by (simp add: compare_probe_def)
next
  case (Some p)
  obtain l s where p: "p = (l, s)" by (cases p)
  have l: "1 \<le> l" "l < effective_limit st" using assms(1) Some p by (auto simp: adm_ok_def)
  let ?st = "st\<lparr>testing_from := None, last_lower := Some (l, s)\<rparr>"
  have ok: "adm_ok ?st" using assms(1) l by (simp add: adm_ok_def)
  have view: "same_view st ?st" by (simp add: same_view_def)
  show ?thesis
  proof (cases "f_lt F (improvement_over F (window_score w) s) (f_of F MARGINAL_GAIN_PERCENT) \<or> \<not> w_memory_safe w \<or> \<not> w_cpu_safe w")
    case True
    with Some p l assms(1) show ?thesis by (auto simp: compare_probe_def Let_def adm_ok_def)
  next
    case False
    with Some p have "compare_probe F now active t gpu w st = judge F now active t gpu w ?st" by (simp add: compare_probe_def Let_def)
    with judge_result [OF ok] assms(2,3) raised_safely_view [OF view] show ?thesis by simp
  qed
qed

lemma evaluate_result:
  assumes "adm_ok st" "active = effective_limit st" "ceiling st < U32_MAX"
  shows "\<exists>st'. evaluate F now active t gpu st = Some st' \<and> adm_ok st' \<and> ceiling st' = ceiling st \<and> raised_safely now active gpu st st'"
proof -
  let ?st = "st\<lparr>waiting_for_maturity := False\<rparr>"
  have ok: "adm_ok ?st" "same_view st ?st" using assms(1) by (simp_all add: adm_ok_def same_view_def)
  have "active = effective_limit ?st" "ceiling ?st < U32_MAX" using assms(2,3) by simp_all
  from compare_result [OF ok(1) this, of F now t gpu "window_values F now active t gpu st"] obtain st' where
    "compare_probe F now active t gpu (window_values F now active t gpu st) ?st = Some st'" "adm_ok st'"
    "ceiling st' = ceiling st" "raised_safely now active gpu st st'"
    unfolding raised_safely_view [OF ok(2)] by auto
  with assms(1) show ?thesis by (auto simp: evaluate_def Let_def adm_ok_def)
qed

lemma initial_ceiling_ok: "adm_ok st \<Longrightarrow> 1 \<le> ceiling st"
  by (simp add: adm_ok_def)

text \<open>One controller tick returns, keeps the limits in range, and raises the limit only by a safe probe,
  by failing open, or by recovering.\<close>

lemma observe_result:
  assumes "adm_ok st" "ceiling st < U32_MAX"
  shows "\<exists>st'. adm_observe F now active t gpu cpu st = Some st' \<and> adm_ok st' \<and> ceiling st' = ceiling st \<and>
    (\<forall>g. gpu = Some g \<longrightarrow> \<not> telemetry_failed_open st \<longrightarrow> effective_limit st < effective_limit st' \<longrightarrow>
       active = effective_limit st \<and>
       raised_safely now active g (accumulate F now active t g cpu (st\<lparr>latest_gpu := gpu, latest_host_cpu_percent := cpu\<rparr>)) st')"
proof (cases gpu)
  case None
  with assms initial_ceiling_ok [OF assms(1)] show ?thesis
    by (simp add: adm_observe_def fail_open_def adm_ok_def)
next
  case (Some g)
  define st0 where "st0 = st\<lparr>latest_gpu := gpu, latest_host_cpu_percent := cpu\<rparr>"
  define st1 where "st1 = accumulate F now active t g cpu st0"
  have ok0: "adm_ok st0" "ceiling st0 = ceiling st" "effective_limit st0 = effective_limit st"
    using assms(1) by (simp_all add: st0_def adm_ok_def)
  have ok1: "adm_ok st1" "ceiling st1 = ceiling st" "effective_limit st1 = effective_limit st"
    using ok0 by (simp_all add: st1_def)
  show ?thesis
  proof (cases "telemetry_failed_open st")
    case True
    with Some assms initial_limit_bounds [OF initial_ceiling_ok [OF assms(1)]] show ?thesis
      by (simp add: adm_observe_def recover_def adm_ok_def)
  next
    case False
    have obs: "adm_observe F now active t gpu cpu st =
      (if effective_limit st1 < active then Some (st1\<lparr>adm_reason := Draining active (effective_limit st1)\<rparr>)
       else if active \<noteq> effective_limit st1 \<or> window_samples st1 < MIN_STABLE_SAMPLES \<or> now - window_started st1 < OBSERVATION_WINDOW
       then Some (st1\<lparr>adm_reason := Observing active (effective_limit st1)\<rparr>)
       else evaluate F now active t g st1)"
      using Some False by (simp add: adm_observe_def Let_def st0_def st1_def)
    have same: "adm_ok (st1\<lparr>adm_reason := why\<rparr>)" for why using ok1(1) by (simp add: adm_ok_def)
    obtain st' where ev: "active = effective_limit st1 \<Longrightarrow> evaluate F now active t g st1 = Some st' \<and> adm_ok st' \<and>
      ceiling st' = ceiling st \<and> raised_safely now active g st1 st'"
      using evaluate_result [OF ok1(1)] ok1 assms(2) by metis
    have "\<exists>st'. adm_observe F now active t gpu cpu st = Some st' \<and> adm_ok st' \<and> ceiling st' = ceiling st \<and>
      (effective_limit st < effective_limit st' \<longrightarrow> active = effective_limit st \<and> raised_safely now active g st1 st')"
      unfolding obs using ev same ok1 by auto
    then show ?thesis unfolding st1_def st0_def Some by auto
  qed
qed

end
