(* ===== verification/Admission_Shares.thy ===== *)
theory Admission_Shares
  imports Admission
begin

text \<open>
  The shares of the pools of one device: the rounds of \<open>fair_pool_limit\<close> end, hand out what there is, and
  are max-min fair.
\<close>

section \<open>Fair shares\<close>

definition dealt :: "nat \<Rightarrow> (string \<times> nat) list \<Rightarrow> share list" where
  "dealt k ps = map (\<lambda>(n, c). (n, c, min c k)) ps"

definition within_round :: "nat \<Rightarrow> (string \<times> nat) list \<Rightarrow> share list \<Rightarrow> bool" where
  "within_round k ps ys \<longleftrightarrow>
     list_all2 (\<lambda>(n, c) (n', c', s). n' = n \<and> c' = c \<and> min c k \<le> s \<and> s \<le> min c (Suc k)) ps ys"

definition shared :: "share list \<Rightarrow> nat" where
  "shared ys = sum_list (map (\<lambda>(_, _, s). s) ys)"

lemma dealt_simps [simp]: "dealt k [] = []" "dealt k ((n, c) # ps) = (n, c, min c k) # dealt k ps"
  by (simp_all add: dealt_def)

lemma shared_simps [simp]: "shared [] = 0" "shared ((n, c, s) # ys) = s + shared ys"
  by (simp_all add: shared_def)

lemma within_round_simps [simp]:
  "within_round k [] ys \<longleftrightarrow> ys = []" "\<not> within_round k (p # ps) []"
  "within_round k ((n, c) # ps) ((n', c', s) # ys) \<longleftrightarrow>
     n' = n \<and> c' = c \<and> min c k \<le> s \<and> s \<le> min c (Suc k) \<and> within_round k ps ys"
  by (auto simp: within_round_def)

lemma within_round_dealt [simp]: "within_round k ps (dealt k ps)"
  by (induction ps) auto

lemma within_round_next [simp]: "within_round k ps (dealt (Suc k) ps)"
  by (induction ps) auto

text \<open>One round, entered with every pool at its share of the round before.\<close>

lemma share_pass_round:
  "share_pass (dealt k ps) r = (ys, r', advanced) \<Longrightarrow>
   within_round k ps ys \<and> shared ys + r' = shared (dealt k ps) + r \<and> (0 < r' \<longrightarrow> ys = dealt (Suc k) ps) \<and>
   (0 < r \<longrightarrow> \<not> advanced \<longrightarrow> ys = dealt k ps \<and> (\<forall>(n, c) \<in> set ps. c \<le> k))"
proof (induction ps arbitrary: r ys r' advanced)
  case (Cons p ps)
  obtain n c where p: "p = (n, c)" by (cases p)
  obtain zs q adv where rest: "share_pass (dealt k ps) (if k < c then r - 1 else r) = (zs, q, adv)"
    by (cases "share_pass (dealt k ps) (if k < c then r - 1 else r)")
  note IH = Cons.IH [OF rest]
  consider "r = 0" | "0 < r" "k < c" | "0 < r" "\<not> k < c" by linarith
  then show ?case
  proof cases
    case 1
    with Cons.prems show ?thesis by (auto simp: p)
  next
    case 2
    with Cons.prems rest have "ys = (n, c, Suc k) # zs" "r' = q" "advanced" by (auto simp: p min_def)
    with IH 2 show ?thesis by (auto simp: p)
  next
    case 3
    with Cons.prems rest have "ys = (n, c, c) # zs" "r' = q" "advanced = adv" by (auto simp: p min_def)
    with IH 3 show ?thesis by (auto simp: p min_def)
  qed
qed simp

lemma shared_dealt_le: "shared (dealt k ps) \<le> sum_list (map snd ps)"
  by (induction ps) (auto simp: min_def)

lemma shared_within: "within_round k ps ys \<Longrightarrow> shared ys \<le> sum_list (map snd ps)"
proof (induction ps arbitrary: ys)
  case (Cons p ps)
  obtain n c where p: "p = (n, c)" by (cases p)
  with Cons.prems obtain s zs where "ys = (n, c, s) # zs" by (cases ys) auto
  with Cons p show ?case by (auto intro: add_mono)
qed simp

lemma shared_full: "\<forall>(n, c) \<in> set ps. c \<le> k \<Longrightarrow> shared (dealt k ps) = sum_list (map snd ps)"
  by (induction ps) auto

lemma share_rounds_fair:
  "(\<exists>k'. within_round k' ps (share_rounds (dealt k ps) r)) \<and>
   shared (share_rounds (dealt k ps) r) = min (shared (dealt k ps) + r) (sum_list (map snd ps))"
proof (induction r arbitrary: k rule: less_induct)
  case (less r)
  obtain ys q adv where pass: "share_pass (dealt k ps) r = (ys, q, adv)" by (cases "share_pass (dealt k ps) r")
  note round = share_pass_round [OF pass] share_pass_remaining [OF pass]
  consider "r = 0" | "0 < r" "\<not> adv" | "0 < r" "adv" "q = 0" | "0 < r" "adv" "0 < q" by linarith
  then show ?case
  proof cases
    case 1
    then show ?thesis using shared_dealt_le [of k ps] by (auto simp: share_rounds.simps intro: within_round_dealt)
  next
    case 2
    then have "share_rounds (dealt k ps) r = dealt k ps" "shared (dealt k ps) = sum_list (map snd ps)"
      using pass round shared_full by (auto simp: share_rounds.simps)
    then show ?thesis by (auto intro: within_round_dealt)
  next
    case 3
    then have "share_rounds (dealt k ps) r = ys" using pass by (simp add: share_rounds.simps)
    then show ?thesis using round 3 shared_within [of k ps ys] by auto
  next
    case 4
    then have eq: "share_rounds (dealt k ps) r = share_rounds (dealt (Suc k) ps) q"
      using pass round by (subst share_rounds.simps) simp
    have "shared (dealt (Suc k) ps) + q = shared (dealt k ps) + r" "q < r" using round 4 by auto
    with less.IH [of q "Suc k"] show ?thesis unfolding eq by simp
  qed
qed

lemma within_round_lookup:
  "within_round k ps ys \<Longrightarrow> distinct (map fst ps) \<Longrightarrow> (n, c) \<in> set ps \<Longrightarrow>
   \<exists>s. map_of ys n = Some (c, s) \<and> min c k \<le> s \<and> s \<le> min c (Suc k)"
proof (induction ps arbitrary: ys)
  case (Cons p ps)
  obtain m d where p: "p = (m, d)" by (cases p)
  with Cons.prems obtain s zs where ys: "ys = (m, d, s) # zs" by (cases ys) auto
  show ?case
  proof (cases "n = m")
    case True
    with Cons.prems p ys show ?thesis by (force simp: image_iff)
  next
    case False
    with Cons.prems p ys have "within_round k ps zs" "distinct (map fst ps)" "(n, c) \<in> set ps" by auto
    from Cons.IH [OF this] False ys show ?thesis by simp
  qed
qed simp

lemma within_round_sum:
  "within_round k ps ys \<Longrightarrow> distinct (map fst ps) \<Longrightarrow>
   sum_list (map (\<lambda>(n, _). case map_of ys n of Some (_, s) \<Rightarrow> s | None \<Rightarrow> 0) ps) = shared ys"
proof (induction ps arbitrary: ys)
  case (Cons p ps)
  obtain m d where p: "p = (m, d)" by (cases p)
  with Cons.prems obtain s zs where ys: "ys = (m, d, s) # zs" "within_round k ps zs" by (cases ys) auto
  define f :: "share list \<Rightarrow> string \<Rightarrow> nat" where "f = (\<lambda>ys n. case map_of ys n of Some (_, s) \<Rightarrow> s | None \<Rightarrow> 0)"
  have "map (\<lambda>(n, _). f ys n) ps = map (\<lambda>(n, _). f zs n) ps"
    using Cons.prems(2) p ys(1) by (intro map_cong) (auto simp: f_def image_iff)
  moreover have "sum_list (map (\<lambda>(n, _). f zs n) ps) = shared zs"
    unfolding f_def using Cons.IH [OF ys(2)] Cons.prems(2) by simp
  moreover have "f ys m = s" by (simp add: f_def ys(1))
  moreover have "shared ys = s + shared zs" by (simp add: ys(1))
  ultimately have "f ys m + sum_list (map (\<lambda>(n, _). f ys n) ps) = shared ys" by (simp only:)
  then show ?case by (simp add: p f_def)
qed simp

abbreviation recent_pools :: "instant \<Rightarrow> 'f device_state \<Rightarrow> (string \<times> device_pool) list" where
  "recent_pools now device \<equiv> filter (\<lambda>(_, pool). recent_demand now pool) (dev_pools device)"

definition idle_active :: "instant \<Rightarrow> 'f device_state \<Rightarrow> nat" where
  "idle_active now device =
     foldl (\<lambda>t (_, pool). u32_add t (dp_active pool)) 0 (filter (\<lambda>(_, pool). \<not> recent_demand now pool) (dev_pools device))"

lemma fair_shares_within:
  assumes "ps = map (\<lambda>(name, pool). (name, dp_ceiling pool)) demanded"
  shows "\<exists>k. within_round k ps (fair_shares device demanded limit)"
    "shared (fair_shares device demanded limit) \<le> limit"
proof -
  have "map (\<lambda>(name, pool). (name, dp_ceiling pool, 0::nat)) demanded = dealt 0 ps"
    by (auto simp: dealt_def assms split_def)
  moreover have "shared (dealt 0 ps) = 0" by (induction ps) auto
  ultimately show "\<exists>k. within_round k ps (fair_shares device demanded limit)"
    "shared (fair_shares device demanded limit) \<le> limit"
    using share_rounds_fair [of ps 0] by (simp_all add: fair_shares_def Let_def min.coboundedI1)
qed

lemma filter_keys:
  "distinct (map fst xs) \<Longrightarrow>
   filter (\<lambda>(n, _). n \<notin> set (map fst (filter P xs))) xs = filter (\<lambda>x. \<not> P x) xs"
  by (intro filter_cong) (auto simp: image_iff dest: eq_key_imp_eq_value)

lemma sort_key_keys [simp]: "distinct (map fst (sort_key f xs)) = distinct (map fst xs)"
  by (metis distinct_map distinct_sort inj_on_cong set_sort)

lemma demanded_recent:
  assumes "(n, pool) \<in> set (recent_pools now device)" "distinct (map fst (dev_pools device))"
  shows "demanded_pools device n now b = sort_key fst (recent_pools now device)"
proof -
  have "recent_demand now p" if "(n, p) \<in> set (dev_pools device)" for p
    using assms that by (auto dest: eq_key_imp_eq_value)
  then show ?thesis unfolding demanded_pools_def by (intro arg_cong [of _ _ "sort_key fst"] filter_cong) auto
qed

lemma fair_pool_limit_share:
  assumes "(n, pool) \<in> set (recent_pools now device)" "distinct (map fst (dev_pools device))"
  shows "fair_pool_limit device n limit now b =
    (case map_of (fair_shares device (sort_key fst (recent_pools now device)) limit) n of Some (_, s) \<Rightarrow> s | None \<Rightarrow> 0)"
proof -
  have "sort_key fst (recent_pools now device) \<noteq> []" using assms(1) by (metis empty_iff empty_set set_sort)
  then show ?thesis unfolding fair_pool_limit_def demanded_recent [OF assms] by (simp add: Let_def)
qed

text \<open>C18: Fair sharing of a device: the limits handed to the pools with recent demand add up to what the
  idle pools leave of the device limit, or to the sum of the ceilings when that is less; no pool exceeds
  its ceiling; and the limits are max-min fair: for one number k, every pool has k or k + 1 slots, or its
  whole ceiling when that is at most k.\<close>

theorem pool_limits_fair:
  assumes "distinct (map fst (dev_pools device))"
  shows "sum_list (map (\<lambda>(n, _). fair_pool_limit device n limit now b) (recent_pools now device)) =
      min (limit - idle_active now device) (sum_list (map (\<lambda>(_, pool). dp_ceiling pool) (recent_pools now device))) \<and>
    (\<exists>k. \<forall>(n, pool) \<in> set (recent_pools now device).
       min (dp_ceiling pool) k \<le> fair_pool_limit device n limit now b \<and>
       fair_pool_limit device n limit now b \<le> min (dp_ceiling pool) (k + 1))"
proof -
  define R where "R = recent_pools now device"
  define D where "D = sort_key fst R"
  define ps where "ps = map (\<lambda>(name, pool). (name, dp_ceiling pool)) D"
  define ys where "ys = fair_shares device D limit"
  let ?f = "\<lambda>n. case map_of ys n of Some (_, s) \<Rightarrow> s | None \<Rightarrow> 0"
  have R: "distinct (map fst R)" "set D = set R" "mset D = mset R" "set R \<subseteq> set (dev_pools device)"
    using assms by (auto simp: R_def D_def distinct_map_filter)
  have keys: "map fst ps = map fst D" by (simp add: ps_def split_def)
  then have ps: "distinct (map fst ps)" using R(1) by (simp add: D_def)
  have share: "fair_pool_limit device n limit now b = ?f n" if "(n, pool) \<in> set R" for n pool
    using fair_pool_limit_share [OF _ assms, of n pool now limit b] that by (simp add: ys_def D_def R_def)
  have deal: "ys = share_rounds (dealt 0 ps) (limit - idle_active now device)"
  proof -
    have "set (map fst D) = set (map fst R)" using R(2) by simp
    then have "filter (\<lambda>(n, _). n \<notin> set (map fst D)) (dev_pools device) =
      filter (\<lambda>(_, pool). \<not> recent_demand now pool) (dev_pools device)"
      using filter_keys [OF assms, of "\<lambda>(_, pool). recent_demand now pool"] by (simp add: R_def split_def)
    then show ?thesis by (simp add: ys_def fair_shares_def idle_active_def dealt_def ps_def comp_def split_def)
  qed
  have zero: "shared (dealt 0 ps) = 0" by (induction ps) auto
  obtain k where k: "within_round k ps ys" and total: "shared ys = min (limit - idle_active now device) (sum_list (map snd ps))"
    using share_rounds_fair [of ps 0 "limit - idle_active now device"] zero deal by auto
  have sums: "sum_list (map g R) = sum_list (map g D)" for g :: "string \<times> device_pool \<Rightarrow> nat"
    using R(3) by (metis mset_map sum_mset_sum_list)
  have "sum_list (map (\<lambda>(n, _). fair_pool_limit device n limit now b) R) = sum_list (map (\<lambda>(n, _). ?f n) R)"
    using share by (intro arg_cong [of _ _ sum_list] map_cong) auto
  also have "\<dots> = sum_list (map (\<lambda>(n, _). ?f n) ps)" unfolding sums by (simp add: ps_def comp_def split_def)
  also have "\<dots> = shared ys" by (rule within_round_sum [OF k ps])
  finally have "sum_list (map (\<lambda>(n, _). fair_pool_limit device n limit now b) R) =
    min (limit - idle_active now device) (sum_list (map (\<lambda>(_, pool). dp_ceiling pool) R))"
    unfolding total sums by (simp add: ps_def comp_def split_def)
  moreover have "min (dp_ceiling pool) k \<le> fair_pool_limit device n limit now b \<and>
    fair_pool_limit device n limit now b \<le> min (dp_ceiling pool) (k + 1)" if mem: "(n, pool) \<in> set R" for n pool
  proof -
    have "(n, dp_ceiling pool) \<in> set ps" using mem R(2) by (force simp: ps_def)
    from within_round_lookup [OF k ps this] share [OF mem] show ?thesis by auto
  qed
  ultimately show ?thesis unfolding R_def by blast
qed

text \<open>An arithmetic to run the controller with.\<close>

definition nat_ops :: "nat float_ops" where
  "nat_ops = \<lparr>f_add = (+), f_sub = (-), f_mul = (*), f_div = (div), f_lt = (<), f_le = (\<le>), f_of = id,
     f_secs = (\<lambda>n. n div 1000000000), f_infinity = 1000000000\<rparr>"

text \<open>Three pools on a device of ten slots: two with recent demand, and an idle one holding three leases.\<close>

definition three_pools :: "nat device_state" where
  "three_pools =
     \<lparr>dev_admission = admission_new nat_ops 15 0 0,
      dev_pools = [(''b'', \<lparr>dp_ceiling = 9, dp_active = 1, dp_last_demand = Some (secs 5)\<rparr>),
                   (''a'', \<lparr>dp_ceiling = 2, dp_active = 0, dp_last_demand = Some (secs 6)\<rparr>),
                   (''c'', \<lparr>dp_ceiling = 4, dp_active = 3, dp_last_demand = None\<rparr>)]\<rparr>"

theorem pool_limits_fair_witness:
  "fair_pool_limit three_pools ''b'' 10 (secs 9) True + fair_pool_limit three_pools ''a'' 10 (secs 9) True = 7"
proof -
  have "recent_pools (secs 9) three_pools = take 2 (dev_pools three_pools)" "idle_active (secs 9) three_pools = 3"
    "distinct (map fst (dev_pools three_pools))"
    by code_simp+
  with pool_limits_fair [of three_pools 10 "secs 9" True] show ?thesis by (simp add: three_pools_def)
qed

end
