(* ===== verification/Admission_Safety.thy ===== *)
theory Admission_Safety
  imports Admission_Invariant Admission_Shares Transition
begin

text \<open>
  The registry of the controllers as a transition system: its invariant, and the properties of every
  reachable registry.
\<close>

section \<open>The registry\<close>

definition registry_ok :: "'f registry \<Rightarrow> bool" where
  "registry_ok r \<longleftrightarrow>
     distinct (map fst (reg_devices r)) \<and>
     (\<forall>(d, st) \<in> set (reg_devices r).
        adm_ok (dev_admission st) \<and> ceiling (dev_admission st) < U32_MAX \<and> distinct (map fst (dev_pools st)))"

definition total_ceilings :: "observation list \<Rightarrow> nat" where
  "total_ceilings os = sum_list (map (\<lambda>(p, _, _). pool_ceiling p) os)"

lemma total_ceilings_simps [simp]:
  "total_ceilings [] = 0" "total_ceilings (x # os) = pool_ceiling (fst x) + total_ceilings os"
  "total_ceilings (os @ os') = total_ceilings os + total_ceilings os'"
  by (simp_all add: total_ceilings_def split_def)

lemma total_ceilings_filter: "total_ceilings (filter P os) \<le> total_ceilings os"
  by (induction os) auto

lemma registry_device: "registry_ok r \<Longrightarrow> map_of (reg_devices r) d = Some st \<Longrightarrow>
  adm_ok (dev_admission st) \<and> ceiling (dev_admission st) < U32_MAX \<and> distinct (map fst (dev_pools st))"
  by (auto simp: registry_ok_def dest!: map_of_SomeD)

lemma registry_put:
  assumes "registry_ok r" "adm_ok (dev_admission st)" "ceiling (dev_admission st) < U32_MAX" "distinct (map fst (dev_pools st))"
  shows "registry_ok (r\<lparr>reg_devices := hm_insert d st (reg_devices r), reg_pool_devices := owners\<rparr>)"
  using assms by (auto simp: registry_ok_def hm_insert_distinct dest!: hm_insert_mem)

lemma registry_put_device:
  assumes "registry_ok r" "adm_ok (dev_admission st)" "ceiling (dev_admission st) < U32_MAX" "distinct (map fst (dev_pools st))"
  shows "registry_ok (r\<lparr>reg_devices := hm_insert d st (reg_devices r)\<rparr>)"
  using registry_put [OF assms, where owners = "reg_pool_devices r"] by simp

lemma note_blocked_ok:
  assumes "registry_ok r"
  shows "registry_ok (note_blocked now name r)"
proof (cases "Option.bind (map_of (reg_pool_devices r) name) (map_of (reg_devices r))")
  case None
  then have "note_blocked now name r = r" by (auto simp: note_blocked_def bind_eq_None_conv split: option.splits)
  with assms show ?thesis by simp
next
  case (Some st)
  then obtain d where d: "map_of (reg_pool_devices r) name = Some d" "map_of (reg_devices r) d = Some st"
    by (auto simp: bind_eq_Some_conv)
  have "registry_ok (r\<lparr>reg_devices := hm_insert d
    (st\<lparr>dev_admission := (dev_admission st)\<lparr>last_blocked := Some now\<rparr>, dev_pools := pools\<rparr>) (reg_devices r)\<rparr>)"
    if "distinct (map fst pools)" for pools
    using registry_device [OF assms d(2)] that by (intro registry_put_device [OF assms]) (simp_all add: adm_ok_def)
  with registry_device [OF assms d(2)] show ?thesis
    by (simp add: note_blocked_def d Let_def hm_insert_distinct split: option.split)
qed

lemma registry_limit_ok:
  assumes "registry_limit now p r = (l, r')" "registry_ok r"
  shows "registry_ok r'"
proof (cases "auto_admission p \<and> Option.bind (admission_device_ordinal p) (map_of (reg_devices r)) \<noteq> None")
  case False
  with assms show ?thesis by (auto simp: registry_limit_def Let_def bind_eq_None_conv split: if_splits option.splits)
next
  case True
  then obtain d st where d: "admission_device_ordinal p = Some d" "map_of (reg_devices r) d = Some st" "auto_admission p"
    by (auto simp: bind_eq_Some_conv)
  note put = registry_put_device [OF assms(2)] and st = registry_device [OF assms(2) d(2)]
  show ?thesis
  proof (cases "map_of (dev_pools st) (pool_name p)")
    case None
    with assms(1) d st show ?thesis by (auto simp: registry_limit_def Let_def hm_insert_distinct intro!: put)
  next
    case (Some q)
    with assms(1) d st show ?thesis by (auto simp: registry_limit_def Let_def intro!: put)
  qed
qed

lemma foldl_u32_le: "foldl (\<lambda>t x. u32_add t (f x)) a xs \<le> a + sum_list (map f xs)"
proof (induction xs arbitrary: a)
  case (Cons x xs)
  have "foldl (\<lambda>t x. u32_add t (f x)) a (x # xs) \<le> u32_add a (f x) + sum_list (map f xs)" using Cons.IH by simp
  also have "\<dots> \<le> a + f x + sum_list (map f xs)" by (intro add_right_mono u32_add_le)
  finally show ?case by (simp add: add.assoc)
qed simp

lemma total_ceiling_le: "foldl (\<lambda>t (p, _, _). u32_add t (pool_ceiling p)) 0 os \<le> total_ceilings os"
  using foldl_u32_le [of "\<lambda>x. pool_ceiling (fst x)" 0 os] by (simp add: split_def total_ceilings_def)

lemma sync_pools_distinct:
  assumes "distinct (map fst pools)"
  shows "distinct (map fst (sync_pools os pools))"
proof -
  have "distinct (map fst (foldl (\<lambda>m (p, a, c). hm_insert (k p) (v m p a) m) m os))" if "distinct (map fst m)"
    for k :: "fork_pool \<Rightarrow> string" and v :: "(string \<times> device_pool) list \<Rightarrow> fork_pool \<Rightarrow> nat \<Rightarrow> device_pool" and m os
    using that by (induction os arbitrary: m) (auto simp: hm_insert_distinct)
  note keep = this
  show ?thesis unfolding sync_pools_def by (rule keep) (use assms in \<open>simp add: distinct_map_filter\<close>)
qed

lemma tick_device_result:
  assumes "registry_ok r" "total_ceilings pools < U32_MAX"
  shows "\<exists>r'. tick_device F gpu cpu now sample (d, pools) r = Some r' \<and> registry_ok r'"
proof (cases "filter (\<lambda>(p, _, _). auto_admission p) pools = []")
  case True
  with assms(1) show ?thesis by (simp add: tick_device_def)
next
  case False
  define os where "os = filter (\<lambda>(p, _, _). auto_admission p) pools"
  define c where "c = max (foldl (\<lambda>t (p, _, _). u32_add t (pool_ceiling p)) 0 os) 1"
  define a where "a = foldl (\<lambda>t (_, a, _). u32_add t a) 0 pools"
  define k where "k = foldl (\<lambda>t (_, _, c). u64_add t c) 0 pools"
  define owners where "owners = foldl (\<lambda>m (p, _, _). hm_insert (pool_name p) d m) (reg_pool_devices r) os"
  define st where "st = (case map_of (reg_devices r) d of Some st \<Rightarrow> st
    | None \<Rightarrow> \<lparr>dev_admission = admission_new F c now k, dev_pools = []\<rparr>)"
  define adm where "adm = update_ceiling F c now k (dev_admission st)"
  define tick where "tick = (if sample then adm_observe F now a k (Option.bind gpu (\<lambda>samples. map_of samples d)) cpu adm else Some adm)"
  have c: "1 \<le> c" "c < U32_MAX"
    using total_ceiling_le [of os] total_ceilings_filter [of "\<lambda>(p, _, _). auto_admission p" pools] assms(2)
    by (auto simp: c_def os_def U32_MAX_def)
  have "adm_ok (dev_admission st)" and pools: "distinct (map fst (dev_pools st))"
    using registry_device [OF assms(1)] admission_new_ok [OF c(1)] by (auto simp: st_def split: option.splits)
  then have adm: "adm_ok adm" "ceiling adm = c" using update_ceiling_ok [OF c(1)] by (auto simp: adm_def)
  have "ceiling adm < U32_MAX" using adm(2) c(2) by simp
  from observe_result [OF adm(1) this, of F now a k "Option.bind gpu (\<lambda>samples. map_of samples d)" cpu]
  obtain adm' where adm': "tick = Some adm'" "adm_ok adm'" "ceiling adm' = c"
    using adm unfolding tick_def by (cases sample) auto
  have "tick_device F gpu cpu now sample (d, pools) r = map_option (\<lambda>adm'. \<lparr>reg_devices =
      hm_insert d \<lparr>dev_admission = adm', dev_pools = sync_pools os (dev_pools st)\<rparr> (reg_devices r), reg_pool_devices = owners\<rparr>) tick"
    using False unfolding tick_device_def prod.case Let_def os_def [symmetric] c_def [symmetric] a_def [symmetric] k_def [symmetric]
      owners_def [symmetric] st_def [symmetric] adm_def [symmetric] tick_def [symmetric] by simp
  moreover have "registry_ok \<lparr>reg_devices = hm_insert d \<lparr>dev_admission = adm', dev_pools = sync_pools os (dev_pools st)\<rparr> (reg_devices r),
      reg_pool_devices = owners\<rparr>"
    using registry_put [OF assms(1), where st = "\<lparr>dev_admission = adm', dev_pools = sync_pools os (dev_pools st)\<rparr>" and d = d and owners = owners]
      adm' c(2) sync_pools_distinct [OF pools] by (cases r) simp
  ultimately show ?thesis using adm'(1) by simp
qed

lemma tick_devices_result:
  assumes "registry_ok r" "\<forall>(d, pools) \<in> set gs. total_ceilings pools < U32_MAX"
  shows "\<exists>r'. tick_devices F gpu cpu now sample gs r = Some r' \<and> registry_ok r'"
  using assms
proof (induction gs arbitrary: r)
  case (Cons g gs)
  obtain d pools where g: "g = (d, pools)" by (cases g)
  with Cons.prems obtain r1 where "tick_device F gpu cpu now sample g r = Some r1" "registry_ok r1"
    using tick_device_result [of r pools F gpu cpu now sample d] by auto
  with Cons show ?case by simp
qed simp

lemma group_devices_bound:
  assumes "(d, pools) \<in> set (group_devices os)"
  shows "total_ceilings pools \<le> total_ceilings os"
proof -
  let ?step = "\<lambda>grouped (p, active, completed). if deleting p then grouped
    else case admission_device_ordinal p of None \<Rightarrow> grouped
     | Some device \<Rightarrow> hm_insert device ((case map_of grouped device of Some os \<Rightarrow> os | None \<Rightarrow> []) @ [(p, active, completed)]) grouped"
  have "\<forall>(d, pools) \<in> set (foldl ?step g os). total_ceilings pools \<le> n + total_ceilings os"
    if "\<forall>(d, pools) \<in> set g. total_ceilings pools \<le> n" for g n
    using that
  proof (induction os arbitrary: g n)
    case (Cons x os)
    obtain p a c where x: "x = (p, a, c)" by (cases x)
    have "\<forall>(d, pools) \<in> set (?step g x). total_ceilings pools \<le> n + pool_ceiling p"
      using Cons.prems by (auto simp: x split: option.splits dest!: hm_insert_mem map_of_SomeD)
    from Cons.IH [OF this] show ?case by (simp add: x add.assoc)
  qed simp
  from this [of "[]" 0] assms show ?thesis by (auto simp: group_devices_def)
qed

lemma update_pools_result:
  assumes "registry_ok r" "total_ceilings os < U32_MAX"
  shows "\<exists>r'. update_pools_at F os gpu cpu now sample r = Some r' \<and> registry_ok r'"
proof -
  have "\<forall>(d, pools) \<in> set (group_devices os). total_ceilings pools < U32_MAX"
    using group_devices_bound [of _ _ os] assms(2) by (auto intro: le_less_trans)
  then show ?thesis unfolding update_pools_at_def Let_def
    by (intro tick_devices_result) (use assms(1) in \<open>auto simp: registry_ok_def distinct_map_filter\<close>)
qed

text \<open>Everything that changes the registry: a blocked claim, a claim asking for its limit, and a tick over
  the pools, sampled or not. The ceilings of the pools of a tick add up to less than the largest \<open>u32\<close>.\<close>

inductive reg_step :: "'f float_ops \<Rightarrow> 'f registry \<Rightarrow> 'f registry \<Rightarrow> bool" for F where
  blocked: "reg_step F r (note_blocked now name r)"
| limited: "registry_limit now p r = (l, r') \<Longrightarrow> reg_step F r r'"
| ticked: "update_pools_at F os gpu cpu now sample r = Some r' \<Longrightarrow> total_ceilings os < U32_MAX \<Longrightarrow> reg_step F r r'"

interpretation reg_runs: invariant_system "reg_step F" "\<lambda>r. r = registry_default" registry_ok for F
proof
  show "registry_ok s" if "s = registry_default" for s using that by (simp add: registry_ok_def registry_default_def)
  show "registry_ok s'" if "reg_step F s s'" "registry_ok s" for s s'
    using that(1)
  proof cases
    case (ticked os gpu cpu now sample)
    with update_pools_result [OF that(2) ticked(2), of F gpu cpu now sample] show ?thesis by simp
  qed (use that(2) in \<open>auto simp: note_blocked_ok registry_limit_ok\<close>)
qed

definition reg_reachable :: "'f float_ops \<Rightarrow> 'f registry \<Rightarrow> bool" where
  "reg_reachable F r \<longleftrightarrow> (reg_step F)\<^sup>*\<^sup>* registry_default r"

lemma reg_reachable_ok: "reg_reachable F r \<Longrightarrow> registry_ok r"
  unfolding reg_reachable_def by (rule reg_runs.reachable_inv [OF refl])

lemma fair_pool_limit_le: "fair_pool_limit device target limit now b \<le> limit"
proof -
  let ?ys = "fair_shares device (demanded_pools device target now b) limit"
  have "s \<le> limit" if "map_of ?ys target = Some (c, s)" for c s
  proof -
    have "s \<le> shared ?ys" unfolding shared_def using map_of_SomeD [OF that]
      by (intro member_le_sum_list) (force | simp)+
    then show ?thesis using fair_shares_within(2) [OF refl] by (rule order_trans)
  qed
  then show ?thesis by (auto simp: fair_pool_limit_def Let_def split: option.splits)
qed

text \<open>The limit a claim is admitted under.\<close>

lemma registry_limit_device:
  assumes "registry_limit now p r = (Some l, r')" "admission_device_ordinal p = Some d" "map_of (reg_devices r) d = Some st"
  shows "limit_device l = effective_limit (dev_admission st) \<and> limit_pool l \<le> limit_device l"
proof (cases "map_of (dev_pools st) (pool_name p)")
  case None
  with assms show ?thesis by (auto simp: registry_limit_def Let_def fair_pool_limit_le split: if_splits)
next
  case (Some q)
  with assms show ?thesis by (auto simp: registry_limit_def Let_def fair_pool_limit_le split: if_splits)
qed

lemma registry_limit_static:
  assumes "registry_limit now p r = (Some l, r')" "Option.bind (admission_device_ordinal p) (map_of (reg_devices r)) = None"
  shows "l = \<lparr>limit_pool = pool_ceiling p, limit_device = pool_ceiling p\<rparr>"
  using assms by (auto simp: registry_limit_def Let_def bind_eq_None_conv split: if_splits option.splits)

section \<open>Properties\<close>

lemma reg_reachable_default: "reg_reachable F registry_default"
  by (simp add: reg_reachable_def)

lemma reg_reachable_step: "reg_reachable F r \<Longrightarrow> reg_step F r r' \<Longrightarrow> reg_reachable F r'"
  unfolding reg_reachable_def by (rule rtranclp.rtrancl_into_rtrancl)

fun run_ticks :: "'f float_ops \<Rightarrow> observation list \<Rightarrow> (nat \<times> 'f gpu_sample) list option \<Rightarrow> 'f option \<Rightarrow> instant list \<Rightarrow>
  'f registry \<Rightarrow> 'f registry option" where
  "run_ticks F os gpu cpu [] r = Some r"
| "run_ticks F os gpu cpu (t # ts) r = Option.bind (observe_pools F os gpu cpu t r) (run_ticks F os gpu cpu ts)"

lemma run_ticks_reachable:
  "run_ticks F os gpu cpu ts r = Some r' \<Longrightarrow> total_ceilings os < U32_MAX \<Longrightarrow> reg_reachable F r \<Longrightarrow> reg_reachable F r'"
proof (induction ts arbitrary: r)
  case (Cons t ts)
  then obtain y where y: "update_pools_at F os gpu cpu t True r = Some y" "run_ticks F os gpu cpu ts y = Some r'"
    by (auto simp: bind_eq_Some_conv observe_pools_def)
  have "reg_reachable F y" using Cons.prems(3) reg_step.ticked [OF y(1) Cons.prems(2)] by (rule reg_reachable_step)
  with Cons y(2) show ?case by blast
qed simp

text \<open>A pool of six workers on device 0, two of them leased, sampled every two seconds.\<close>

definition six_pool :: fork_pool where
  "six_pool =
     \<lparr>pool_name = ''p'', pool_golden = ''g'', desired_ready = 6, max_active = None, auto_admission = True,
      cuda_device_ordinal = Some 0, share_weights = True, freeze_source = False, ready_timeout_secs = 240,
      lease_ttl_secs = 300, pool_created_at = 1, deleting = False\<rparr>"

definition six_sample :: "nat gpu_sample" where
  "six_sample = gpu_sample_new 0 50 10000 70000 80000"

definition six_observations :: "observation list" where
  "six_observations = [(six_pool, 2, 0)]"

definition six_ticks :: "nat registry option" where
  "six_ticks = run_ticks nat_ops six_observations (Some [(0, six_sample)]) (Some 20) (map secs [1, 3, 5, 7]) registry_default"

definition six_registry :: "nat registry" where
  "six_registry = note_blocked (secs 8) ''p'' (the six_ticks)"

lemma six_total: "total_ceilings six_observations < U32_MAX"
  by code_simp

lemma six_registry_reachable: "reg_reachable nat_ops six_registry"
proof -
  have "six_ticks \<noteq> None" by code_simp
  then obtain r where "six_ticks = Some r" by blast
  moreover from this have "reg_reachable nat_ops r"
    unfolding six_ticks_def using six_total reg_reachable_default by (rule run_ticks_reachable)
  ultimately have "reg_reachable nat_ops (the six_ticks)" by (metis option.sel)
  then show ?thesis unfolding six_registry_def by (rule reg_reachable_step) (rule reg_step.blocked)
qed

text \<open>C24: A controller tick returns. From every reachable registry, a tick over any pools whose ceilings add
  up to less than the largest u32 returns, whatever the telemetry says and however the floating-point
  arithmetic behaves, and leaves every device with a limit of at least one lease and at most its
  ceiling.\<close>

theorem admission_tick_returns:
  assumes "reg_reachable F r" "total_ceilings os < U32_MAX"
  shows "\<exists>r'. update_pools_at F os gpu cpu now sample r = Some r' \<and> reg_reachable F r' \<and>
    (\<forall>(d, dev) \<in> set (reg_devices r'). 1 \<le> effective_limit (dev_admission dev) \<and>
       effective_limit (dev_admission dev) \<le> ceiling (dev_admission dev))"
proof -
  obtain r' where r': "update_pools_at F os gpu cpu now sample r = Some r'"
    using update_pools_result [OF reg_reachable_ok [OF assms(1)] assms(2)] by blast
  with assms have "reg_reachable F r'" by (blast intro: reg_reachable_step reg_step.ticked)
  with r' reg_reachable_ok show ?thesis by (fastforce simp: registry_ok_def adm_ok_def)
qed

theorem admission_tick_returns_witness:
  "\<exists>r'. update_pools_at nat_ops six_observations (Some [(0, six_sample)]) (Some 20) (secs 9) True six_registry = Some r' \<and>
    list_all (\<lambda>(d, dev). 1 \<le> effective_limit (dev_admission dev) \<and>
      effective_limit (dev_admission dev) \<le> ceiling (dev_admission dev)) (reg_devices r')"
  using admission_tick_returns [OF six_registry_reachable six_total] unfolding list_all_iff by blast

text \<open>The candidates a probe may try, by the projection of each.\<close>

definition safe_candidates :: "'f admission \<Rightarrow> 'f gpu_sample \<Rightarrow> nat \<Rightarrow> nat \<Rightarrow> nat list" where
  "safe_candidates st gpu active upper =
     filter (\<lambda>c. case projected_free_memory_mib st gpu active c of Some free \<Rightarrow> reserve_mib gpu \<le> free | None \<Rightarrow> False)
       [Suc active..<Suc upper]"

lemma safe_candidates_interval:
  assumes "0 < active" "active < b" "b \<le> Suc upper"
    and "\<forall>c. active < c \<and> c < b \<longrightarrow> reserve_mib gpu \<le> projection st gpu active c"
    and "\<forall>c. b \<le> c \<and> c \<le> upper \<longrightarrow> projection st gpu active c < reserve_mib gpu"
  shows "safe_candidates st gpu active upper = [Suc active..<b]"
proof -
  have "[Suc active..<Suc upper] = [Suc active..<b] @ [b..<Suc upper]"
    using assms(2,3) by (metis Suc_leI le_add_diff_inverse upt_add_eq_append)
  moreover have "filter (\<lambda>c. case projected_free_memory_mib st gpu active c of Some free \<Rightarrow> reserve_mib gpu \<le> free | None \<Rightarrow> False)
    [Suc active..<b] = [Suc active..<b]" using assms(1,4) by (auto simp: filter_id_conv projected_Some)
  moreover have "filter (\<lambda>c. case projected_free_memory_mib st gpu active c of Some free \<Rightarrow> reserve_mib gpu \<le> free | None \<Rightarrow> False)
    [b..<Suc upper] = []" using assms(1,2,5) by (auto simp: filter_empty_conv projected_Some)
  ultimately show ?thesis by (simp add: safe_candidates_def del: upt_Suc)
qed

text \<open>The binary search for a probe returns the same as trying every candidate: it ends for every upper
  bound below the largest u32, with the largest candidate above the active leases whose projection keeps
  the reserve and with that projection, and with nothing exactly when no candidate keeps it.\<close>

theorem candidate_search_exact:
  assumes "upper < U32_MAX"
  shows "largest_memory_safe_candidate st gpu active upper =
    Some (if safe_candidates st gpu active upper = [] then None
          else map_option (Pair (last (safe_candidates st gpu active upper)))
                 (projected_free_memory_mib st gpu active (last (safe_candidates st gpu active upper))))"
proof (cases "active = 0 \<or> upper \<le> active")
  case True
  then have "safe_candidates st gpu active upper = []"
    by (auto simp: safe_candidates_def filter_empty_conv projected_free_memory_mib_def)
  with True show ?thesis by (auto simp: largest_memory_safe_candidate_def)
next
  case False
  then obtain b where b: "active < b" "b \<le> Suc upper"
    "\<forall>c. active < c \<and> c < b \<longrightarrow> reserve_mib gpu \<le> projection st gpu active c"
    "\<forall>c. b \<le> c \<and> c \<le> upper \<longrightarrow> projection st gpu active c < reserve_mib gpu"
    "largest_memory_safe_candidate st gpu active upper =
      Some (if b = Suc active then None else Some (b - 1, projection st gpu active (b - 1)))"
    using largest_candidate [of active upper gpu st] assms by auto
  have safe: "safe_candidates st gpu active upper = [Suc active..<b]"
    using False b by (intro safe_candidates_interval) auto
  show ?thesis
  proof (cases "b = Suc active")
    case True
    with b(5) safe show ?thesis by simp
  next
    case more: False
    then have "active < b - 1" "last [Suc active..<b] = b - 1" using b(1) by (auto simp: last_upt)
    with more b(1,5) False show ?thesis unfolding safe by (auto simp: projected_Some)
  qed
qed

theorem candidate_search_exact_witness:
  "largest_memory_safe_candidate (admission_new nat_ops 6 0 0) six_sample 2 60 = Some (Some (14, 10000))"
proof -
  have "safe_candidates (admission_new nat_ops 6 0 0) six_sample 2 60 = [3..<15]" by code_simp
  moreover have "projected_free_memory_mib (admission_new nat_ops 6 0 0) six_sample 2 14 = Some 10000" by code_simp
  moreover have "last [3..<15] = (14::nat)" by code_simp
  ultimately show ?thesis using candidate_search_exact [of 60 "admission_new nat_ops 6 0 0" six_sample 2]
    by (simp add: U32_MAX_def)
qed



end
