(* ===== verification/Pool_Handlers.thy ===== *)
theory Pool_Handlers
  imports Retry Lease_Payload Pool_Safety Admission_Safety
begin

text \<open>
  The HTTP handlers of the fork pools (\<open>src/api/handlers/pools.rs\<close>): creating, resizing and deleting a
  pool, claiming and activating a lease, renewing and completing it. A handler is a function from the
  service state to its answer and the state after it; the answer of an error is the HTTP class with one
  constructor per message. Times, generated identifiers, the liveness of processes, the outcome of an
  activation in the guest and what other requests do while a handler waits are arguments. The read-only
  \<open>pool_info\<close> of an answer is the pool record it is computed from. Rollout access is not modelled.
\<close>

section \<open>Machine names\<close>

definition MAX_VM_NAME_LENGTH :: nat where "MAX_VM_NAME_LENGTH = 128"

datatype name_error =
    NameEmpty | NameTooLong | NameStart | NameEndsHyphen | NameHyphens | NameSeparator | NameCharacter

fun check_name_chars :: "bool \<Rightarrow> string \<Rightarrow> name_error option" where
  "check_name_chars prev_was_hyphen [] = None"
| "check_name_chars prev_was_hyphen (c # s) =
     (if c = CHR ''-'' \<and> prev_was_hyphen then Some NameHyphens
      else if \<not> is_ascii_alphanumeric c \<and> c \<noteq> CHR ''-'' \<and> c \<noteq> CHR ''_''
      then Some (if c = CHR ''/'' \<or> c = CHR 0x5C then NameSeparator else NameCharacter)
      else check_name_chars (c = CHR ''-'') s)"

definition validate_vm_name :: "string \<Rightarrow> name_error option" where
  "validate_vm_name name =
     (case name of
        [] \<Rightarrow> Some NameEmpty
      | first_char # _ \<Rightarrow>
          if MAX_VM_NAME_LENGTH < length name then Some NameTooLong
          else if \<not> is_ascii_alphanumeric first_char then Some NameStart
          else if ends_with_char name (CHR ''-'') then Some NameEndsHyphen
          else check_name_chars False name)"

section \<open>Requests and answers\<close>

definition DEFAULT_READY_TIMEOUT_SECS :: nat where "DEFAULT_READY_TIMEOUT_SECS = 240"
definition MAX_READY_TIMEOUT_SECS :: nat where "MAX_READY_TIMEOUT_SECS = 60 * 60"
definition DEFAULT_LEASE_TTL_SECS :: nat where "DEFAULT_LEASE_TTL_SECS = 300"
definition MAX_POOL_READY :: nat where "MAX_POOL_READY = 256"
definition MIN_LEASE_TTL_SECS :: nat where "MIN_LEASE_TTL_SECS = 30"
definition MAX_LEASE_TTL_SECS :: nat where "MAX_LEASE_TTL_SECS = 24 * 60 * 60"
definition MAX_IDEMPOTENCY_KEY_BYTES :: nat where "MAX_IDEMPOTENCY_KEY_BYTES = 256"
definition MAX_LEASE_BATCH_SIZE :: nat where "MAX_LEASE_BATCH_SIZE = MAX_POOL_READY"
definition MAX_CONCURRENT_LEASE_ACTIVATIONS :: nat where "MAX_CONCURRENT_LEASE_ACTIVATIONS = 32"
definition MAX_WORKER_READY_TIMEOUT_SECS :: nat where
  "MAX_WORKER_READY_TIMEOUT_SECS = FORK_LEASE_ACTIVATION_GRACE_SECS - 60"
definition DEFAULT_WORKER_READY_TIMEOUT_SECS :: nat where
  "DEFAULT_WORKER_READY_TIMEOUT_SECS = MAX_WORKER_READY_TIMEOUT_SECS"
definition LEASE_PAYLOAD_STAGE_ATTEMPTS :: nat where "LEASE_PAYLOAD_STAGE_ATTEMPTS = 2"
definition MAX_LEASE_WAIT_SECS :: nat where "MAX_LEASE_WAIT_SECS = 10 * 60"

definition WORKER_READY_TOKEN_ENV :: string where "WORKER_READY_TOKEN_ENV = ''SMOLVM_WORKER_READY_TOKEN''"
definition WORKER_READY_TIMEOUT_ENV :: string where "WORKER_READY_TIMEOUT_ENV = ''SMOLVM_WORKER_READY_TIMEOUT_SECS''"
definition ROLLOUT_TOKEN_ENV :: string where "ROLLOUT_TOKEN_ENV = ''SMOLVM_ROLLOUT_TOKEN''"
definition ROLLOUT_URL_ENV :: string where "ROLLOUT_URL_ENV = ''SMOLVM_ROLLOUT_URL''"
definition ROLLOUT_EXECUTOR_ENV :: string where "ROLLOUT_EXECUTOR_ENV = ''SMOLVM_ROLLOUT_EXECUTOR''"
definition ROLLOUT_POLICY_ENV :: string where "ROLLOUT_POLICY_ENV = ''SMOLVM_ROLLOUT_POLICY''"

definition RESERVED_LEASE_ENV :: "string list" where
  "RESERVED_LEASE_ENV =
     [WORKER_READY_TOKEN_ENV, WORKER_READY_TIMEOUT_ENV, ROLLOUT_TOKEN_ENV, ROLLOUT_URL_ENV,
      ROLLOUT_EXECUTOR_ENV, ROLLOUT_POLICY_ENV]"

datatype refusal =
    BadName name_error | DesiredReadyRange | MaxActiveZero | AutoNeedsShareWeights | ReadyTimeoutRange | TtlRange
  | MachineMissing string | MediatedSource | GoldenIsClone | GoldenStopped string | GoldenWithoutCuda string
  | GoldenNotForkable string | BadDevice string | PoolExists string | PoolMissing string | PoolIsDeleting string
  | PoolBusy string | BadKey | TimeoutNeedsAwait | WorkerTimeoutRange | WaitTooLong | BadEnvEntry nat | BadEnvKey string
  | BadEnvValue string | ReservedEnv string | BadPayload payload_error | DeviceInherited | KeyReused | NoWorker string
  | LimitReached string "nat option" | ExternalWorkspace | DatabaseFailed | WorkerDisappeared | ActivationFailed string
  | LeaseDisappeared | LeaseChanged lease_state | LeaseMissing string | LeaseInactive string | WorkerStopped string
  | StillActivating string | LeaseEnded string lease_state "string option" | NotActive string lease_state
  | BatchSize | BatchDuplicate string | BatchReadiness

datatype api_error =
    NotFound refusal | Conflict refusal | BadRequest refusal | Unavailable refusal | Internal refusal

definition lease_batch_error :: "api_error \<Rightarrow> string" where
  "lease_batch_error e =
     (case e of NotFound _ \<Rightarrow> ''NOT_FOUND'' | Conflict _ \<Rightarrow> ''CONFLICT'' | BadRequest _ \<Rightarrow> ''BAD_REQUEST''
      | Unavailable _ \<Rightarrow> ''UNAVAILABLE'' | Internal _ \<Rightarrow> ''INTERNAL_ERROR'')"

definition validate_ttl :: "nat \<Rightarrow> api_error + nat" where
  "validate_ttl ttl =
     (if MIN_LEASE_TTL_SECS \<le> ttl \<and> ttl \<le> MAX_LEASE_TTL_SECS then Inr ttl else Inl (BadRequest TtlRange))"

definition validate_worker_ready_request :: "bool \<Rightarrow> nat option \<Rightarrow> api_error + nat option" where
  "validate_worker_ready_request await requested =
     (if \<not> await then (if requested \<noteq> None then Inl (BadRequest TimeoutNeedsAwait) else Inr None)
      else
        let timeout = (case requested of Some t \<Rightarrow> t | None \<Rightarrow> DEFAULT_WORKER_READY_TIMEOUT_SECS)
        in if 1 \<le> timeout \<and> timeout \<le> MAX_WORKER_READY_TIMEOUT_SECS then Inr (Some timeout)
           else Inl (BadRequest WorkerTimeoutRange))"

definition validate_lease_wait :: "nat option \<Rightarrow> api_error + nat" where
  "validate_lease_wait wait_secs =
     (let w = (case wait_secs of Some w \<Rightarrow> w | None \<Rightarrow> 0)
      in if MAX_LEASE_WAIT_SECS < w then Inl (BadRequest WaitTooLong) else Inr (secs w))"

definition worker_ready_token :: "(bytes \<Rightarrow> string) \<Rightarrow> string \<Rightarrow> string \<Rightarrow> string" where
  "worker_ready_token sha256_hex pool key =
     sha256_hex (str_bytes ''smolvm-worker-ready-v1'' @ [0] @ nat_le 8 (length pool) @ str_bytes pool @
       nat_le 8 (length key) @ str_bytes key)"

text \<open>\<open>show_secs\<close> prints a number of seconds in decimal.\<close>

definition add_worker_ready_assignment ::
  "(nat \<Rightarrow> string) \<Rightarrow> string \<Rightarrow> nat \<Rightarrow> (string \<times> string) list \<Rightarrow> api_error + (string \<times> string) list" where
  "add_worker_ready_assignment show_secs token timeout env =
     (case find (\<lambda>reserved. list_ex (\<lambda>(key, _). key = reserved) env) [WORKER_READY_TOKEN_ENV, WORKER_READY_TIMEOUT_ENV] of
        Some reserved \<Rightarrow> Inl (BadRequest (ReservedEnv reserved))
      | None \<Rightarrow> Inr (env @ [(WORKER_READY_TOKEN_ENV, token), (WORKER_READY_TIMEOUT_ENV, show_secs timeout)]))"

definition idempotent_assignment_matches :: "(string \<times> string) list \<Rightarrow> (string \<times> string) list \<Rightarrow> bool" where
  "idempotent_assignment_matches existing requested \<longleftrightarrow>
     filter (\<lambda>(key, _). key \<noteq> ROLLOUT_TOKEN_ENV) existing = filter (\<lambda>(key, _). key \<noteq> ROLLOUT_TOKEN_ENV) requested"

fun parse_request_env_list :: "nat \<Rightarrow> string list \<Rightarrow> api_error + (string \<times> string) list" where
  "parse_request_env_list index [] = Inr []"
| "parse_request_env_list index (spec # specs) =
     (case split_once (\<lambda>c. c = CHR ''='') spec of
        Some (key, value) \<Rightarrow>
          if key = [] then Inl (BadRequest (BadEnvEntry index))
          else (case parse_request_env_list (index + 1) specs of Inl e \<Rightarrow> Inl e | Inr env \<Rightarrow> Inr ((key, value) # env))
      | None \<Rightarrow> Inl (BadRequest (BadEnvEntry index)))"

definition env_key_ok :: "string \<Rightarrow> bool" where
  "env_key_ok k =
     (case k of
        [] \<Rightarrow> False
      | c # s \<Rightarrow> (is_ascii_alphanumeric c \<and> \<not> is_ascii_digit c \<or> c = CHR ''_'') \<and>
                 list_all (\<lambda>c. is_ascii_alphanumeric c \<or> c = CHR ''_'') s)"

fun validate_fork_env :: "(string \<times> string) list \<Rightarrow> refusal option" where
  "validate_fork_env [] = None"
| "validate_fork_env ((k, v) # env) =
     (if \<not> env_key_ok k then Some (BadEnvKey k)
      else if CHR 0x0A \<in> set v \<or> CHR 0x0D \<in> set v then Some (BadEnvValue k)
      else validate_fork_env env)"

text \<open>The environment a lease installs: parsed, validated, free of the reserved names.\<close>

definition request_assignment :: "string list \<Rightarrow> api_error + (string \<times> string) list" where
  "request_assignment env =
     (case parse_request_env_list 0 env of
        Inl e \<Rightarrow> Inl e
      | Inr assignment \<Rightarrow>
          (case validate_fork_env assignment of
             Some r \<Rightarrow> Inl (BadRequest r)
           | None \<Rightarrow>
               (case find (\<lambda>reserved. list_ex (\<lambda>(key, _). key = reserved) assignment) RESERVED_LEASE_ENV of
                  Some reserved \<Rightarrow> Inl (BadRequest (ReservedEnv reserved))
                | None \<Rightarrow> Inr assignment)))"

definition validate_idempotency_key :: "string \<Rightarrow> api_error option" where
  "validate_idempotency_key key =
     (if key = [] \<or> MAX_IDEMPOTENCY_KEY_BYTES < length key \<or> has_control key then Some (BadRequest BadKey) else None)"

record lease_request =
  lr_key :: string
  lr_env :: "string list"
  lr_files :: "payload_file list"
  lr_ttl :: "nat option"
  lr_await_ready :: bool
  lr_ready_timeout :: "nat option"
  lr_wait :: "nat option"

fun first_duplicate :: "string list \<Rightarrow> string list \<Rightarrow> string option" where
  "first_duplicate seen [] = None"
| "first_duplicate seen (k # ks) = (if k \<in> set seen then Some k else first_duplicate (k # seen) ks)"

definition validate_lease_batch :: "lease_request list \<Rightarrow> api_error option" where
  "validate_lease_batch leases =
     (if leases = [] \<or> MAX_LEASE_BATCH_SIZE < length leases then Some (BadRequest BatchSize)
      else case first_duplicate [] (map lr_key leases) of
             Some duplicate \<Rightarrow> Some (BadRequest (BatchDuplicate duplicate))
           | None \<Rightarrow>
               if MAX_CONCURRENT_LEASE_ACTIVATIONS < length (filter lr_await_ready leases)
               then Some (BadRequest BatchReadiness) else None)"

section \<open>The service\<close>

text \<open>The database, the admission registry, the held flag of the machines kept in memory, and whether the
  controller has been woken.\<close>

record 'f service =
  sv_db :: pool_db
  sv_registry :: "'f registry"
  sv_held :: "(string \<times> bool) list"
  sv_woken :: bool

definition notify_pool_reconcile :: "'f service \<Rightarrow> 'f service" where
  "notify_pool_reconcile s = s\<lparr>sv_woken := True\<rparr>"

subsection \<open>Pools\<close>

record pool_request =
  pr_name :: string
  pr_golden :: string
  pr_desired_ready :: nat
  pr_max_active :: "nat option"
  pr_auto_admission :: "bool option"
  pr_share_weights :: bool
  pr_freeze_source :: bool
  pr_ready_timeout :: "nat option"
  pr_lease_ttl :: "nat option"

text \<open>What the handler reads of the golden machine; \<open>gv_forkable\<close> is the answer of its control socket.\<close>

record golden_view =
  gv_mediated :: bool
  gv_golden :: "string option"
  gv_alive :: bool
  gv_cuda :: bool
  gv_forkable :: bool
  gv_env :: "(string \<times> string) list"

definition validate_pool_request :: "pool_request \<Rightarrow> api_error + bool \<times> nat \<times> nat" where
  "validate_pool_request req =
     (case validate_vm_name (pr_name req) of
        Some e \<Rightarrow> Inl (BadRequest (BadName e))
      | None \<Rightarrow>
     (case validate_vm_name (pr_golden req) of
        Some e \<Rightarrow> Inl (BadRequest (BadName e))
      | None \<Rightarrow>
          if pr_desired_ready req = 0 \<or> MAX_POOL_READY < pr_desired_ready req then Inl (BadRequest DesiredReadyRange)
          else if pr_max_active req = Some 0 then Inl (BadRequest MaxActiveZero)
          else
            let auto = (case pr_auto_admission req of Some a \<Rightarrow> a | None \<Rightarrow> pr_share_weights req)
            in if auto \<and> \<not> pr_share_weights req then Inl (BadRequest AutoNeedsShareWeights)
               else
                 let timeout = (case pr_ready_timeout req of Some t \<Rightarrow> t | None \<Rightarrow> DEFAULT_READY_TIMEOUT_SECS)
                 in if timeout = 0 \<or> MAX_READY_TIMEOUT_SECS < timeout then Inl (BadRequest ReadyTimeoutRange)
                    else (case validate_ttl (case pr_lease_ttl req of Some t \<Rightarrow> t | None \<Rightarrow> DEFAULT_LEASE_TTL_SECS) of
                            Inl e \<Rightarrow> Inl e
                          | Inr ttl \<Rightarrow> Inr (auto, timeout, ttl))))"

definition check_golden :: "pool_request \<Rightarrow> golden_view option \<Rightarrow> api_error + nat option" where
  "check_golden req golden =
     (case golden of
        None \<Rightarrow> Inl (NotFound (MachineMissing (pr_golden req)))
      | Some g \<Rightarrow>
          if gv_mediated g then Inl (BadRequest MediatedSource)
          else if gv_golden g \<noteq> None then Inl (Conflict GoldenIsClone)
          else if \<not> gv_alive g then Inl (Conflict (GoldenStopped (pr_golden req)))
          else if pr_share_weights req \<and> \<not> gv_cuda g then Inl (Conflict (GoldenWithoutCuda (pr_golden req)))
          else if \<not> gv_forkable g then Inl (Conflict (GoldenNotForkable (pr_golden req)))
          else if gv_cuda g
          then (case cuda_device_ordinal_from_env (gv_env g) of
                  Inl message \<Rightarrow> Inl (BadRequest (BadDevice message))
                | Inr d \<Rightarrow> Inr (Some d))
          else Inr None)"

definition create_pool ::
  "golden_view option \<Rightarrow> nat \<Rightarrow> pool_request \<Rightarrow> 'f service \<Rightarrow> (api_error + fork_pool) \<times> 'f service" where
  "create_pool golden now req s =
     (case validate_pool_request req of
        Inl e \<Rightarrow> (Inl e, s)
      | Inr (auto, timeout, ttl) \<Rightarrow>
     (case check_golden req golden of
        Inl e \<Rightarrow> (Inl e, s)
      | Inr device \<Rightarrow>
          let pool = \<lparr>pool_name = pr_name req, pool_golden = pr_golden req, desired_ready = pr_desired_ready req,
                      max_active = pr_max_active req, auto_admission = auto, cuda_device_ordinal = device,
                      share_weights = pr_share_weights req, freeze_source = pr_freeze_source req,
                      ready_timeout_secs = timeout, lease_ttl_secs = ttl, pool_created_at = now, deleting = False\<rparr>
          in case insert_fork_pool_if_not_exists pool (sv_db s) of
               (inserted, db) \<Rightarrow>
                 if \<not> inserted then (Inl (Conflict (PoolExists (pool_name pool))), s\<lparr>sv_db := db\<rparr>)
                 else (Inr pool, notify_pool_reconcile (s\<lparr>sv_db := db\<rparr>))))"

definition resize_pool :: "string \<Rightarrow> nat \<Rightarrow> nat \<Rightarrow> 'f service \<Rightarrow> (api_error + fork_pool) \<times> 'f service" where
  "resize_pool name desired now s =
     (if MAX_POOL_READY < desired then (Inl (BadRequest DesiredReadyRange), s)
      else case resize_fork_pool name desired now (sv_db s) of
             (None, db) \<Rightarrow> (Inl (NotFound (PoolMissing name)), s\<lparr>sv_db := db\<rparr>)
           | (Some pool, db) \<Rightarrow>
               if deleting pool then (Inl (Conflict (PoolIsDeleting name)), s\<lparr>sv_db := db\<rparr>)
               else (Inr pool, notify_pool_reconcile (s\<lparr>sv_db := db\<rparr>)))"

definition delete_pool :: "string \<Rightarrow> bool \<Rightarrow> nat \<Rightarrow> 'f service \<Rightarrow> (api_error + string) \<times> 'f service" where
  "delete_pool name force now s =
     (case begin_delete_fork_pool name force now (sv_db s) of
        (None, db) \<Rightarrow> (Inl (NotFound (PoolMissing name)), s\<lparr>sv_db := db\<rparr>)
      | (Some False, db) \<Rightarrow> (Inl (Conflict (PoolBusy name)), s\<lparr>sv_db := db\<rparr>)
      | (Some True, db) \<Rightarrow> (Inr name, notify_pool_reconcile (s\<lparr>sv_db := db\<rparr>)))"

definition get_pool :: "string \<Rightarrow> 'f service \<Rightarrow> api_error + fork_pool" where
  "get_pool name s =
     (case get_fork_pool (sv_db s) name of None \<Rightarrow> Inl (NotFound (PoolMissing name)) | Some pool \<Rightarrow> Inr pool)"

subsection \<open>Leases\<close>

text \<open>One attempt of a claim: the limit read from the registry, whatever the rest of the system does
  before the transaction starts, then the transaction.\<close>

record 'f attempt =
  at_instant :: instant
  at_now :: nat
  at_before :: "'f service \<Rightarrow> 'f service"
  at_between :: "'f service \<Rightarrow> 'f service"

definition claim_attempt ::
  "fork_pool \<Rightarrow> slot_claim \<Rightarrow> 'f attempt \<Rightarrow> 'f service \<Rightarrow> (db_error + claim_result) \<times> admission_limit option \<times> 'f service" where
  "claim_attempt pool c a s =
     (let s1 = at_before a s in
      case registry_limit (at_instant a) pool (sv_registry s1) of
        (limit, r) \<Rightarrow>
          (let s2 = at_between a (s1\<lparr>sv_registry := r\<rparr>) in
           case claim_fork_pool_slot (c\<lparr>claim_limit := limit, claim_now := at_now a\<rparr>) (sv_db s2) of
             (res, db) \<Rightarrow> (res, limit, s2\<lparr>sv_db := db\<rparr>)))"

text \<open>The attempts of one request; after the last of them no waiting time remains.\<close>

fun claim_wait ::
  "fork_pool \<Rightarrow> slot_claim \<Rightarrow> 'f attempt \<Rightarrow> 'f attempt list \<Rightarrow> 'f service \<Rightarrow>
   (db_error + claim_result) \<times> admission_limit option \<times> 'f service" where
  "claim_wait pool c a [] s = claim_attempt pool c a s"
| "claim_wait pool c a (b # bs) s =
     (case claim_attempt pool c a s of
        (Inr NoReadySlot, limit, s') \<Rightarrow> claim_wait pool c b bs (notify_pool_reconcile s')
      | outcome \<Rightarrow> outcome)"

datatype acquired = Replayed fork_lease | Fresh fork_lease

definition claim_outcome ::
  "instant \<Rightarrow> fork_pool \<Rightarrow> slot_claim \<Rightarrow> (db_error + claim_result) \<times> admission_limit option \<times> 'f service \<Rightarrow>
   (api_error + acquired) \<times> 'f service" where
  "claim_outcome at pool c outcome =
     (case outcome of (res, limit, s) \<Rightarrow>
        (case res of
           Inl _ \<Rightarrow> (Inl (Internal DatabaseFailed), s)
         | Inr (Existing lease) \<Rightarrow>
             if \<not> idempotent_assignment_matches (lease_assignment lease) (claim_assignment c) \<or>
                lease_payload lease \<noteq> claim_payload c \<or> lease_ttl lease \<noteq> claim_ttl c
             then (Inl (Conflict KeyReused), s) else (Inr (Replayed lease), s)
         | Inr NoReadySlot \<Rightarrow> (Inl (Unavailable (NoWorker (claim_pool c))), s)
         | Inr AtCapacity \<Rightarrow>
             (Inl (Conflict (LimitReached (claim_pool c)
                (case limit of Some l \<Rightarrow> Some (limit_pool l) | None \<Rightarrow> max_active pool))),
              s\<lparr>sv_registry := note_blocked at (claim_pool c) (sv_registry s)\<rparr>)
         | Inr PoolNotFound \<Rightarrow> (Inl (NotFound (PoolMissing (claim_pool c))), s)
         | Inr PoolDeleting \<Rightarrow> (Inl (Conflict (PoolIsDeleting (claim_pool c))), s)
         | Inr WorkspaceExternallyMounted \<Rightarrow> (Inl (Conflict ExternalWorkspace), s)
         | Inr (Claimed lease) \<Rightarrow>
             (Inr (Fresh lease),
              case map_of (sv_held s) (lease_machine lease) of
                None \<Rightarrow> s
              | Some _ \<Rightarrow> s\<lparr>sv_held := hm_insert (lease_machine lease) False (sv_held s)\<rparr>)))"

text \<open>The pool read before the claim, the checks against it, the attempts and the answer; \<open>c\<close> carries the
  validated request.\<close>

definition acquire_claim ::
  "nat option \<Rightarrow> slot_claim \<Rightarrow> 'f attempt \<Rightarrow> 'f attempt list \<Rightarrow> instant \<Rightarrow> 'f service \<Rightarrow> (api_error + acquired) \<times> 'f service" where
  "acquire_claim ttl_secs c a bs at s =
     (case get_fork_pool (sv_db s) (claim_pool c) of
        None \<Rightarrow> (Inl (NotFound (PoolMissing (claim_pool c))), s)
      | Some pool \<Rightarrow>
          if admission_device_ordinal pool \<noteq> None \<and> list_ex (\<lambda>(key, _). key = ''SMOLVM_CUDA_DEVICE'') (claim_assignment c)
          then (Inl (BadRequest DeviceInherited), s)
          else
            (case validate_ttl (case ttl_secs of Some t \<Rightarrow> t | None \<Rightarrow> lease_ttl_secs pool) of
               Inl e \<Rightarrow> (Inl e, s)
             | Inr ttl \<Rightarrow>
                 let c' = c\<lparr>claim_ttl := ttl\<rparr>
                 in claim_outcome at pool c' (claim_wait pool c' a bs s)))"

subsection \<open>Activation\<close>

text \<open>What the guest answers: connecting and writing a file in the n-th staging attempt, releasing the
  held worker with its assignment, and waiting for its readiness. \<open>None\<close> is success.\<close>

record guest =
  g_connect :: "nat \<Rightarrow> string option"
  g_write :: "nat \<Rightarrow> string \<Rightarrow> bytes \<Rightarrow> 32 word \<Rightarrow> string option"
  g_activate :: "string \<Rightarrow> (string \<times> string) list \<Rightarrow> string option"
  g_worker_ready :: "string \<Rightarrow> string \<Rightarrow> nat \<Rightarrow> string option"

text \<open>\<open>left\<close> is the number of attempts allowed after this one.\<close>

fun retry_transient_lease_stage :: "(nat \<Rightarrow> string option) \<Rightarrow> nat \<Rightarrow> nat \<Rightarrow> string option" where
  "retry_transient_lease_stage operation attempt 0 = operation attempt"
| "retry_transient_lease_stage operation attempt (Suc left) =
     (case operation attempt of
        None \<Rightarrow> None
      | Some error \<Rightarrow>
          if is_transient_network_error error then retry_transient_lease_stage operation (attempt + 1) left
          else Some error)"

fun write_files :: "guest \<Rightarrow> nat \<Rightarrow> staged_file list \<Rightarrow> string option" where
  "write_files g attempt [] = None"
| "write_files g attempt (file # files) =
     (case g_write g attempt (''/workspace/'' @ sf_path file) (sf_data file) (sf_mode file) of
        Some e \<Rightarrow> Some e
      | None \<Rightarrow> write_files g attempt files)"

definition stage_lease_payload :: "guest \<Rightarrow> staged_file list \<Rightarrow> string option" where
  "stage_lease_payload g files =
     (if files = [] then None
      else retry_transient_lease_stage
             (\<lambda>attempt. case g_connect g attempt of Some e \<Rightarrow> Some e | None \<Rightarrow> write_files g attempt files)
             1 (LEASE_PAYLOAD_STAGE_ATTEMPTS - 1))"

definition activation :: "guest \<Rightarrow> string \<Rightarrow> (string \<times> string) list \<Rightarrow> staged_file list \<Rightarrow> (string \<times> nat) option \<Rightarrow> string option" where
  "activation g machine assignment files worker_ready =
     (case stage_lease_payload g files of
        Some e \<Rightarrow> Some e
      | None \<Rightarrow>
     (case g_activate g machine assignment of
        Some e \<Rightarrow> Some e
      | None \<Rightarrow>
     (case worker_ready of
        None \<Rightarrow> None
      | Some (token, timeout) \<Rightarrow> g_worker_ready g machine token timeout)))"

text \<open>\<open>others\<close> is what the rest of the system does while the guest is being activated.\<close>

definition activate_claimed_lease ::
  "guest \<Rightarrow> nat \<Rightarrow> ('f service \<Rightarrow> 'f service) \<Rightarrow> fork_lease \<Rightarrow> (string \<times> string) list \<Rightarrow> staged_file list \<Rightarrow>
   (string \<times> nat) option \<Rightarrow> 'f service \<Rightarrow> (refusal + fork_lease) \<times> 'f service" where
  "activate_claimed_lease g now others lease assignment files worker_ready s =
     (case map_of (db_vms (sv_db s)) (lease_machine lease) of
        None \<Rightarrow>
          (Inl WorkerDisappeared,
           notify_pool_reconcile
             (s\<lparr>sv_db := snd (fail_fork_lease (lease_id lease) now ''claimed pool worker disappeared'' (sv_db s))\<rparr>))
      | Some record \<Rightarrow>
          let s' = others s in
          (case activation g (lease_machine lease) assignment files worker_ready of
             Some message \<Rightarrow>
               (Inl (ActivationFailed message),
                notify_pool_reconcile (s'\<lparr>sv_db := snd (fail_fork_lease (lease_id lease) now message (sv_db s'))\<rparr>))
           | None \<Rightarrow>
               (case mark_fork_lease_active (lease_id lease) now (sv_db s') of
                  (None, db) \<Rightarrow> (Inl LeaseDisappeared, s'\<lparr>sv_db := db\<rparr>)
                | (Some active, db) \<Rightarrow>
                    if lease_status active \<noteq> LeaseActive then (Inl (LeaseChanged (lease_status active)), s'\<lparr>sv_db := db\<rparr>)
                    else (Inr active, s'\<lparr>sv_db := db\<rparr>))))"

text \<open>The polls of a replayed request, each with what happened before it; after the last the deadline has
  passed.\<close>

fun wait_for_existing_activation ::
  "('f service \<Rightarrow> 'f service) list \<Rightarrow> fork_lease \<Rightarrow> 'f service \<Rightarrow> (api_error + fork_lease) \<times> 'f service" where
  "wait_for_existing_activation [] lease s =
     (case lease_status lease of
        LeaseActive \<Rightarrow> (Inr lease, s)
      | LeaseActivating \<Rightarrow> (Inl (Internal (StillActivating (lease_id lease))), s)
      | ended \<Rightarrow> (Inl (Internal (LeaseEnded (lease_id lease) ended (lease_error lease))), s))"
| "wait_for_existing_activation (others # polls) lease s =
     (case lease_status lease of
        LeaseActive \<Rightarrow> (Inr lease, s)
      | LeaseActivating \<Rightarrow>
          let s' = others s in
          (case get_fork_lease (sv_db s') (lease_pool lease) (lease_id lease) of
             None \<Rightarrow> (Inl (Internal LeaseDisappeared), s')
           | Some lease' \<Rightarrow> wait_for_existing_activation polls lease' s')
      | ended \<Rightarrow> (Inl (Internal (LeaseEnded (lease_id lease) ended (lease_error lease))), s))"

subsection \<open>The request\<close>

text \<open>What a request meets on its way: its generated identifier, the attempts to claim, the instant of a
  refusal for capacity, the guest, the clock and the rest of the system during the activation, and the
  polls of a replay.\<close>

record 'f lease_run =
  run_lease_id :: string
  run_attempt :: "'f attempt"
  run_attempts :: "'f attempt list"
  run_instant :: instant
  run_guest :: guest
  run_now :: nat
  run_others :: "'f service \<Rightarrow> 'f service"
  run_polls :: "('f service \<Rightarrow> 'f service) list"

text \<open>The library functions the request needs: Base64, SHA-256 in hexadecimal, decimal numbers.\<close>

record codec =
  cd_decode :: "string \<Rightarrow> bytes option"
  cd_sha256_hex :: "bytes \<Rightarrow> string"
  cd_show :: "nat \<Rightarrow> string"

definition validate_lease_request ::
  "codec \<Rightarrow> string \<Rightarrow> string \<Rightarrow> lease_request \<Rightarrow>
   api_error + slot_claim \<times> staged_file list \<times> (string \<times> nat) option" where
  "validate_lease_request cd pool id_new req =
     (case validate_idempotency_key (lr_key req) of
        Some e \<Rightarrow> Inl e
      | None \<Rightarrow>
     (case validate_worker_ready_request (lr_await_ready req) (lr_ready_timeout req) of
        Inl e \<Rightarrow> Inl e
      | Inr ready \<Rightarrow>
     (case validate_lease_wait (lr_wait req) of
        Inl e \<Rightarrow> Inl e
      | Inr wait \<Rightarrow>
     (case request_assignment (lr_env req) of
        Inl e \<Rightarrow> Inl e
      | Inr env \<Rightarrow>
     (let token = worker_ready_token (cd_sha256_hex cd) pool (lr_key req) in
      case (case ready of None \<Rightarrow> Inr env | Some timeout \<Rightarrow> add_worker_ready_assignment (cd_show cd) token timeout env) of
        Inl e \<Rightarrow> Inl e
      | Inr assignment \<Rightarrow>
     (case validate_lease_payload (cd_decode cd) (cd_sha256_hex cd) (lr_files req) of
        Inl e \<Rightarrow> Inl (BadRequest (BadPayload e))
      | Inr (files, digest) \<Rightarrow>
          Inr (\<lparr>claim_pool = pool, claim_lease_id = id_new, claim_key = lr_key req, claim_assignment = assignment,
                claim_payload = digest, require_private_workspace = files \<noteq> [], claim_limit = None, claim_ttl = 0,
                claim_now = 0\<rparr>, files, map_option (\<lambda>timeout. (token, timeout)) ready)))))))"

definition acquire_lease_inner ::
  "codec \<Rightarrow> 'f lease_run \<Rightarrow> string \<Rightarrow> lease_request \<Rightarrow> 'f service \<Rightarrow> (api_error + fork_lease) \<times> 'f service" where
  "acquire_lease_inner cd run pool req s =
     (case validate_lease_request cd pool (run_lease_id run) req of
        Inl e \<Rightarrow> (Inl e, s)
      | Inr (c, files, worker_ready) \<Rightarrow>
     (case acquire_claim (lr_ttl req) c (run_attempt run) (run_attempts run) (run_instant run) s of
        (Inl e, s1) \<Rightarrow> (Inl e, s1)
      | (Inr (Replayed lease), s1) \<Rightarrow>
          (case worker_ready of
             None \<Rightarrow> (Inr lease, s1)
           | Some _ \<Rightarrow> wait_for_existing_activation (run_polls run) lease s1)
      | (Inr (Fresh lease), s1) \<Rightarrow>
          (case activate_claimed_lease (run_guest run) (run_now run) (run_others run) lease (claim_assignment c) files
                  worker_ready s1 of
             (Inl r, s2) \<Rightarrow> (Inl (Internal r), s2)
           | (Inr active, s2) \<Rightarrow> (Inr active, notify_pool_reconcile s2))))"

text \<open>One item of a batch's answer, and the answer: the items finish in any order and are put back in
  that of the requests.\<close>

record batch_item =
  item_key :: string
  item_lease :: "fork_lease option"
  item_error_code :: "string option"

definition batch_item_of :: "lease_request \<Rightarrow> api_error + fork_lease \<Rightarrow> batch_item" where
  "batch_item_of req outcome =
     (case outcome of
        Inr lease \<Rightarrow> \<lparr>item_key = lr_key req, item_lease = Some lease, item_error_code = None\<rparr>
      | Inl error \<Rightarrow> \<lparr>item_key = lr_key req, item_lease = None, item_error_code = Some (lease_batch_error error)\<rparr>)"

definition batch_response :: "(nat \<times> batch_item) list \<Rightarrow> batch_item list" where
  "batch_response finished = map snd (sort_key fst finished)"

subsection \<open>Renewal and completion\<close>

definition get_lease :: "string \<Rightarrow> string \<Rightarrow> 'f service \<Rightarrow> api_error + fork_lease" where
  "get_lease pool i s =
     (case get_fork_lease (sv_db s) pool i of None \<Rightarrow> Inl (NotFound (LeaseMissing i)) | Some lease \<Rightarrow> Inr lease)"

text \<open>\<open>alive m\<close> says that the process of machine \<open>m\<close> is running; \<open>failed_at\<close> is the clock of the failure.\<close>

definition heartbeat_lease ::
  "(string \<Rightarrow> bool) \<Rightarrow> string \<Rightarrow> string \<Rightarrow> nat \<Rightarrow> nat \<Rightarrow> 'f service \<Rightarrow> (api_error + fork_lease) \<times> 'f service" where
  "heartbeat_lease alive pool i now failed_at s =
     (case heartbeat_fork_lease pool i now (sv_db s) of
        (None, db) \<Rightarrow> (Inl (NotFound (LeaseMissing i)), s\<lparr>sv_db := db\<rparr>)
      | (Some lease, db) \<Rightarrow>
          if lease_status lease \<noteq> LeaseActive \<or> lease_expires_at lease \<le> now
          then (Inl (Conflict (LeaseInactive i)), s\<lparr>sv_db := db\<rparr>)
          else if \<not> (map_of (db_vms db) (lease_machine lease) \<noteq> None \<and> alive (lease_machine lease))
          then (Inl (Conflict (WorkerStopped i)),
                notify_pool_reconcile
                  (s\<lparr>sv_db := snd (fail_active_fork_lease (lease_id lease) failed_at ''leased worker process exited'' db)\<rparr>))
          else (Inr lease, s\<lparr>sv_db := db\<rparr>))"

definition complete_lease :: "string \<Rightarrow> string \<Rightarrow> nat \<Rightarrow> 'f service \<Rightarrow> (api_error + fork_lease) \<times> 'f service" where
  "complete_lease pool i now s =
     (case complete_fork_lease pool i now (sv_db s) of
        (None, db) \<Rightarrow> (Inl (NotFound (LeaseMissing i)), s\<lparr>sv_db := db\<rparr>)
      | (Some lease, db) \<Rightarrow>
          if lease_status lease \<noteq> Completed then (Inl (Conflict (NotActive i (lease_status lease))), s\<lparr>sv_db := db\<rparr>)
          else (Inr lease, notify_pool_reconcile (s\<lparr>sv_db := db\<rparr>)))"

end
