(* ===== verification/Pool_Controller.thy ===== *)
theory Pool_Controller
  imports Pool_Handlers
begin

text \<open>
  The background controller of the fork pools (\<open>src/api/pool_controller.rs\<close>): recovery at the start, one
  reconciliation pass, filling a pool, and the backoff after failed fills. The clocks, the liveness of
  processes, the outcome of deleting a machine and of booting a worker, the telemetry, and the
  transactions other requests run while a pass is waiting are arguments. Failures of the database itself
  end a pass with a log line and are not modelled.
\<close>

section \<open>Classification and backoff\<close>

definition MAX_PREPARED_POOL_WORKERS :: nat where "MAX_PREPARED_POOL_WORKERS = 32"

definition provision_failure_reason :: "string \<Rightarrow> string" where
  "provision_failure_reason message =
     (if contains_str message ''Failure during vcpu run: Cannot allocate memory (os error 12)'' then ''kvm_enomem''
      else if contains_str message ''clone agent did not respond to ping within timeout'' then ''agent_timeout''
      else if contains_str message ''CUDA clone worker failed during reconstruction'' then ''cuda_reconstruction''
      else ''other'')"

definition is_stale_checkpoint_failure :: "string \<Rightarrow> bool" where
  "is_stale_checkpoint_failure detail \<longleftrightarrow>
     contains_str detail ''restore checkpoint from'' \<or> contains_str detail ''cow-map guest memory''"

definition MAX_FILL_BACKOFF :: nat where "MAX_FILL_BACKOFF = secs 60"

definition fill_backoff :: "nat \<Rightarrow> nat" where
  "fill_backoff consecutive_failures = min (secs (2 ^ min consecutive_failures 6)) MAX_FILL_BACKOFF"

section \<open>The state of the controller\<close>

record retained_snapshot =
  rs_path :: string
  rs_golden_pid :: int
  rs_start_time :: nat

record fill_stats =
  fs_ready :: nat
  fs_failed :: nat

text \<open>The service, the table of retained checkpoints and the controller's copy of it, the pools being
  filled, and the pools whose fills failed with the number of failures and the instant to try again.\<close>

record 'f controller =
  ct_service :: "'f service"
  ct_snapshots :: "(string \<times> retained_snapshot) list"
  ct_retained :: "(string \<times> retained_snapshot) list"
  ct_filling :: "string list"
  ct_backoff :: "(string \<times> nat \<times> instant) list"

definition hm_remove :: "'k \<Rightarrow> ('k \<times> 'v) list \<Rightarrow> ('k \<times> 'v) list" where
  "hm_remove k m = filter (\<lambda>(k', _). k' \<noteq> k) m"

definition ct_db :: "'f controller \<Rightarrow> pool_db" where
  "ct_db ct = sv_db (ct_service ct)"

definition set_db :: "pool_db \<Rightarrow> 'f controller \<Rightarrow> 'f controller" where
  "set_db db ct = ct\<lparr>ct_service := (ct_service ct)\<lparr>sv_db := db\<rparr>\<rparr>"

text \<open>A fill that ended: its pool and counts, or a panic that lost them.\<close>

datatype fill_result = Finished string fill_stats | Panicked

definition handle_fill_task :: "instant \<Rightarrow> fill_result option \<Rightarrow> 'f controller \<Rightarrow> 'f controller" where
  "handle_fill_task now result ct =
     (case result of
        None \<Rightarrow> ct
      | Some Panicked \<Rightarrow> ct\<lparr>ct_filling := []\<rparr>
      | Some (Finished pool stats) \<Rightarrow>
          let ct' = ct\<lparr>ct_filling := filter (\<lambda>n. n \<noteq> pool) (ct_filling ct)\<rparr>
          in if 0 < fs_ready stats then ct'\<lparr>ct_backoff := hm_remove pool (ct_backoff ct')\<rparr>
             else if 0 < fs_failed stats then
               let failures = (case map_of (ct_backoff ct') pool of Some (n, _) \<Rightarrow> n | None \<Rightarrow> 0) + 1
               in ct'\<lparr>ct_backoff := hm_insert pool (failures, now + fill_backoff failures) (ct_backoff ct')\<rparr>
             else ct')"

definition reap_fill_tasks :: "instant \<Rightarrow> fill_result list \<Rightarrow> 'f controller \<Rightarrow> 'f controller" where
  "reap_fill_tasks now results ct = fold (\<lambda>r. handle_fill_task now (Some r)) results ct"

section \<open>Workers\<close>

text \<open>What a pass observes and what happens around it: the clock of each transaction, by machine or lease;
  whether the process of a machine runs; whether its record says it is paused or being paused; how its
  deletion ended; and the transactions of others between reading a worker and acting on it.\<close>

datatype delete_outcome = Deleted | DeleteMissing | DeleteFailed

record surroundings =
  su_now :: "string \<Rightarrow> nat"
  su_alive :: "string \<Rightarrow> bool"
  su_paused :: "string \<Rightarrow> bool"
  su_delete :: "string \<Rightarrow> delete_outcome"
  su_others :: "string \<Rightarrow> pool_db \<Rightarrow> pool_db"

definition worker_held :: "surroundings \<Rightarrow> fork_pool \<Rightarrow> string \<Rightarrow> pool_db \<Rightarrow> bool" where
  "worker_held su pool machine db =
     (case map_of (db_vms db) machine of
        None \<Rightarrow> False
      | Some vm \<Rightarrow> forkpoint_held vm \<and> vm_golden vm = Some (pool_golden pool) \<and> su_alive su machine)"

definition recover_slot :: "surroundings \<Rightarrow> fork_pool \<Rightarrow> fork_slot \<Rightarrow> pool_db \<Rightarrow> pool_db" where
  "recover_slot su pool slot db =
     (let machine = slot_machine slot; recoverable = worker_held su pool machine db; db' = su_others su machine db
      in if recoverable then snd (mark_fork_pool_slot_ready machine (su_now su machine) db')
         else snd (mark_fork_pool_slot_retiring_from machine Provisioning (su_now su machine)
                (Some ''controller restarted during worker provisioning'') db'))"

definition recover_pool :: "surroundings \<Rightarrow> fork_pool \<Rightarrow> pool_db \<Rightarrow> pool_db" where
  "recover_pool su pool db =
     fold (recover_slot su pool) (filter (\<lambda>s. slot_status s = Provisioning) (list_fork_pool_slots db (pool_name pool))) db"

definition recover_interrupted_provisioning :: "surroundings \<Rightarrow> pool_db \<Rightarrow> pool_db" where
  "recover_interrupted_provisioning su db = fold (recover_pool su) (list_fork_pools db) db"

definition retire_invalid_slot :: "surroundings \<Rightarrow> fork_pool \<Rightarrow> fork_slot \<Rightarrow> pool_db \<Rightarrow> pool_db" where
  "retire_invalid_slot su pool slot db =
     (let machine = slot_machine slot; valid = worker_held su pool machine db; db' = su_others su machine db
      in if valid then db'
         else snd (mark_fork_pool_slot_retiring_from machine ReadySlot (su_now su machine)
                (Some ''ready worker is missing, dead, or no longer held'') db'))"

definition retire_invalid_in_pool :: "surroundings \<Rightarrow> fork_pool \<Rightarrow> pool_db \<Rightarrow> pool_db" where
  "retire_invalid_in_pool su pool db =
     fold (retire_invalid_slot su pool) (filter (\<lambda>s. slot_status s = ReadySlot) (list_fork_pool_slots db (pool_name pool))) db"

definition retire_invalid_ready_workers :: "surroundings \<Rightarrow> pool_db \<Rightarrow> pool_db" where
  "retire_invalid_ready_workers su db = fold (retire_invalid_in_pool su) (list_fork_pools db) db"

definition leased_worker_is_live :: "surroundings \<Rightarrow> string \<Rightarrow> bool" where
  "leased_worker_is_live su machine \<longleftrightarrow> su_alive su machine \<or> su_paused su machine"

definition retire_dead_lease :: "surroundings \<Rightarrow> fork_lease \<Rightarrow> pool_db \<Rightarrow> pool_db" where
  "retire_dead_lease su lease db =
     (let machine = lease_machine lease; live = map_of (db_vms db) machine \<noteq> None \<and> leased_worker_is_live su machine;
          db' = su_others su machine db
      in if live then db'
         else snd (fail_active_fork_lease (lease_id lease) (su_now su machine) ''leased worker process exited'' db'))"

definition retire_dead_leased_workers :: "surroundings \<Rightarrow> pool_db \<Rightarrow> pool_db" where
  "retire_dead_leased_workers su db = fold (retire_dead_lease su) (list_active_fork_leases db) db"

text \<open>Deleting a machine removes its record; of that only the record's row matters here.\<close>

definition delete_worker :: "surroundings \<Rightarrow> fork_slot \<Rightarrow> pool_db \<Rightarrow> pool_db" where
  "delete_worker su slot db =
     (let machine = slot_machine slot; db' = su_others su machine db
      in case su_delete su machine of
           Deleted \<Rightarrow> snd (remove_fork_pool_slot machine (db'\<lparr>db_vms := hm_remove machine (db_vms db')\<rparr>))
         | DeleteMissing \<Rightarrow> snd (remove_fork_pool_slot machine db')
         | DeleteFailed \<Rightarrow> db')"

definition delete_retired_workers :: "surroundings \<Rightarrow> pool_db \<Rightarrow> pool_db" where
  "delete_retired_workers su db = fold (delete_worker su) (list_retiring_fork_pool_slots db) db"

section \<open>Checkpoints\<close>

definition update_retained_snapshot ::
  "string \<Rightarrow> retained_snapshot option \<Rightarrow> retained_snapshot option \<Rightarrow> (string \<times> retained_snapshot) list \<Rightarrow>
   (string \<times> retained_snapshot) list" where
  "update_retained_snapshot golden prior_hint proven snapshots =
     (case proven of
        Some snapshot \<Rightarrow> hm_insert golden snapshot snapshots
      | None \<Rightarrow> if map_of snapshots golden = prior_hint then hm_remove golden snapshots else snapshots)"

definition retain_existing_checkpoint_sources ::
  "string list \<Rightarrow> (string \<times> retained_snapshot) list \<Rightarrow> string list \<times> (string \<times> retained_snapshot) list" where
  "retain_existing_checkpoint_sources checkpoint_sources snapshots =
     (filter (\<lambda>golden. golden \<notin> set checkpoint_sources) (map fst snapshots),
      filter (\<lambda>(golden, _). golden \<in> set checkpoint_sources) snapshots)"

definition drop_orphan_checkpoints :: "'f controller \<Rightarrow> 'f controller" where
  "drop_orphan_checkpoints ct =
     (case retain_existing_checkpoint_sources (map fst (db_vms (ct_db ct))) (ct_retained ct) of
        (stale, kept) \<Rightarrow> ct\<lparr>ct_retained := kept, ct_snapshots := fold hm_remove stale (ct_snapshots ct)\<rparr>)"

section \<open>Filling a pool\<close>

definition worker_name :: "string \<Rightarrow> string \<Rightarrow> string" where
  "worker_name pool suffix =
     (let max_prefix = MAX_VM_NAME_LENGTH - length ''pool--'' - length suffix
      in ''pool-'' @ take (min (length pool) max_prefix) pool @ ''-'' @ suffix)"

text \<open>The reservations of one fill: for each a generated suffix and the clock of its transaction.\<close>

fun reserve_workers :: "string \<Rightarrow> (string \<times> nat) list \<Rightarrow> pool_db \<Rightarrow> string list \<times> pool_db" where
  "reserve_workers pool [] db = ([], db)"
| "reserve_workers pool ((suffix, now) # suffixes) db =
     (case reserve_fork_pool_slot pool (worker_name pool suffix) now db of
        (False, db') \<Rightarrow> ([], db')
      | (True, db') \<Rightarrow>
          (case reserve_workers pool suffixes db' of
             (machines, db'') \<Rightarrow> (worker_name pool suffix # machines, db'')))"

definition retire_failed_provision :: "nat \<Rightarrow> string \<Rightarrow> string \<Rightarrow> pool_db \<Rightarrow> pool_db" where
  "retire_failed_provision now machine message db = snd (mark_fork_pool_slot_retiring machine now (Some message) db)"

text \<open>\<open>result\<close> is the boot's error, or whether the booted worker is held at the fork point. The answer is the
  reason of a retirement.\<close>

definition finish_provision :: "nat \<Rightarrow> string \<Rightarrow> string + bool \<Rightarrow> pool_db \<Rightarrow> string option \<times> pool_db" where
  "finish_provision now machine result db =
     (let retire = (\<lambda>reason db. (Some reason, retire_failed_provision now machine reason db))
      in case result of
           Inr True \<Rightarrow>
             (case mark_fork_pool_slot_ready machine now db of
                (True, db') \<Rightarrow> (None, db')
              | (False, db') \<Rightarrow> retire ''pool changed while worker was provisioning'' db')
         | Inr False \<Rightarrow> retire ''forked pool worker was not held'' db
         | Inl detail \<Rightarrow> retire detail db)"

text \<open>The workers as their boots end, with the counts, whether a failure says that the checkpoint is stale,
  and the workers that were reported. \<open>others\<close> is what ran before each.\<close>

record boot =
  bt_machine :: string
  bt_result :: "string + bool"
  bt_now :: nat
  bt_others :: "pool_db \<Rightarrow> pool_db"

fun process_results :: "boot list \<Rightarrow> pool_db \<Rightarrow> string list \<times> fill_stats \<times> bool \<times> pool_db" where
  "process_results [] db = ([], \<lparr>fs_ready = 0, fs_failed = 0\<rparr>, False, db)"
| "process_results (b # boots) db =
     (case finish_provision (bt_now b) (bt_machine b) (bt_result b) (bt_others b db) of
        (reason, db') \<Rightarrow>
          (case process_results boots db' of
             (completed, stats, stale, db'') \<Rightarrow>
               (bt_machine b # completed,
                (case reason of
                   None \<Rightarrow> stats\<lparr>fs_ready := fs_ready stats + 1\<rparr>
                 | Some _ \<Rightarrow> stats\<lparr>fs_failed := fs_failed stats + 1\<rparr>),
                (case reason of None \<Rightarrow> stale | Some detail \<Rightarrow> is_stale_checkpoint_failure detail \<or> stale), db'')))"

text \<open>One fill: the suffixes with their clocks, the boots in the order they end, the checkpoint that was
  published before the boots ended, how the batch ended, and the clock of the last retirements.\<close>

record fill_run =
  fr_suffixes :: "(string \<times> nat) list"
  fr_boots :: "boot list"
  fr_early :: "retained_snapshot option"
  fr_outcome :: "string + retained_snapshot option"
  fr_now :: nat

definition sync_retained :: "string \<Rightarrow> 'f controller \<Rightarrow> 'f controller" where
  "sync_retained golden ct =
     (case map_of (ct_snapshots ct) golden of
        Some snapshot \<Rightarrow> ct\<lparr>ct_retained := hm_insert golden snapshot (ct_retained ct)\<rparr>
      | None \<Rightarrow> ct\<lparr>ct_retained := hm_remove golden (ct_retained ct)\<rparr>)"

definition fill_pool :: "fill_run \<Rightarrow> fork_pool \<Rightarrow> 'f controller \<Rightarrow> fill_stats \<times> 'f controller" where
  "fill_pool fr pool ct =
     (case reserve_workers (pool_name pool) (take MAX_PREPARED_POOL_WORKERS (fr_suffixes fr)) (ct_db ct) of
        (machines, db) \<Rightarrow>
          if machines = [] then (\<lparr>fs_ready = 0, fs_failed = 0\<rparr>, set_db db ct)
          else
            let golden = pool_golden pool; ct1 = sync_retained golden (set_db db ct);
                hint = map_of (ct_retained ct1) golden
            in (case process_results (fr_boots fr) (ct_db ct1) of
                  (completed, stats, stale, db1) \<Rightarrow>
                    (let ct2 = set_db db1 ct1;
                         ct3 = (case fr_early fr of
                                  None \<Rightarrow> ct2
                                | Some s \<Rightarrow> ct2\<lparr>ct_retained := update_retained_snapshot golden hint (Some s) (ct_retained ct2)\<rparr>)
                     in case (case fr_outcome fr of
                                Inr proven \<Rightarrow>
                                  (stats,
                                   if fr_early fr = None
                                   then ct3\<lparr>ct_retained := update_retained_snapshot golden hint proven (ct_retained ct3)\<rparr>
                                   else ct3)
                              | Inl error \<Rightarrow>
                                  (let lost = filter (\<lambda>m. m \<notin> set completed) machines
                                   in (stats\<lparr>fs_failed := fs_failed stats + length lost\<rparr>,
                                       set_db (fold (\<lambda>m. retire_failed_provision (fr_now fr) m error) lost (ct_db ct3)) ct3))) of
                          (stats', ct4) \<Rightarrow>
                            (stats',
                             if stale then ct4\<lparr>ct_retained := hm_remove golden (ct_retained ct4),
                                               ct_snapshots := hm_remove golden (ct_snapshots ct4)\<rparr>
                             else ct4))))"

section \<open>A reconciliation pass\<close>

record 'f telemetry =
  te_sample :: bool
  te_gpu :: "(nat \<times> 'f gpu_sample) list option"
  te_host_cpu :: "'f option"

definition pool_observations :: "fork_pool list \<Rightarrow> pool_db \<Rightarrow> observation list" where
  "pool_observations pools db =
     map (\<lambda>p. (p, fork_pool_admission_counts db (pool_name p))) (filter (\<lambda>p. \<not> deleting p) pools)"

definition update_admission ::
  "'f float_ops \<Rightarrow> 'f telemetry \<Rightarrow> instant \<Rightarrow> fork_pool list \<Rightarrow> 'f service \<Rightarrow> 'f service option" where
  "update_admission F te at pools s =
     map_option (\<lambda>r. s\<lparr>sv_registry := r\<rparr>)
       (if te_sample te then observe_pools F (pool_observations pools (sv_db s)) (te_gpu te) (te_host_cpu te) at (sv_registry s)
        else ensure_pools F (pool_observations pools (sv_db s)) at (sv_registry s))"

definition backing_off :: "instant \<Rightarrow> 'f controller \<Rightarrow> string \<Rightarrow> bool" where
  "backing_off at ct name = (case map_of (ct_backoff ct) name of Some (_, until) \<Rightarrow> at < until | None \<Rightarrow> False)"

fun start_fills :: "instant \<Rightarrow> fork_pool list \<Rightarrow> 'f controller \<Rightarrow> fork_pool list \<times> 'f controller" where
  "start_fills at [] ct = ([], ct)"
| "start_fills at (pool # pools) ct =
     (if pool_name pool \<in> set (ct_filling ct) then start_fills at pools ct
      else if backing_off at ct (pool_name pool) then start_fills at pools ct
      else if 0 < fork_pool_ready_deficit (ct_db ct) (pool_name pool)
      then (case start_fills at pools (ct\<lparr>ct_filling := pool_name pool # ct_filling ct\<rparr>) of
              (started, ct') \<Rightarrow> (pool # started, ct'))
      else start_fills at pools ct)"

text \<open>The housekeeping before the telemetry, then the whole pass. It answers the pools whose fills it
  started; \<open>None\<close> is a pass whose admission update does not return.\<close>

definition housekeeping :: "surroundings \<Rightarrow> nat \<Rightarrow> pool_db \<Rightarrow> pool_db" where
  "housekeeping su now db =
     snd (finalize_deleted_fork_pools
       (delete_retired_workers su
         (retire_dead_leased_workers su
           (retire_invalid_ready_workers su
             (snd (expire_fork_leases now db))))))"

definition reconcile_once ::
  "'f float_ops \<Rightarrow> surroundings \<Rightarrow> 'f telemetry \<Rightarrow> nat \<Rightarrow> instant \<Rightarrow> instant \<Rightarrow> 'f controller \<Rightarrow>
   (fork_pool list \<times> 'f controller) option" where
  "reconcile_once F su te now at at' ct =
     (let ct1 = set_db (housekeeping su now (ct_db ct)) ct; pools = list_fork_pools (ct_db ct1);
          ct2 = drop_orphan_checkpoints ct1
      in case update_admission F te at pools (ct_service ct2) of
           None \<Rightarrow> None
         | Some s \<Rightarrow>
             (let ct3 = ct2\<lparr>ct_service := s,
                           ct_backoff := filter (\<lambda>(name, _). list_ex (\<lambda>p. pool_name p = name) pools) (ct_backoff ct2)\<rparr>
              in Some (start_fills at' (filter (\<lambda>p. \<not> deleting p) pools) ct3)))"

end
