(* ===== verification/Pool_Service.thy ===== *)
theory Pool_Service
  imports Pool_Controller
begin

text \<open>
  The pool service as a whole. Every handler and every part of the controller is shown to be a sequence
  of pool transactions, registry operations and changes of the in-memory flags, so the invariants of the
  database and of the registry hold in every state the service reaches, whatever requests, passes and
  fills ran in whatever order, and whatever other requests did while one of them waited.
\<close>

section \<open>Steps of the service\<close>

inductive service_step :: "'f float_ops \<Rightarrow> 'f service \<Rightarrow> 'f service \<Rightarrow> bool" for F where
  transaction: "pool_step (sv_db s) db \<Longrightarrow> service_step F s (s\<lparr>sv_db := db\<rparr>)"
| admission: "reg_step F (sv_registry s) r \<Longrightarrow> service_step F s (s\<lparr>sv_registry := r\<rparr>)"
| memory: "service_step F s (s\<lparr>sv_held := h, sv_woken := w\<rparr>)"

definition service_ok :: "'f service \<Rightarrow> bool" where
  "service_ok s \<longleftrightarrow> pool_ok (sv_db s) \<and> registry_ok (sv_registry s)"

definition service_initial :: "'f service \<Rightarrow> bool" where
  "service_initial s \<longleftrightarrow> empty_db (sv_db s) \<and> sv_registry s = registry_default"

interpretation service_runs: invariant_system "service_step F" service_initial service_ok for F
proof
  show "service_ok s" if "service_initial s" for s :: "'a service"
    using that pool_runs.initial_inv reg_runs.initial_inv by (auto simp: service_initial_def service_ok_def)
  show "service_ok s'" if "service_step F s s'" "service_ok s" for s s'
    using that by cases (auto simp: service_ok_def pool_runs.step_inv reg_runs.step_inv)
qed

abbreviation serves :: "'f float_ops \<Rightarrow> 'f service \<Rightarrow> 'f service \<Rightarrow> bool" where
  "serves F \<equiv> (service_step F)\<^sup>*\<^sup>*"

named_theorems serves_intros

lemma serves_refl [serves_intros]: "serves F s s"
  by simp

lemma serves_transaction [serves_intros]: "pool_step (sv_db s) db \<Longrightarrow> serves F s (s\<lparr>sv_db := db\<rparr>)"
  by (rule r_into_rtranclp) (rule transaction)

lemma serves_transactions: "pool_step\<^sup>*\<^sup>* (sv_db s) db \<Longrightarrow> serves F s (s\<lparr>sv_db := db\<rparr>)"
proof (induction rule: rtranclp_induct)
  case base
  show ?case by simp
next
  case (step y z)
  then have "service_step F (s\<lparr>sv_db := y\<rparr>) ((s\<lparr>sv_db := y\<rparr>)\<lparr>sv_db := z\<rparr>)" by (intro transaction) simp
  with step.IH show ?case by simp
qed

lemma serves_admission [serves_intros]: "reg_step F (sv_registry s) r \<Longrightarrow> serves F s (s\<lparr>sv_registry := r\<rparr>)"
  by (rule r_into_rtranclp) (rule admission)

lemma serves_woken: "serves F s (notify_pool_reconcile s)"
  using memory [of F s True "sv_held s"] by (simp add: notify_pool_reconcile_def)

lemma serves_held: "serves F s (s\<lparr>sv_held := h\<rparr>)"
  using memory [of F s "sv_woken s" h] by simp

lemma serves_transaction_woken [serves_intros]:
  "pool_step (sv_db s) db \<Longrightarrow> serves F s (notify_pool_reconcile (s\<lparr>sv_db := db\<rparr>))"
  by (rule rtranclp_trans [OF serves_transaction serves_woken])

section \<open>The handlers are steps\<close>

lemma create_pool_serves: "serves F s (snd (create_pool golden now req s))"
proof -
  have "pool_step (sv_db s) db" if "insert_fork_pool_if_not_exists p (sv_db s) = (b, db)" for p b db
    using insert_pool [of "sv_db s" p] that by simp
  then show ?thesis
    by (auto simp: create_pool_def Let_def intro: serves_intros split: sum.split prod.split)
qed

lemma resize_pool_serves: "serves F s (snd (resize_pool name desired now s))"
proof -
  have "pool_step (sv_db s) db" if "resize_fork_pool name desired now (sv_db s) = (b, db)" for b db
    using pool_step.resize_pool [of "sv_db s" name desired now] that by simp
  then show ?thesis by (auto simp: Pool_Handlers.resize_pool_def intro: serves_intros split: option.split prod.split)
qed

lemma delete_pool_serves: "serves F s (snd (delete_pool name force now s))"
proof -
  have "pool_step (sv_db s) db" if "begin_delete_fork_pool name force now (sv_db s) = (b, db)" for b db
    using delete_begun [of "sv_db s" name force now] that by simp
  then show ?thesis by (auto simp: delete_pool_def intro: serves_intros split: option.split prod.split bool.split)
qed

lemma complete_lease_serves: "serves F s (snd (complete_lease pool i now s))"
proof -
  have "pool_step (sv_db s) db" if "complete_fork_lease pool i now (sv_db s) = (b, db)" for b db
    using lease_completed [of "sv_db s" pool i now] that by simp
  then show ?thesis by (auto simp: complete_lease_def intro: serves_intros split: option.split prod.split)
qed

lemma heartbeat_lease_serves: "serves F s (snd (heartbeat_lease alive pool i now failed_at s))"
proof -
  obtain res db where hb: "heartbeat_fork_lease pool i now (sv_db s) = (res, db)" by fastforce
  have step: "pool_step (sv_db s) db" using lease_heartbeat [of "sv_db s" pool i now] hb by simp
  then have one: "serves F s (s\<lparr>sv_db := db\<rparr>)" by (rule serves_transaction)
  have "serves F (s\<lparr>sv_db := db\<rparr>) (notify_pool_reconcile ((s\<lparr>sv_db := db\<rparr>)\<lparr>sv_db := snd (fail_active_fork_lease j failed_at e db)\<rparr>))" for j e
    using active_lease_failed [of db j failed_at e] by (intro serves_transaction_woken) simp
  then have "serves F s (notify_pool_reconcile (s\<lparr>sv_db := snd (fail_active_fork_lease j failed_at e db)\<rparr>))" for j e
    using rtranclp_trans [OF one] by simp
  with one show ?thesis by (simp add: heartbeat_lease_def hb split: option.split)
qed

text \<open>What the rest of the system does around an attempt is itself made of steps.\<close>

definition attempt_ok :: "'f float_ops \<Rightarrow> 'f attempt \<Rightarrow> bool" where
  "attempt_ok F a \<longleftrightarrow> (\<forall>s. serves F s (at_before a s)) \<and> (\<forall>s. serves F s (at_between a s))"

lemma claim_attempt_parts:
  assumes "attempt_ok F a" "claim_attempt pool c a s = (res, limit, s')"
  obtains s1 r s2 where "serves F s s1" "registry_limit (at_instant a) pool (sv_registry s1) = (limit, r)"
    "serves F (s1\<lparr>sv_registry := r\<rparr>) s2"
    "claim_fork_pool_slot (c\<lparr>claim_limit := limit, claim_now := at_now a\<rparr>) (sv_db s2) = (res, sv_db s')"
    "s' = s2\<lparr>sv_db := sv_db s'\<rparr>"
proof -
  define s1 where "s1 = at_before a s"
  obtain l r where limit: "registry_limit (at_instant a) pool (sv_registry s1) = (l, r)" by fastforce
  define s2 where "s2 = at_between a (s1\<lparr>sv_registry := r\<rparr>)"
  have "serves F s s1" "serves F (s1\<lparr>sv_registry := r\<rparr>) s2" using assms(1) by (auto simp: attempt_ok_def s1_def s2_def)
  then show ?thesis using that [of s1 r s2] assms(2) limit
    by (auto simp: claim_attempt_def Let_def s1_def [symmetric] s2_def [symmetric] split: prod.splits)
qed

lemma claim_attempt_serves:
  assumes "attempt_ok F a" "claim_attempt pool c a s = (res, limit, s')"
  shows "serves F s s'"
  using assms
proof (rule claim_attempt_parts)
  fix s1 r s2
  assume parts: "serves F s s1" "registry_limit (at_instant a) pool (sv_registry s1) = (limit, r)"
    "serves F (s1\<lparr>sv_registry := r\<rparr>) s2"
    "claim_fork_pool_slot (c\<lparr>claim_limit := limit, claim_now := at_now a\<rparr>) (sv_db s2) = (res, sv_db s')"
    "s' = s2\<lparr>sv_db := sv_db s'\<rparr>"
  have "serves F s1 (s1\<lparr>sv_registry := r\<rparr>)" by (intro serves_admission limited [OF parts(2)])
  moreover have "serves F s2 (s2\<lparr>sv_db := sv_db s'\<rparr>)"
    using claim_slot [of "sv_db s2"] parts(4) by (intro serves_transaction) (metis snd_conv)
  ultimately show ?thesis using parts(1,3,5) by (metis rtranclp_trans)
qed

lemma claim_wait_serves:
  "list_all (attempt_ok F) (a # bs) \<Longrightarrow> claim_wait pool c a bs s = (res, limit, s') \<Longrightarrow> serves F s s'"
proof (induction pool c a bs s rule: claim_wait.induct)
  case (1 pool c a s)
  then show ?case by (auto intro: claim_attempt_serves)
next
  case (2 pool c a b bs s)
  obtain r l t where attempt: "claim_attempt pool c a s = (r, l, t)" by (metis prod.exhaust)
  have first: "serves F s t" using 2(2) attempt by (auto intro: claim_attempt_serves)
  show ?case
  proof (cases "r = Inr NoReadySlot")
    case True
    then have "claim_wait pool c b bs (notify_pool_reconcile t) = (res, limit, s')" using 2(3) attempt by simp
    with 2(1) [OF attempt [symmetric] True refl refl] 2(2) have "serves F (notify_pool_reconcile t) s'" by simp
    with first serves_woken [of F t] show ?thesis by (metis rtranclp_trans)
  next
    case False
    then have "t = s'" using 2(3) attempt by (auto split: sum.splits claim_result.splits)
    with first show ?thesis by simp
  qed
qed

lemma claim_outcome_serves:
  assumes "serves F s t"
  shows "serves F s (snd (claim_outcome at pool c (res, limit, t)))"
proof -
  have "serves F t (t\<lparr>sv_registry := note_blocked at (claim_pool c) (sv_registry t)\<rparr>)"
    by (intro serves_admission blocked)
  with assms have "serves F s (t\<lparr>sv_registry := note_blocked at (claim_pool c) (sv_registry t)\<rparr>)" by (rule rtranclp_trans)
  moreover have "serves F s (t\<lparr>sv_held := h\<rparr>)" for h using assms serves_held by (rule rtranclp_trans)
  ultimately show ?thesis using assms by (auto simp: claim_outcome_def split: sum.split claim_result.split option.split)
qed

lemma acquire_claim_serves:
  assumes "list_all (attempt_ok F) (a # bs)"
  shows "serves F s (snd (acquire_claim ttl c a bs at s))"
proof -
  have "serves F s (snd (claim_outcome at pool c' (claim_wait pool c' a bs s)))" for pool c'
    using claim_wait_serves [OF assms, of pool c' s] by (metis claim_outcome_serves prod.exhaust)
  then show ?thesis by (auto simp: acquire_claim_def Let_def split: option.split sum.split)
qed

lemma activate_claimed_lease_serves:
  assumes "\<And>s. serves F s (others s)"
  shows "serves F s (snd (activate_claimed_lease g now others lease assignment files ready s))"
proof -
  have failed: "serves F t (notify_pool_reconcile (t\<lparr>sv_db := snd (fail_fork_lease (lease_id lease) now e (sv_db t))\<rparr>))" for t e
    by (intro serves_transaction_woken lease_failed)
  have active: "serves F t (t\<lparr>sv_db := db\<rparr>)" if "mark_fork_lease_active (lease_id lease) now (sv_db t) = (r, db)" for t r db
    using lease_active [of "sv_db t" "lease_id lease" now] that by (intro serves_transaction) simp
  have "serves F s (notify_pool_reconcile ((others s)\<lparr>sv_db := snd (fail_fork_lease (lease_id lease) now e (sv_db (others s)))\<rparr>))" for e
    using assms failed by (rule rtranclp_trans)
  moreover have "serves F s ((others s)\<lparr>sv_db := db\<rparr>)"
    if "mark_fork_lease_active (lease_id lease) now (sv_db (others s)) = (r, db)" for r db
    using assms active [OF that] by (rule rtranclp_trans)
  ultimately show ?thesis
    using failed by (auto simp: activate_claimed_lease_def Let_def split: option.split prod.split)
qed

lemma wait_for_existing_activation_serves:
  "(\<And>others s. others \<in> set polls \<Longrightarrow> serves F s (others s)) \<Longrightarrow>
   serves F s (snd (wait_for_existing_activation polls lease s))"
proof (induction polls lease s rule: wait_for_existing_activation.induct)
  case (1 lease s)
  show ?case by (simp split: lease_state.split)
next
  case (2 others polls lease s)
  have first: "serves F s (others s)" by (rule 2(2)) simp
  have "serves F (others s) (snd (wait_for_existing_activation polls lease' (others s)))"
    if "lease_status lease = LeaseActivating" "get_fork_lease (sv_db (others s)) (lease_pool lease) (lease_id lease) = Some lease'" for lease'
    using that 2(1) [OF that(1) refl that(2)] 2(2) by simp
  with first show ?case by (auto simp: Let_def split: lease_state.split option.split intro: rtranclp_trans)
qed

definition run_ok :: "'f float_ops \<Rightarrow> 'f lease_run \<Rightarrow> bool" where
  "run_ok F run \<longleftrightarrow>
     list_all (attempt_ok F) (run_attempt run # run_attempts run) \<and> (\<forall>s. serves F s (run_others run s)) \<and>
     (\<forall>others\<in>set (run_polls run). \<forall>s. serves F s (others s))"

lemma acquire_lease_inner_serves:
  assumes "run_ok F run"
  shows "serves F s (snd (acquire_lease_inner cd run pool req s))"
proof -
  have claim: "serves F s s1"
    if "acquire_claim (lr_ttl req) c (run_attempt run) (run_attempts run) (run_instant run) s = (r, s1)" for c r s1
    using acquire_claim_serves [of F "run_attempt run" "run_attempts run" s "lr_ttl req" c "run_instant run"] that assms
    by (simp add: run_ok_def)
  have wait: "serves F s1 (snd (wait_for_existing_activation (run_polls run) lease s1))" for lease s1
    using assms by (intro wait_for_existing_activation_serves) (simp add: run_ok_def)
  have activated: "serves F s1 s2" if "activate_claimed_lease g now (run_others run) lease as files ready s1 = (r, s2)"
    for g now lease as files ready s1 r s2
    using activate_claimed_lease_serves [of F "run_others run" s1 g now lease as files ready] that assms
    by (simp add: run_ok_def)
  have woken: "serves F s1 (notify_pool_reconcile s2)" if "serves F s1 s2" for s1 s2
    using that serves_woken by (rule rtranclp_trans)
  show ?thesis
    by (auto simp: acquire_lease_inner_def split: sum.split prod.split acquired.split option.split
        intro: rtranclp_trans [OF claim wait] rtranclp_trans [OF claim activated] rtranclp_trans [OF claim woken [OF activated]] claim)
qed

section \<open>The controller is made of steps\<close>

definition surroundings_ok :: "surroundings \<Rightarrow> bool" where
  "surroundings_ok su \<longleftrightarrow> (\<forall>m db. pool_step\<^sup>*\<^sup>* db (su_others su m db))"

lemma fold_steps: "(\<And>x db. x \<in> set xs \<Longrightarrow> pool_step\<^sup>*\<^sup>* db (f x db)) \<Longrightarrow> pool_step\<^sup>*\<^sup>* db (fold f xs db)"
proof (induction xs arbitrary: db)
  case (Cons x xs)
  have "pool_step\<^sup>*\<^sup>* db (f x db)" "pool_step\<^sup>*\<^sup>* (f x db) (fold f xs (f x db))" using Cons by simp_all
  then show ?case by simp
qed simp

lemma then_step: "pool_step\<^sup>*\<^sup>* db db' \<Longrightarrow> pool_step db' db'' \<Longrightarrow> pool_step\<^sup>*\<^sup>* db db''"
  by (rule rtranclp.rtrancl_into_rtrancl)

lemma others_steps: "surroundings_ok su \<Longrightarrow> pool_step\<^sup>*\<^sup>* db (su_others su m db)"
  by (simp add: surroundings_ok_def)

lemma recover_steps: "surroundings_ok su \<Longrightarrow> pool_step\<^sup>*\<^sup>* db (recover_interrupted_provisioning su db)"
  unfolding recover_interrupted_provisioning_def recover_pool_def recover_slot_def Let_def
  by (intro fold_steps) (auto intro: then_step [OF others_steps] slot_ready slot_retiring_from)

lemma retire_invalid_steps: "surroundings_ok su \<Longrightarrow> pool_step\<^sup>*\<^sup>* db (retire_invalid_ready_workers su db)"
  unfolding retire_invalid_ready_workers_def retire_invalid_in_pool_def retire_invalid_slot_def Let_def
  by (intro fold_steps) (auto intro: then_step [OF others_steps] slot_retiring_from others_steps)

lemma retire_dead_steps: "surroundings_ok su \<Longrightarrow> pool_step\<^sup>*\<^sup>* db (retire_dead_leased_workers su db)"
  unfolding retire_dead_leased_workers_def retire_dead_lease_def Let_def
  by (intro fold_steps) (auto intro: then_step [OF others_steps] active_lease_failed others_steps)

lemma delete_worker_steps:
  assumes "surroundings_ok su"
  shows "pool_step\<^sup>*\<^sup>* db (delete_worker su slot db)"
proof -
  note others = others_steps [OF assms, of db "slot_machine slot"]
  show ?thesis unfolding delete_worker_def Let_def
    by (cases "su_delete su (slot_machine slot)")
       (auto intro: others then_step [OF then_step [OF others machines_changed] slot_removed] then_step [OF others slot_removed])
qed

lemma housekeeping_steps:
  assumes "surroundings_ok su"
  shows "pool_step\<^sup>*\<^sup>* db (housekeeping su now db)"
proof -
  have "pool_step\<^sup>*\<^sup>* db (snd (expire_fork_leases now db))" for db by (intro r_into_rtranclp leases_expired)
  moreover have "pool_step\<^sup>*\<^sup>* db (delete_retired_workers su db)" for db
    unfolding delete_retired_workers_def by (intro fold_steps delete_worker_steps [OF assms])
  moreover have "pool_step\<^sup>*\<^sup>* db (snd (finalize_deleted_fork_pools db))" for db by (intro r_into_rtranclp delete_finished)
  moreover note retire_invalid_steps [OF assms] retire_dead_steps [OF assms]
  ultimately show ?thesis unfolding housekeeping_def by (meson rtranclp_trans)
qed

lemma reserve_steps:
  "list_all (\<lambda>(suffix, _). worker_name pool suffix \<notin> lease_machine ` set (db_leases db)) suffixes \<Longrightarrow>
   pool_step\<^sup>*\<^sup>* db (snd (reserve_workers pool suffixes db))"
proof (induction pool suffixes db rule: reserve_workers.induct)
  case (2 pool suffix now suffixes db)
  obtain b db' where reserved: "reserve_fork_pool_slot pool (worker_name pool suffix) now db = (b, db')" by fastforce
  have step: "pool_step db db'" using reserve_slot [of "worker_name pool suffix" db pool now] 2(2) reserved by simp
  have same: "db_leases db' = db_leases db"
    using reserved by (auto simp: reserve_fork_pool_slot_def Let_def split: option.splits if_splits)
  show ?case
  proof (cases b)
    case True
    from 2(1) [OF reserved [symmetric]] True same 2(2) have "pool_step\<^sup>*\<^sup>* db' (snd (reserve_workers pool suffixes db'))" by simp
    with step reserved True show ?thesis by (auto split: prod.split intro: converse_rtranclp_into_rtranclp)
  qed (use step reserved in simp)
qed simp

lemma finish_provision_steps: "pool_step\<^sup>*\<^sup>* db (snd (finish_provision now machine result db))"
proof -
  have retire: "pool_step db (retire_failed_provision now machine e db)" for e db
    unfolding retire_failed_provision_def by (rule slot_retiring)
  obtain b db' where ready: "mark_fork_pool_slot_ready machine now db = (b, db')" by fastforce
  have step: "pool_step\<^sup>*\<^sup>* db db'" using slot_ready [of db machine now] ready by simp
  then have "pool_step\<^sup>*\<^sup>* db (retire_failed_provision now machine e db')" for e using retire by (rule then_step)
  with step retire show ?thesis by (cases result) (auto simp: finish_provision_def Let_def ready split: bool.split)
qed

lemma process_results_steps:
  "list_all (\<lambda>b. \<forall>db. pool_step\<^sup>*\<^sup>* db (bt_others b db)) boots \<Longrightarrow>
   pool_step\<^sup>*\<^sup>* db (snd (snd (snd (process_results boots db))))"
proof (induction boots db rule: process_results.induct)
  case (2 b boots db)
  obtain r db' where fin: "finish_provision (bt_now b) (bt_machine b) (bt_result b) (bt_others b db) = (r, db')" by fastforce
  have "pool_step\<^sup>*\<^sup>* db (bt_others b db)" using 2(2) by simp
  moreover have "pool_step\<^sup>*\<^sup>* (bt_others b db) db'"
    using finish_provision_steps [of "bt_others b db" "bt_now b" "bt_machine b" "bt_result b"] fin by simp
  moreover have "pool_step\<^sup>*\<^sup>* db' (snd (snd (snd (process_results boots db'))))" using 2(1) [OF fin [symmetric]] 2(2) by simp
  ultimately show ?case using fin by (auto split: prod.split)
qed simp

lemma fold_retire_steps: "pool_step\<^sup>*\<^sup>* db (fold (\<lambda>m. retire_failed_provision now m e) ms db)"
  by (intro fold_steps r_into_rtranclp) (simp add: retire_failed_provision_def slot_retiring)

definition fill_ok :: "fork_pool \<Rightarrow> pool_db \<Rightarrow> fill_run \<Rightarrow> bool" where
  "fill_ok pool db fr \<longleftrightarrow>
     list_all (\<lambda>(suffix, _). worker_name (pool_name pool) suffix \<notin> lease_machine ` set (db_leases db)) (fr_suffixes fr) \<and>
     list_all (\<lambda>b. \<forall>db. pool_step\<^sup>*\<^sup>* db (bt_others b db)) (fr_boots fr)"

lemma set_db_simps [simp]:
  "ct_db (set_db db ct) = db" "set_db db' (set_db db ct) = set_db db' ct"
  "ct_service (set_db db ct) = (ct_service ct)\<lparr>sv_db := db\<rparr>"
  by (simp_all add: set_db_def ct_db_def)

lemma ct_db_retained [simp]:
  "ct_db (ct\<lparr>ct_retained := r\<rparr>) = ct_db ct" "ct_db (ct\<lparr>ct_snapshots := t\<rparr>) = ct_db ct"
  "ct_db (sync_retained golden ct) = ct_db ct" "ct_service (sync_retained golden ct) = ct_service ct"
  by (simp_all add: ct_db_def sync_retained_def split: option.split)

lemma fill_pool_steps:
  assumes "fill_ok pool (ct_db ct) fr"
  shows "\<exists>db. ct_service (snd (fill_pool fr pool ct)) = (ct_service ct)\<lparr>sv_db := db\<rparr> \<and> pool_step\<^sup>*\<^sup>* (ct_db ct) db"
proof -
  obtain machines db where res: "reserve_workers (pool_name pool) (take MAX_PREPARED_POOL_WORKERS (fr_suffixes fr)) (ct_db ct) = (machines, db)"
    by fastforce
  have "list_all P (take n xs)" if "list_all P xs" for P n and xs :: "(string \<times> nat) list"
    using that by (auto simp: list_all_iff dest: in_set_takeD)
  then have r: "pool_step\<^sup>*\<^sup>* (ct_db ct) db"
    using reserve_steps [of "pool_name pool" "ct_db ct" "take MAX_PREPARED_POOL_WORKERS (fr_suffixes fr)"] assms res
    by (simp add: fill_ok_def)
  obtain completed stats stale db1 where proc: "process_results (fr_boots fr) db = (completed, stats, stale, db1)"
    by (metis prod.exhaust)
  have p: "pool_step\<^sup>*\<^sup>* (ct_db ct) db1"
    using r process_results_steps [of "fr_boots fr" db] assms proc by (auto simp: fill_ok_def)
  have f: "pool_step\<^sup>*\<^sup>* (ct_db ct) (fold (\<lambda>m. retire_failed_provision (fr_now fr) m e) ms db1)" for e ms
    using p fold_retire_steps by (rule rtranclp_trans)
  show ?thesis
  proof (cases "machines = []")
    case True
    with r show ?thesis by (intro exI [of _ db]) (simp add: fill_pool_def res)
  next
    case False
    have "\<exists>db'. pool_step\<^sup>*\<^sup>* (ct_db ct) db' \<and> ct_service (snd (fill_pool fr pool ct)) = (ct_service ct)\<lparr>sv_db := db'\<rparr>"
    proof (cases "fr_outcome fr")
      case (Inl e)
      let ?lost = "filter (\<lambda>m. m \<notin> set completed) machines"
      show ?thesis
        using f [of e ?lost] False
        by (intro exI [of _ "fold (\<lambda>m. retire_failed_provision (fr_now fr) m e) ?lost db1"])
           (simp add: fill_pool_def res proc Inl Let_def split: option.split)
    next
      case (Inr proven)
      show ?thesis using p False
        by (intro exI [of _ db1]) (simp add: fill_pool_def res proc Inr Let_def split: option.split)
    qed
    then show ?thesis by blast
  qed
qed

lemma start_fills_fields [simp]:
  "ct_service (snd (start_fills at pools ct)) = ct_service ct" "ct_backoff (snd (start_fills at pools ct)) = ct_backoff ct"
  by (induction at pools ct rule: start_fills.induct) (auto split: prod.split)

lemma update_admission_serves:
  assumes "update_admission F te at pools s = Some s'" "total_ceilings (pool_observations pools (sv_db s)) < U32_MAX"
  shows "serves F s s'"
proof -
  have "reg_step F (sv_registry s) r"
    if "(if te_sample te then observe_pools F (pool_observations pools (sv_db s)) (te_gpu te) (te_host_cpu te) at (sv_registry s)
        else ensure_pools F (pool_observations pools (sv_db s)) at (sv_registry s)) = Some r" for r
    using that assms(2) by (auto simp: observe_pools_def ensure_pools_def intro: ticked split: if_splits)
  then show ?thesis using assms(1) by (auto simp: update_admission_def intro: serves_admission)
qed

definition reconciled_db :: "surroundings \<Rightarrow> nat \<Rightarrow> 'f controller \<Rightarrow> pool_db" where
  "reconciled_db su now ct = housekeeping su now (ct_db ct)"

lemma reconcile_once_serves:
  assumes "reconcile_once F su te now at at' ct = Some (started, ct')" "surroundings_ok su"
    "total_ceilings (pool_observations (list_fork_pools (reconciled_db su now ct)) (reconciled_db su now ct)) < U32_MAX"
  shows "serves F (ct_service ct) (ct_service ct')"
proof -
  let ?db = "reconciled_db su now ct"
  have service: "ct_service (drop_orphan_checkpoints c) = ct_service c" for c :: "'a controller"
    by (simp add: drop_orphan_checkpoints_def split: prod.split)
  obtain s where s: "update_admission F te at (list_fork_pools ?db) ((ct_service ct)\<lparr>sv_db := ?db\<rparr>) = Some s" "ct_service ct' = s"
    using assms(1) by (auto simp: reconcile_once_def reconciled_db_def Let_def service split: option.splits dest!: arg_cong [of _ _ "\<lambda>x. ct_service (snd x)"])
  have "serves F (ct_service ct) ((ct_service ct)\<lparr>sv_db := ?db\<rparr>)"
    using housekeeping_steps [OF assms(2), of "sv_db (ct_service ct)" now] by (intro serves_transactions) (simp add: reconciled_db_def ct_db_def)
  also have "serves F \<dots> s" using update_admission_serves [OF s(1)] assms(3) by simp
  finally show ?thesis using s(2) by simp
qed

section \<open>Runs of the service\<close>

definition on_service :: "('f service \<Rightarrow> 'f service) \<Rightarrow> 'f controller \<Rightarrow> 'f controller" where
  "on_service f ct = ct\<lparr>ct_service := f (ct_service ct)\<rparr>"

text \<open>One request, pass, fill, or change made by the rest of the program.\<close>

inductive handled :: "'f float_ops \<Rightarrow> 'f controller \<Rightarrow> 'f controller \<Rightarrow> bool" for F where
  created: "handled F ct (on_service (\<lambda>s. snd (create_pool golden now req s)) ct)"
| resized: "handled F ct (on_service (\<lambda>s. snd (resize_pool name desired now s)) ct)"
| deleted: "handled F ct (on_service (\<lambda>s. snd (delete_pool name force now s)) ct)"
| acquired: "run_ok F run \<Longrightarrow> handled F ct (on_service (\<lambda>s. snd (acquire_lease_inner cd run pool req s)) ct)"
| renewed: "handled F ct (on_service (\<lambda>s. snd (heartbeat_lease alive pool i now failed_at s)) ct)"
| completed: "handled F ct (on_service (\<lambda>s. snd (complete_lease pool i now s)) ct)"
| recovered: "surroundings_ok su \<Longrightarrow> handled F ct (set_db (recover_interrupted_provisioning su (ct_db ct)) ct)"
| reconciled:
    "reconcile_once F su te now at at' ct = Some (started, ct') \<Longrightarrow> surroundings_ok su \<Longrightarrow>
     total_ceilings (pool_observations (list_fork_pools (reconciled_db su now ct)) (reconciled_db su now ct)) < U32_MAX \<Longrightarrow>
     handled F ct ct'"
| filled: "fill_ok pool (ct_db ct) fr \<Longrightarrow> handled F ct (snd (fill_pool fr pool ct))"
| fill_ended: "handled F ct (handle_fill_task at result ct)"
| checkpointed: "handled F ct (ct\<lparr>ct_snapshots := snapshots\<rparr>)"
| machines: "handled F ct (set_db ((ct_db ct)\<lparr>db_vms := vms\<rparr>) ct)"

lemma handled_serves: "handled F ct ct' \<Longrightarrow> serves F (ct_service ct) (ct_service ct')"
proof (induction rule: handled.induct)
  case (recovered su ct)
  then show ?case using recover_steps [of su "sv_db (ct_service ct)"] by (simp add: serves_transactions ct_db_def)
next
  case (reconciled su te now at at' ct started ct')
  then show ?case by (rule reconcile_once_serves)
next
  case (filled pool ct fr)
  then show ?case using fill_pool_steps [OF filled] serves_transactions [of "ct_service ct"] by (auto simp: ct_db_def)
next
  case (fill_ended ct at result)
  have "ct_service (handle_fill_task at result ct) = ct_service ct"
    by (simp add: handle_fill_task_def Let_def split: option.split fill_result.split)
  then show ?case by simp
next
  case (machines ct vms)
  show ?case by (auto simp: ct_db_def intro!: serves_transaction machines_changed)
qed (simp_all add: on_service_def create_pool_serves resize_pool_serves delete_pool_serves acquire_lease_inner_serves
    heartbeat_lease_serves complete_lease_serves)

interpretation controller_runs: invariant_system "handled F" "\<lambda>ct. service_initial (ct_service ct)" "\<lambda>ct. service_ok (ct_service ct)" for F
  by unfold_locales (auto intro: service_runs.initial_inv service_runs.steps_inv dest: handled_serves)

end
