(* ===== verification/Service_Safety.thy ===== *)
theory Service_Safety
  imports Pool_Service
begin

text \<open>
  What the pool service promises across its components: the limits of the admission controller bind the
  claims of the handlers, the controller starts the fills that are needed and a fill reserves what is
  missing, and two places where parts of the service disagree.
\<close>

section \<open>A sample run\<close>

text \<open>A pool of two workers is created, a pass starts its fill, the workers boot, one is leased.\<close>

definition run_request :: pool_request where
  "run_request = \<lparr>pr_name = ''p'', pr_golden = ''g'', pr_desired_ready = 2, pr_max_active = None, pr_auto_admission = None,
     pr_share_weights = True, pr_freeze_source = False, pr_ready_timeout = None, pr_lease_ttl = None\<rparr>"

definition run_golden :: golden_view where
  "run_golden = \<lparr>gv_mediated = False, gv_golden = None, gv_alive = True, gv_cuda = True, gv_forkable = True, gv_env = []\<rparr>"

definition run0 :: "nat controller" where
  "run0 = \<lparr>ct_service = \<lparr>sv_db = no_rows, sv_registry = registry_default, sv_held = [], sv_woken = False\<rparr>,
     ct_snapshots = [], ct_retained = [], ct_filling = [], ct_backoff = []\<rparr>"

definition run1 :: "nat controller" where
  "run1 = on_service (\<lambda>s. snd (create_pool (Some run_golden) 1 run_request s)) run0"

definition run_around :: surroundings where
  "run_around = \<lparr>su_now = (\<lambda>_. 2), su_alive = (\<lambda>_. True), su_paused = (\<lambda>_. False), su_delete = (\<lambda>_. Deleted), su_others = (\<lambda>_ db. db)\<rparr>"

definition run_telemetry :: "nat telemetry" where
  "run_telemetry = \<lparr>te_sample = False, te_gpu = None, te_host_cpu = None\<rparr>"

definition run_pass :: "fork_pool list \<times> nat controller" where
  "run_pass = the (reconcile_once nat_ops run_around run_telemetry 2 (secs 1) (secs 1) run1)"

definition run_vm :: vm_record where
  "run_vm = \<lparr>forkpoint_held = True, vm_golden = Some ''g'', vm_mounts = [], fork_env = [], vm_env = []\<rparr>"

definition run_vms :: "(string \<times> vm_record) list" where
  "run_vms = [(''pool-p-00000001'', run_vm), (''pool-p-00000002'', run_vm)]"

definition run_boot :: "string \<Rightarrow> boot" where
  "run_boot m = \<lparr>bt_machine = m, bt_result = Inr True, bt_now = 3, bt_others = (\<lambda>db. db\<lparr>db_vms := run_vms\<rparr>)\<rparr>"

definition run_fill :: fill_run where
  "run_fill = \<lparr>fr_suffixes = [(''00000001'', 2), (''00000002'', 2), (''00000003'', 2)],
     fr_boots = [run_boot ''pool-p-00000001'', run_boot ''pool-p-00000002''], fr_early = None, fr_outcome = Inr None, fr_now = 3\<rparr>"

definition run3 :: "nat controller" where
  "run3 = snd (fill_pool run_fill (hd (fst run_pass)) (snd run_pass))"

definition run_attempt1 :: "nat attempt" where
  "run_attempt1 = \<lparr>at_instant = secs 3, at_now = 4, at_before = (\<lambda>s. s), at_between = (\<lambda>s. s)\<rparr>"

definition run_claim :: slot_claim where
  "run_claim = sample_claim\<lparr>claim_limit := None\<rparr>"

definition run_pool :: fork_pool where
  "run_pool = hd (fst run_pass)"

definition run_claimed :: "(db_error + claim_result) \<times> admission_limit option \<times> nat service" where
  "run_claimed = claim_wait run_pool run_claim run_attempt1 [] (ct_service run3)"

definition run_lease :: "nat lease_run" where
  "run_lease = \<lparr>run_lease_id = ''l'', run_attempt = run_attempt1, run_attempts = [], run_instant = secs 3,
     run_guest = \<lparr>g_connect = (\<lambda>_. None), g_write = (\<lambda>_ _ _ _. None), g_activate = (\<lambda>_ _. None), g_worker_ready = (\<lambda>_ _ _. None)\<rparr>,
     run_now = 5, run_others = (\<lambda>s. s), run_polls = []\<rparr>"

definition run_codec :: codec where
  "run_codec = \<lparr>cd_decode = (\<lambda>_. None), cd_sha256_hex = (\<lambda>_. ''0''), cd_show = (\<lambda>_. ''0'')\<rparr>"

definition run_lease_request :: lease_request where
  "run_lease_request = \<lparr>lr_key = ''k'', lr_env = [''A=1''], lr_files = [], lr_ttl = None, lr_await_ready = False,
     lr_ready_timeout = None, lr_wait = None\<rparr>"

definition run4 :: "nat controller" where
  "run4 = on_service (\<lambda>s. snd (acquire_lease_inner run_codec run_lease ''p'' run_lease_request s)) run3"

definition paused_around :: surroundings where
  "paused_around = run_around\<lparr>su_alive := (\<lambda>_. False), su_paused := (\<lambda>_. True)\<rparr>"

lemma run_attempt_ok: "attempt_ok nat_ops run_attempt1"
  by (simp add: attempt_ok_def run_attempt1_def)

lemma run_around_ok: "surroundings_ok run_around"
  by (simp add: surroundings_ok_def run_around_def)

lemma run_initial: "service_initial (ct_service run0)"
  by (simp add: service_initial_def run0_def sample_ok)

lemma run_ceilings:
  "total_ceilings (pool_observations (list_fork_pools (reconciled_db run_around 2 run1)) (reconciled_db run_around 2 run1)) < U32_MAX"
  by code_simp

lemma run_passed: "reconcile_once nat_ops run_around run_telemetry 2 (secs 1) (secs 1) run1 = Some run_pass"
proof -
  have "reconcile_once nat_ops run_around run_telemetry 2 (secs 1) (secs 1) run1 \<noteq> None" by code_simp
  then obtain x where "reconcile_once nat_ops run_around run_telemetry 2 (secs 1) (secs 1) run1 = Some x" by blast
  then show ?thesis by (simp add: run_pass_def)
qed

lemma run3_reached: "(handled nat_ops)\<^sup>*\<^sup>* run0 run3"
proof -
  have "handled nat_ops run0 run1" unfolding run1_def by (rule handled.created)
  moreover have "handled nat_ops run1 (snd run_pass)"
    using handled.reconciled [OF _ run_around_ok run_ceilings] run_passed by (metis prod.collapse)
  moreover have "pool_step\<^sup>*\<^sup>* db (db\<lparr>db_vms := run_vms\<rparr>)" for db by (intro r_into_rtranclp machines_changed)
  moreover have "db_leases (ct_db (snd run_pass)) = []" by code_simp
  ultimately have "fill_ok (hd (fst run_pass)) (ct_db (snd run_pass)) run_fill"
    by (simp add: fill_ok_def run_fill_def run_boot_def)
  then have "handled nat_ops (snd run_pass) run3" unfolding run3_def by (rule handled.filled)
  with \<open>handled nat_ops run0 run1\<close> \<open>handled nat_ops run1 (snd run_pass)\<close> show ?thesis
    by (meson rtranclp.rtrancl_into_rtrancl rtranclp.rtrancl_refl)
qed

lemma run4_reached: "(handled nat_ops)\<^sup>*\<^sup>* run0 run4"
proof -
  have "run_ok nat_ops run_lease" using run_attempt_ok by (simp add: run_ok_def run_lease_def)
  then have "handled nat_ops run3 run4" unfolding run4_def by (rule handled.acquired)
  with run3_reached show ?thesis by (rule rtranclp.rtrancl_into_rtrancl)
qed

lemma run_service_ok: "service_ok (ct_service run1)" "service_ok (ct_service run3)" "service_ok (ct_service run4)"
proof -
  have "handled nat_ops run0 run1" unfolding run1_def by (rule handled.created)
  then show "service_ok (ct_service run1)" using controller_runs.reachable_inv [OF run_initial] by blast
  show "service_ok (ct_service run3)" "service_ok (ct_service run4)"
    using controller_runs.reachable_inv [OF run_initial] run3_reached run4_reached by blast+
qed

section \<open>Every reachable state\<close>

text \<open>C5: The service keeps its promises in every state it reaches, from an empty database and through any
  sequence of requests, passes, fills and recoveries, with any other requests running while one of them
  waits: no worker was ever leased twice, primary and retry keys are unique, no pool has more clean
  workers than its target nor more live leases than its configured limit, and every device's admission
  limit lies between one and its ceiling.\<close>

theorem service_keeps_promises:
  assumes "service_initial (ct_service ct0)" "(handled F)\<^sup>*\<^sup>* ct0 ct"
  shows "distinct (map lease_machine (db_leases (ct_db ct))) \<and> keys_ok (ct_db ct) \<and> capacity_ok (ct_db ct) \<and>
    (\<forall>(d, st)\<in>set (reg_devices (sv_registry (ct_service ct))).
       1 \<le> effective_limit (dev_admission st) \<and> effective_limit (dev_admission st) \<le> ceiling (dev_admission st))"
  using controller_runs.reachable_inv [OF assms]
  by (auto simp: service_ok_def pool_ok_def once_ok_def registry_ok_def adm_ok_def ct_db_def)

theorem service_keeps_promises_witness:
  "map lease_machine (db_leases (ct_db run4)) = [''pool-p-00000001''] \<and>
   map lease_status (db_leases (ct_db run4)) = [LeaseActive] \<and> capacity_ok (ct_db run4)"
proof -
  have "map lease_machine (db_leases (ct_db run4)) = [''pool-p-00000001'']" by code_simp
  moreover have "map lease_status (db_leases (ct_db run4)) = [LeaseActive]" by code_simp
  ultimately show ?thesis using service_keeps_promises [OF run_initial run4_reached] by simp
qed

section \<open>Limits and claims\<close>

lemma serves_registry: "serves F s s' \<Longrightarrow> (reg_step F)\<^sup>*\<^sup>* (sv_registry s) (sv_registry s')"
proof (induction rule: rtranclp_induct)
  case (step y z)
  from step.hyps(2) show ?case
    by cases (use step.IH in \<open>auto intro: rtranclp.rtrancl_into_rtrancl\<close>)
qed simp

lemma claim_wait_last:
  "list_all (attempt_ok F) (a # bs) \<Longrightarrow> claim_wait pool c a bs s = outcome \<Longrightarrow>
   \<exists>a' s0. attempt_ok F a' \<and> serves F s s0 \<and> claim_attempt pool c a' s0 = outcome"
proof (induction pool c a bs s rule: claim_wait.induct)
  case (1 pool c a s)
  then show ?case by auto
next
  case (2 pool c a b bs s)
  obtain r l t where attempt: "claim_attempt pool c a s = (r, l, t)" by (metis prod.exhaust)
  show ?case
  proof (cases "r = Inr NoReadySlot")
    case True
    then have "claim_wait pool c b bs (notify_pool_reconcile t) = outcome" using 2(3) attempt by simp
    with 2(1) [OF attempt [symmetric] True refl refl] 2(2)
    obtain a' s0 where last: "attempt_ok F a'" "serves F (notify_pool_reconcile t) s0" "claim_attempt pool c a' s0 = outcome"
      by auto
    have "serves F s t" using claim_attempt_serves [OF _ attempt] 2(2) by simp
    then have "serves F s (notify_pool_reconcile t)" using serves_woken by (rule rtranclp_trans)
    with last show ?thesis by (metis rtranclp_trans)
  next
    case False
    then have "outcome = (r, l, t)" using 2(3) attempt by (auto split: sum.splits claim_result.splits)
    with attempt 2(2) show ?thesis by auto
  qed
qed

lemma registry_limit_bounds:
  assumes "registry_ok r" "registry_limit now pool r = (Some l, r')" "pool_ceiling pool \<le> U32_MAX"
  shows "limit_pool l \<le> limit_device l" "limit_device l \<le> U32_MAX"
    "admission_device_ordinal pool = Some d \<Longrightarrow> map_of (reg_devices r) d = Some st \<Longrightarrow>
       limit_device l = effective_limit (dev_admission st) \<and> limit_device l \<le> ceiling (dev_admission st)"
proof -
  have device: "limit_device l = effective_limit (dev_admission st) \<and> limit_pool l \<le> limit_device l \<and>
      limit_device l \<le> ceiling (dev_admission st) \<and> limit_device l \<le> U32_MAX"
    if "admission_device_ordinal pool = Some d" "map_of (reg_devices r) d = Some st" for d st
    using registry_limit_device [OF assms(2) that] registry_device [OF assms(1) that(2)] by (auto simp: adm_ok_def)
  then show "limit_device l = effective_limit (dev_admission st) \<and> limit_device l \<le> ceiling (dev_admission st)"
    if "admission_device_ordinal pool = Some d" "map_of (reg_devices r) d = Some st" using that by blast
  show "limit_pool l \<le> limit_device l" "limit_device l \<le> U32_MAX"
  proof (atomize (full), cases "Option.bind (admission_device_ordinal pool) (map_of (reg_devices r))")
    case None
    from registry_limit_static [OF assms(2) None] assms(3) show "limit_pool l \<le> limit_device l \<and> limit_device l \<le> U32_MAX" by simp
  next
    case (Some st)
    then show "limit_pool l \<le> limit_device l \<and> limit_device l \<le> U32_MAX" using device by (auto simp: bind_eq_Some_conv)
  qed
qed

text \<open>C6: A worker handed out through the claim loop stays within the limits of the admission controller. For
  a pool with automatic admission, however many attempts were made and whatever ran between them, the
  limit of the successful attempt was read from a registry the service went through; after the claim the
  pool has no more live leases than its share, the share is at most the device's limit, all pools on its
  device together have at most that many, and for a device the controller knows that limit is its
  effective limit, never above its ceiling.\<close>

theorem claims_within_controller_limit:
  assumes "service_ok s" "list_all (attempt_ok F) (a # bs)" "auto_admission pool" "pool_ceiling pool \<le> U32_MAX"
    "claim_wait pool c a bs s = (Inr (Claimed lease), limit, s')"
  shows "\<exists>r now l. (reg_step F)\<^sup>*\<^sup>* (sv_registry s) r \<and> fst (registry_limit now pool r) = Some l \<and> limit = Some l \<and>
    active_leases (sv_db s') (claim_pool c) \<le> limit_pool l \<and> limit_pool l \<le> limit_device l \<and>
    (\<forall>pool' d. get_fork_pool (sv_db s') (claim_pool c) = Some pool' \<longrightarrow> admission_device_ordinal pool' = Some d \<longrightarrow>
       device_leases (sv_db s') d \<le> limit_device l) \<and>
    (\<forall>d st. admission_device_ordinal pool = Some d \<longrightarrow> map_of (reg_devices r) d = Some st \<longrightarrow>
       limit_device l = effective_limit (dev_admission st) \<and> limit_device l \<le> ceiling (dev_admission st))"
proof -
  from claim_wait_last [OF assms(2,5)] obtain a' s0 where a': "attempt_ok F a'" "serves F s s0"
    "claim_attempt pool c a' s0 = (Inr (Claimed lease), limit, s')" by blast
  from a'(1,3) obtain s1 r s2 where parts: "serves F s0 s1" "registry_limit (at_instant a') pool (sv_registry s1) = (limit, r)"
    "serves F (s1\<lparr>sv_registry := r\<rparr>) s2"
    "claim_fork_pool_slot (c\<lparr>claim_limit := limit, claim_now := at_now a'\<rparr>) (sv_db s2) = (Inr (Claimed lease), sv_db s')"
    by (rule claim_attempt_parts)
  have ok: "service_ok s1" using service_runs.steps_inv [OF rtranclp_trans [OF a'(2) parts(1)] assms(1)] .
  have "service_ok (s1\<lparr>sv_registry := r\<rparr>)" using ok registry_limit_ok parts(2) by (auto simp: service_ok_def)
  then have "service_ok s2" by (rule service_runs.steps_inv [OF parts(3)])
  obtain l where l: "limit = Some l"
    using parts(2) assms(3) by (auto simp: registry_limit_def Let_def split: option.splits)
  note limits = registry_limit_bounds [OF _ parts(2) [unfolded l] assms(4)]
  have reg: "registry_ok (sv_registry s1)" using ok by (simp add: service_ok_def)
  have "pool_ok (sv_db s2)" using \<open>service_ok s2\<close> by (simp add: service_ok_def)
  from claim_within_limits [OF this parts(4), of l] limits(2) [OF reg] l
  have "active_leases (sv_db s') (claim_pool c) \<le> limit_pool l \<and>
    (\<forall>pool' d. get_fork_pool (sv_db s') (claim_pool c) = Some pool' \<longrightarrow> admission_device_ordinal pool' = Some d \<longrightarrow>
       device_leases (sv_db s') d \<le> limit_device l)" by simp
  moreover have "(reg_step F)\<^sup>*\<^sup>* (sv_registry s) (sv_registry s1)"
    using a'(2) parts(1) by (intro serves_registry) simp
  moreover have "fst (registry_limit (at_instant a') pool (sv_registry s1)) = Some l" using parts(2) l by simp
  ultimately show ?thesis using l limits [OF reg] by blast
qed

theorem claims_within_controller_limit_witness:
  "active_leases (sv_db (snd (snd run_claimed))) ''p'' = 1 \<and>
   (\<exists>l. fst (snd run_claimed) = Some l \<and> 1 \<le> limit_pool l \<and> limit_pool l \<le> limit_device l \<and>
      device_leases (sv_db (snd (snd run_claimed))) 0 \<le> limit_device l)"
proof -
  have "case fst run_claimed of Inr (Claimed _) \<Rightarrow> True | _ \<Rightarrow> False" by code_simp
  then obtain lease where "fst run_claimed = Inr (Claimed lease)" by (auto split: sum.splits claim_result.splits)
  then have lease: "run_claimed = (Inr (Claimed lease), fst (snd run_claimed), snd (snd run_claimed))"
    by (simp add: prod_eq_iff)
  have pool: "auto_admission run_pool" "pool_ceiling run_pool \<le> U32_MAX" by code_simp+
  have "get_fork_pool (sv_db (snd (snd run_claimed))) ''p'' \<noteq> None \<and>
    admission_device_ordinal (the (get_fork_pool (sv_db (snd (snd run_claimed))) ''p'')) = Some 0" by code_simp
  then obtain p where p: "get_fork_pool (sv_db (snd (snd run_claimed))) ''p'' = Some p" "admission_device_ordinal p = Some 0" by auto
  have "claim_pool run_claim = ''p''" by (simp add: run_claim_def sample_claim_def)
  moreover have "active_leases (sv_db (snd (snd run_claimed))) ''p'' = 1" by code_simp
  moreover have "list_all (attempt_ok nat_ops) [run_attempt1]" using run_attempt_ok by simp
  ultimately show ?thesis
    using claims_within_controller_limit [OF run_service_ok(2) _ pool lease [unfolded run_claimed_def], folded run_claimed_def] p
    by fastforce
qed

section \<open>Filling\<close>

lemma reserve_slot_result:
  assumes "get_fork_pool_slot db m = None"
  shows "reserve_fork_pool_slot n m now db =
    (if 0 < fork_pool_ready_deficit db n
     then (True, db\<lparr>db_slots := db_slots db @ [\<lparr>slot_pool = n, slot_machine = m, slot_status = Provisioning, slot_lease_id = None,
        slot_created_at = now, slot_updated_at = now, slot_error = None\<rparr>]\<rparr>)
     else (False, db))"
  using assms by (auto simp: reserve_fork_pool_slot_def fork_pool_ready_deficit_def Let_def split: option.split)

lemma deficit_append:
  assumes "0 < fork_pool_ready_deficit db n" "slot_pool slot = n" "slot_status slot = Provisioning"
  shows "fork_pool_ready_deficit (db\<lparr>db_slots := db_slots db @ [slot]\<rparr>) n = fork_pool_ready_deficit db n - 1"
  using assms by (auto simp: fork_pool_ready_deficit_def get_fork_pool_def slots_in_def available_slots_def available_slot_def
      split: option.splits if_splits)

text \<open>A fill reserves exactly what is missing: with fresh names for its workers, the number of workers it
  reserves is the deficit of the pool, or the number of names if that is smaller, and the deficit that
  remains is reduced by as many.\<close>

theorem fill_reserves_deficit:
  assumes "distinct (map (worker_name n \<circ> fst) suffixes)"
    "\<forall>(suffix, now)\<in>set suffixes. worker_name n suffix \<notin> slot_machine ` set (db_slots db)"
  shows "length (fst (reserve_workers n suffixes db)) = min (length suffixes) (fork_pool_ready_deficit db n) \<and>
    fork_pool_ready_deficit (snd (reserve_workers n suffixes db)) n = fork_pool_ready_deficit db n - length suffixes"
  using assms
proof (induction n suffixes db rule: reserve_workers.induct)
  case (2 n suffix now suffixes db)
  have "get_fork_pool_slot db (worker_name n suffix) = None"
    using 2(3) unfolding get_fork_pool_slot_def find_key_None by simp
  note reserve = reserve_slot_result [OF this, of n now]
  show ?case
  proof (cases "0 < fork_pool_ready_deficit db n")
    case True
    define db' where "db' = db\<lparr>db_slots := db_slots db @ [\<lparr>slot_pool = n, slot_machine = worker_name n suffix,
      slot_status = Provisioning, slot_lease_id = None, slot_created_at = now, slot_updated_at = now, slot_error = None\<rparr>]\<rparr>"
    have res: "reserve_fork_pool_slot n (worker_name n suffix) now db = (True, db')" using reserve True by (simp add: db'_def)
    have "fork_pool_ready_deficit db' n = fork_pool_ready_deficit db n - 1" unfolding db'_def by (rule deficit_append [OF True]) simp_all
    moreover have "\<forall>(suffix', now)\<in>set suffixes. worker_name n suffix' \<notin> slot_machine ` set (db_slots db')"
      using 2(2,3) by (force simp: db'_def)
    ultimately show ?thesis using 2(1) [OF res [symmetric]] 2(2) True res by (auto split: prod.split)
  qed (use reserve in simp)
qed simp

theorem fill_reserves_deficit_witness:
  "length (fst (reserve_workers ''p'' (fr_suffixes run_fill) (ct_db run1))) = 2 \<and>
   fork_pool_ready_deficit (snd (reserve_workers ''p'' (fr_suffixes run_fill) (ct_db run1))) ''p'' = 0"
proof -
  have "distinct (map (worker_name ''p'' \<circ> fst) (fr_suffixes run_fill))" by code_simp
  moreover have "db_slots (ct_db run1) = []" by code_simp
  moreover have "fork_pool_ready_deficit (ct_db run1) ''p'' = 2" "length (fr_suffixes run_fill) = 3" by code_simp+
  ultimately show ?thesis using fill_reserves_deficit [of "''p''" "fr_suffixes run_fill" "ct_db run1"] by simp
qed

lemma start_fills_grows: "set (ct_filling ct) \<subseteq> set (ct_filling (snd (start_fills at pools ct)))"
  by (induction at pools ct rule: start_fills.induct) (auto split: prod.split)

lemma filling_fields [simp]:
  "ct_db (ct\<lparr>ct_filling := f\<rparr>) = ct_db ct" "backing_off at (ct\<lparr>ct_filling := f\<rparr>) n = backing_off at ct n"
  by (simp_all add: ct_db_def backing_off_def)

lemma start_fills_all:
  "p \<in> set pools \<Longrightarrow> 0 < fork_pool_ready_deficit (ct_db ct) (pool_name p) \<Longrightarrow>
   pool_name p \<in> set (ct_filling (snd (start_fills at pools ct))) \<or> backing_off at ct (pool_name p)"
proof (induction at pools ct rule: start_fills.induct)
  case (2 at pool pools ct)
  then show ?case using start_fills_grows [of ct at pools] start_fills_grows [of "ct\<lparr>ct_filling := pool_name pool # ct_filling ct\<rparr>" at pools]
    by (auto split: prod.split)
qed simp

lemma start_fills_fresh:
  "pool_name ` set (fst (start_fills at pools ct)) \<inter> set (ct_filling ct) = {} \<and>
   distinct (map pool_name (fst (start_fills at pools ct)))"
proof (induction at pools ct rule: start_fills.induct)
  case (2 at pool pools ct)
  then show ?case by (cases "start_fills at pools (ct\<lparr>ct_filling := pool_name pool # ct_filling ct\<rparr>)") auto
qed simp



section \<open>Worker names\<close>

lemma check_name_append:
  "check_name_chars prev (s @ t) =
     (case check_name_chars prev s of
        Some e \<Rightarrow> Some e
      | None \<Rightarrow> check_name_chars (if s = [] then prev else last s = CHR ''-'') t)"
  by (induction prev s rule: check_name_chars.induct) (auto split: option.split)

lemma check_name_plain:
  "list_all is_ascii_alphanumeric s \<Longrightarrow> check_name_chars prev s = None"
proof (induction prev s rule: check_name_chars.induct)
  case (2 prev c s)
  moreover have "\<not> is_ascii_alphanumeric (CHR ''-'')" by code_simp
  ultimately show ?case by auto
qed simp

definition valid_suffix :: "string \<Rightarrow> bool" where
  "valid_suffix s \<longleftrightarrow> length s = 8 \<and> list_all is_ascii_alphanumeric s"

text \<open>C34: The name the controller gives a worker of a validly named pool is a valid machine name exactly if
  the part of the pool's name that fits does not end with a hyphen; otherwise, which happens only for a
  name of more than 114 characters, it has two hyphens in a row and is refused, so no worker of that
  pool can ever be created.\<close>

theorem worker_name_valid:
  assumes "validate_vm_name p = None" "valid_suffix s"
  shows "validate_vm_name (worker_name p s) = (if last (take 114 p) = CHR ''-'' then Some NameHyphens else None) \<and>
    (last (take 114 p) = CHR ''-'' \<longrightarrow> 114 < length p)"
proof -
  have s: "length s = 8" "list_all is_ascii_alphanumeric s" "s \<noteq> []" using assms(2) by (auto simp: valid_suffix_def)
  let ?q = "take 114 p"
  obtain c cs where p: "p = c # cs" using assms(1) by (cases p) (simp_all add: validate_vm_name_def)
  have c: "is_ascii_alphanumeric c" "check_name_chars False p = None" "\<not> ends_with_char p (CHR ''-'')"
    using assms(1) by (auto simp: validate_vm_name_def p split: if_splits)
  have hyphen: "\<not> is_ascii_alphanumeric (CHR ''-'')" by code_simp
  have "check_name_chars False (?q @ drop 114 p) = None" using c(2) by simp
  then have q: "check_name_chars False ?q = None" unfolding check_name_append by (simp split: option.splits)
  have ne: "?q \<noteq> []" using p by simp
  have "check_name_chars True ?q = check_name_chars False ?q" using c(1) hyphen by (auto simp: p take_Cons')
  moreover have "check_name_chars False ''pool-'' = None" by code_simp
  moreover have "check_name_chars b (''-'' @ s) = (if b then Some NameHyphens else None)" for b
    using check_name_plain [OF s(2)] by simp
  ultimately have chars: "check_name_chars False (''pool-'' @ ?q @ ''-'' @ s) = (if last ?q = CHR ''-'' then Some NameHyphens else None)"
    using q ne unfolding check_name_append [of False "''pool-''"] check_name_append [of _ ?q] by simp
  have name: "worker_name p s = ''pool-'' @ ?q @ ''-'' @ s"
    by (simp add: worker_name_def Let_def MAX_VM_NAME_LENGTH_def s(1) min_def)
  have "last s \<noteq> CHR ''-''" using s(2,3) hyphen by (metis last_in_set list_all_iff)
  then have "\<not> ends_with_char (worker_name p s) (CHR ''-'')" using s(3) by (simp add: name ends_with_char_def)
  moreover have "length (worker_name p s) \<le> MAX_VM_NAME_LENGTH" by (simp add: name s(1) MAX_VM_NAME_LENGTH_def)
  moreover have "is_ascii_alphanumeric (CHR ''p'')" by code_simp
  ultimately have "validate_vm_name (worker_name p s) = check_name_chars False (worker_name p s)"
    by (simp add: validate_vm_name_def name)
  moreover have "114 < length p" if "last ?q = CHR ''-''"
  proof (rule ccontr)
    assume "\<not> 114 < length p"
    then have "?q = p" by simp
    with that c(3) ne show False by (simp add: ends_with_char_def)
  qed
  ultimately show ?thesis using chars by (simp add: name)
qed

theorem worker_name_valid_witness:
  "validate_vm_name (replicate 113 CHR ''a'' @ ''-b'') = None \<and>
   validate_vm_name (worker_name (replicate 113 CHR ''a'' @ ''-b'') ''0123abcd'') = Some NameHyphens \<and>
   validate_vm_name (worker_name ''p'' ''0123abcd'') = None"
proof -
  have "validate_vm_name (replicate 113 CHR ''a'' @ ''-b'') = None" "valid_suffix ''0123abcd''" "validate_vm_name ''p'' = None" by code_simp+
  moreover have "last (take 114 (replicate 113 CHR ''a'' @ ''-b'')) = CHR ''-''" "last (take 114 ''p'') \<noteq> CHR ''-''" by code_simp+
  ultimately show ?thesis using worker_name_valid [of "replicate 113 CHR ''a'' @ ''-b''" "''0123abcd''"]
      worker_name_valid [of "''p''" "''0123abcd''"] by simp
qed

section \<open>A paused worker\<close>

lemma get_fork_lease_iff:
  assumes "pool_ok db"
  shows "get_fork_lease db n i = Some l \<longleftrightarrow> l \<in> set (db_leases db) \<and> lease_pool l = n \<and> lease_id l = i"
proof
  assume "get_fork_lease db n i = Some l"
  then show "l \<in> set (db_leases db) \<and> lease_pool l = n \<and> lease_id l = i"
    by (auto simp: get_fork_lease_def find_Some_iff)
next
  assume l: "l \<in> set (db_leases db) \<and> lease_pool l = n \<and> lease_id l = i"
  then obtain k where k: "get_fork_lease db n i = Some k"
    unfolding get_fork_lease_def by (metis (mono_tags, lifting) find_None_iff not_None_eq)
  then have "k \<in> set (db_leases db)" "lease_id k = i" by (auto simp: get_fork_lease_def find_Some_iff)
  then have "k = l" using unique_row [OF pool_okD(3) [OF assms]] l by blast
  with k show "get_fork_lease db n i = Some l" by simp
qed

lemma fail_active_result:
  assumes "pool_ok db" "l \<in> set (db_leases db)" "lease_status l = LeaseActive" "get_fork_pool_slot db (lease_machine l) = Some slot"
    "snd (fail_active_fork_lease (lease_id l) now e db) = db'"
  shows "(\<exists>ended. get_fork_lease db' (lease_pool l) (lease_id l) = Some ended \<and> lease_status ended = Failed) \<and>
    (\<exists>retired. get_fork_pool_slot db' (lease_machine l) = Some retired \<and> slot_status retired = Retiring)"
proof -
  define ended where "ended = transitioned LeaseActive Failed now (Some e) l"
  define retired where "retired = slot\<lparr>slot_status := Retiring, slot_updated_at := now, slot_error := Some e\<rparr>"
  have "get_fork_lease_by_id db (lease_id l) = Some l" using get_lease_iff [OF assms(1)] assms(2) by blast
  moreover have "get_fork_pool_slot (put_lease ended db) (lease_machine l) = Some slot"
    using assms(4) by (simp add: get_fork_pool_slot_def)
  ultimately have db': "db' = put_slot retired (put_lease ended db)"
    using assms(3,5) by (simp add: fail_active_fork_lease_def transition_fork_lease_def Let_def ended_def retired_def)
  have ok: "pool_ok db'" using pool_step_ok [OF active_lease_failed assms(1), of "lease_id l" now e] assms(5) by simp
  have ended: "lease_pool ended = lease_pool l" "lease_id ended = lease_id l" "lease_status ended = Failed"
    by (simp_all add: ended_def transitioned_def Let_def)
  have "ended \<in> set (db_leases db')" using assms(2) ended(2) by (auto simp: db' put_rows)
  then have "get_fork_lease db' (lease_pool l) (lease_id l) = Some ended" using get_fork_lease_iff [OF ok] ended by blast
  moreover have slot: "slot \<in> set (db_slots db)" "slot_machine slot = lease_machine l" using get_slot_iff [OF assms(1)] assms(4) by blast+
  then have "retired \<in> set (db_slots db')" "slot_machine retired = lease_machine l" by (auto simp: db' put_rows retired_def)
  then have "get_fork_pool_slot db' (lease_machine l) = Some retired" using get_slot_iff [OF ok] by blast
  ultimately show ?thesis using ended(3) by (simp add: retired_def)
qed

text \<open>C25: A heartbeat ends the lease of a paused worker. When the worker of an active, unexpired lease is
  paused, so that its process does not run, the controller's own test counts it as live and a pass
  leaves its lease alone; but the heartbeat of the client is answered with a conflict, the lease is
  marked failed and the slot of the worker is set to retiring, so the next pass deletes it.\<close>

theorem heartbeat_ends_paused_lease:
  assumes "pool_ok (sv_db s)" "get_fork_lease (sv_db s) pool i = Some lease" "lease_status lease = LeaseActive"
    "now < lease_expires_at lease" "0 < lease_ttl lease" "now < U64_MAX"
    "map_of (db_vms (sv_db s)) (lease_machine lease) \<noteq> None" "get_fork_pool_slot (sv_db s) (lease_machine lease) = Some slot"
    "\<not> su_alive su (lease_machine lease)" "su_paused su (lease_machine lease)"
    "heartbeat_lease (su_alive su) pool i now failed_at s = (answer, s')"
  shows "retire_dead_lease su lease (sv_db s) = su_others su (lease_machine lease) (sv_db s) \<and>
    answer = Inl (Conflict (WorkerStopped i)) \<and>
    (\<exists>ended. get_fork_lease (sv_db s') pool i = Some ended \<and> lease_status ended = Failed) \<and>
    (\<exists>retired. get_fork_pool_slot (sv_db s') (lease_machine lease) = Some retired \<and> slot_status retired = Retiring)"
proof -
  define renewed where "renewed = lease\<lparr>lease_updated_at := now, lease_expires_at := u64_add now (lease_ttl lease)\<rparr>"
  define db where "db = put_lease renewed (sv_db s)"
  have lease: "lease \<in> set (db_leases (sv_db s))" "lease_pool lease = pool" "lease_id lease = i"
    using get_fork_lease_iff [OF assms(1)] assms(2) by blast+
  have hb: "heartbeat_fork_lease pool i now (sv_db s) = (Some renewed, db)"
    using assms(2-4) by (simp add: heartbeat_fork_lease_def renewed_def db_def Let_def)
  have renewed: "lease_status renewed = LeaseActive" "lease_id renewed = i" "lease_pool renewed = pool"
    "lease_machine renewed = lease_machine lease" "\<not> lease_expires_at renewed \<le> now"
    using lease assms(3,5,6) by (simp_all add: renewed_def u64_add_def)
  have ok: "pool_ok db" using heartbeat_ok [OF assms(1), of pool i now] hb by simp
  have row: "renewed \<in> set (db_leases db)" using lease by (auto simp: db_def put_rows renewed_def)
  have slot: "get_fork_pool_slot db (lease_machine renewed) = Some slot"
    using assms(8) renewed(4) by (simp add: get_fork_pool_slot_def db_def)
  have run: "answer = Inl (Conflict (WorkerStopped i))"
    "sv_db s' = snd (fail_active_fork_lease (lease_id renewed) failed_at ''leased worker process exited'' db)"
    using assms(9,11) renewed by (auto simp: heartbeat_lease_def hb notify_pool_reconcile_def)
  from fail_active_result [OF ok row renewed(1) slot run(2) [symmetric]] renewed(2-4) run(1) assms(7,10)
  show ?thesis by (simp add: retire_dead_lease_def leased_worker_is_live_def)
qed

theorem heartbeat_ends_paused_lease_witness:
  "retire_dead_leased_workers paused_around (ct_db run4) = ct_db run4 \<and>
   fst (heartbeat_lease (su_alive paused_around) ''p'' ''l'' 10 10 (ct_service run4)) = Inl (Conflict (WorkerStopped ''l''))"
proof -
  define lease where "lease = the (get_fork_lease (ct_db run4) ''p'' ''l'')"
  have some: "get_fork_lease (ct_db run4) ''p'' ''l'' \<noteq> None \<and> list_active_fork_leases (ct_db run4) = [the (get_fork_lease (ct_db run4) ''p'' ''l'')] \<and>
     lease_status (the (get_fork_lease (ct_db run4) ''p'' ''l'')) = LeaseActive \<and>
     10 < lease_expires_at (the (get_fork_lease (ct_db run4) ''p'' ''l'')) \<and> 0 < lease_ttl (the (get_fork_lease (ct_db run4) ''p'' ''l'')) \<and>
     map_of (db_vms (ct_db run4)) (lease_machine (the (get_fork_lease (ct_db run4) ''p'' ''l''))) \<noteq> None \<and>
     get_fork_pool_slot (ct_db run4) (lease_machine (the (get_fork_lease (ct_db run4) ''p'' ''l''))) \<noteq> None" by code_simp
  then have lease: "get_fork_lease (ct_db run4) ''p'' ''l'' = Some lease" "list_active_fork_leases (ct_db run4) = [lease]"
    "lease_status lease = LeaseActive" "10 < lease_expires_at lease" "0 < lease_ttl lease"
    "map_of (db_vms (ct_db run4)) (lease_machine lease) \<noteq> None"
    unfolding lease_def by auto
  from some obtain slot where slot: "get_fork_pool_slot (ct_db run4) (lease_machine lease) = Some slot" unfolding lease_def by blast
  have ok: "pool_ok (ct_db run4)" using run_service_ok(3) by (simp add: service_ok_def ct_db_def)
  obtain answer s' where hb: "heartbeat_lease (su_alive paused_around) ''p'' ''l'' 10 10 (ct_service run4) = (answer, s')" by fastforce
  have around: "\<not> su_alive paused_around m" "su_paused paused_around m" "su_others paused_around m db = db" for m db
    by (simp_all add: paused_around_def run_around_def)
  have "(10::nat) < U64_MAX" by code_simp
  from heartbeat_ends_paused_lease [OF ok [unfolded ct_db_def] lease(1) [unfolded ct_db_def] lease(3,4,5) this
      lease(6) [unfolded ct_db_def] slot [unfolded ct_db_def] around(1,2) hb]
  show ?thesis using lease(2) hb by (simp add: ct_db_def retire_dead_leased_workers_def around)
qed

end
