(* ===== verification/File_System.thy ===== *)
theory File_System
  imports Bytes "HOL-Library.Sublist"
begin

text \<open>
  A file system as the modelled sources see it through \<open>std::fs\<close> on Linux: a map from canonical paths,
  the lists of their components from the root, to inodes. Paths given to an operation are resolved the way the
  kernel does, following symbolic links, at most forty of them, and \<open>..\<close>. An operation that fails
  returns its error; the file system it leaves is part of its result.
\<close>

type_synonym path = "string list"

datatype node = FileNode bytes | DirNode | LinkNode string | CharDevice | OtherNode

text \<open>The mode holds the permission bits only; \<open>in_opaque\<close> is the attribute \<open>trusted.overlay.opaque\<close>.\<close>

record inode =
  in_node :: node
  in_mode :: u32
  in_opaque :: bool

type_synonym fs = "path \<Rightarrow> inode option"

datatype io_error =
    NotFoundError | NotADirectory | AlreadyExists | InvalidInput | InvalidData string | UnpackFailed string | ReadFailed string

definition is_dir :: "inode option \<Rightarrow> bool" where
  "is_dir i = (case i of Some i \<Rightarrow> in_node i = DirNode | None \<Rightarrow> False)"

definition is_symlink :: "inode option \<Rightarrow> bool" where
  "is_symlink i = (case i of Some i \<Rightarrow> (case in_node i of LinkNode _ \<Rightarrow> True | _ \<Rightarrow> False) | None \<Rightarrow> False)"

section \<open>Paths\<close>

text \<open>\<open>Path::components\<close>: empty components and a dot that is not the first component are dropped.\<close>

datatype component = Normal string | CurDir | ParentDir | RootDir

definition component_of :: "string \<Rightarrow> component" where
  "component_of c = (if c = ''..'' then ParentDir else Normal c)"

definition components :: "string \<Rightarrow> component list" where
  "components p =
     (let parts = split_char (CHR ''/'') p; kept = map component_of (filter (\<lambda>c. c \<noteq> [] \<and> c \<noteq> ''.'') parts)
      in if starts_with p ''/'' then RootDir # kept
         else if hd parts = ''.'' then CurDir # kept
         else kept)"

definition file_name :: "string \<Rightarrow> string option" where
  "file_name p = (case rev (components p) of Normal c # _ \<Rightarrow> Some c | _ \<Rightarrow> None)"

definition plain_component :: "string \<Rightarrow> bool" where
  "plain_component c \<longleftrightarrow> c \<noteq> [] \<and> c \<noteq> ''.'' \<and> c \<noteq> ''..''"

lemma components_plain: "Normal c \<in> set (components p) \<Longrightarrow> plain_component c"
  by (auto simp: components_def Let_def component_of_def plain_component_def split: if_splits)

lemma components_no_slash: "Normal c \<in> set (components p) \<Longrightarrow> CHR ''/'' \<notin> set c"
  using split_char_no_sep by (fastforce simp: components_def Let_def component_of_def split: if_splits)

lemma file_name_component: "file_name p = Some c \<Longrightarrow> \<exists>cs. components p = cs @ [Normal c]"
  by (auto simp: file_name_def rev_eq_Cons_iff split: list.splits component.splits) 

section \<open>Resolution\<close>

definition MAX_LINKS :: nat where "MAX_LINKS = 40"

text \<open>\<open>resolve fs n follow cur cs\<close> walks the components \<open>cs\<close> from the directory \<open>cur\<close>, following at most \<open>n\<close> links;
  a link in last position is followed only if \<open>follow\<close>. The last component need not exist.\<close>

function resolve :: "fs \<Rightarrow> nat \<Rightarrow> bool \<Rightarrow> path \<Rightarrow> string list \<Rightarrow> path option" where
  "resolve fs n follow cur [] = Some cur"
| "resolve fs n follow cur (c # cs) =
     (if c = [] \<or> c = ''.'' then resolve fs n follow cur cs
      else if c = ''..'' then resolve fs n follow (butlast cur) cs
      else
        case fs (cur @ [c]) of
          None \<Rightarrow> if cs = [] then Some (cur @ [c]) else None
        | Some i \<Rightarrow>
            (case in_node i of
               LinkNode target \<Rightarrow>
                 if cs = [] \<and> \<not> follow then Some (cur @ [c])
                 else if n = 0 then None
                 else resolve fs (n - 1) follow (if starts_with target ''/'' then [] else cur)
                        (split_char (CHR ''/'') target @ cs)
             | DirNode \<Rightarrow> resolve fs n follow (cur @ [c]) cs
             | _ \<Rightarrow> if cs = [] then Some (cur @ [c]) else None))"
  by pat_completeness auto
termination by (relation "measures [\<lambda>(_, n, _, _, _). n, \<lambda>(_, _, _, _, cs). length cs]") auto

declare resolve.simps(2) [simp del]

definition lstat :: "fs \<Rightarrow> path \<Rightarrow> inode option" where
  "lstat fs p = (case resolve fs MAX_LINKS False [] p of None \<Rightarrow> None | Some q \<Rightarrow> fs q)"

definition stat :: "fs \<Rightarrow> path \<Rightarrow> inode option" where
  "stat fs p = (case resolve fs MAX_LINKS True [] p of None \<Rightarrow> None | Some q \<Rightarrow> fs q)"

section \<open>Operations\<close>

definition remove_file :: "path \<Rightarrow> fs \<Rightarrow> fs" where
  "remove_file p fs =
     (case resolve fs MAX_LINKS False [] p of
        None \<Rightarrow> fs
      | Some q \<Rightarrow> if is_dir (fs q) then fs else fs(q := None))"

text \<open>Removing a tree named through a final \<open>..\<close> or \<open>.\<close> empties the directory; removing the directory
  itself then fails.\<close>

definition remove_dir_all :: "path \<Rightarrow> fs \<Rightarrow> fs" where
  "remove_dir_all p fs =
     (case resolve fs MAX_LINKS False [] p of
        None \<Rightarrow> fs
      | Some q \<Rightarrow>
          if is_symlink (fs q) then fs(q := None)
          else if is_dir (fs q) then
            (\<lambda>r. if strict_prefix q r \<or> (r = q \<and> p \<noteq> [] \<and> plain_component (last p)) then None else fs r)
          else fs)"

definition mknod_char :: "path \<Rightarrow> fs \<Rightarrow> io_error option \<times> fs" where
  "mknod_char p fs =
     (case resolve fs MAX_LINKS False [] p of
        None \<Rightarrow> (Some NotFoundError, fs)
      | Some q \<Rightarrow>
          if fs q \<noteq> None then (Some AlreadyExists, fs)
          else (None, fs(q \<mapsto> \<lparr>in_node = CharDevice, in_mode = 0, in_opaque = False\<rparr>)))"

definition set_opaque :: "path \<Rightarrow> fs \<Rightarrow> io_error option \<times> fs" where
  "set_opaque p fs =
     (case resolve fs MAX_LINKS True [] p of
        None \<Rightarrow> (Some NotFoundError, fs)
      | Some q \<Rightarrow>
          (case fs q of
             None \<Rightarrow> (Some NotFoundError, fs)
           | Some i \<Rightarrow> (None, fs(q \<mapsto> i\<lparr>in_opaque := True\<rparr>))))"

definition set_permissions :: "path \<Rightarrow> u32 \<Rightarrow> fs \<Rightarrow> io_error option \<times> fs" where
  "set_permissions p mode fs =
     (case resolve fs MAX_LINKS True [] p of
        None \<Rightarrow> (Some NotFoundError, fs)
      | Some q \<Rightarrow>
          (case fs q of
             None \<Rightarrow> (Some NotFoundError, fs)
           | Some i \<Rightarrow> (None, fs(q \<mapsto> i\<lparr>in_mode := mode\<rparr>))))"

text \<open>\<open>create_dir_all\<close>, with the mode the process's mask leaves a new directory; \<open>pre\<close> is the part of the path
  that exists.\<close>

fun create_dirs :: "u32 \<Rightarrow> path \<Rightarrow> string list \<Rightarrow> fs \<Rightarrow> io_error option \<times> fs" where
  "create_dirs mode pre [] fs = (None, fs)"
| "create_dirs mode pre (c # cs) fs =
     (case resolve fs MAX_LINKS False [] (pre @ [c]) of
        None \<Rightarrow> (Some NotADirectory, fs)
      | Some q \<Rightarrow>
          if fs q = None
          then create_dirs mode (pre @ [c]) cs (fs(q \<mapsto> \<lparr>in_node = DirNode, in_mode = mode, in_opaque = False\<rparr>))
          else if is_dir (stat fs (pre @ [c])) then create_dirs mode (pre @ [c]) cs fs
          else (Some AlreadyExists, fs))"

definition create_dir_all :: "u32 \<Rightarrow> path \<Rightarrow> fs \<Rightarrow> io_error option \<times> fs" where
  "create_dir_all mode p fs = create_dirs mode [] p fs"

section \<open>Real directories\<close>

text \<open>A path of plain names through directories only resolves to itself.\<close>

definition real_dirs :: "fs \<Rightarrow> path \<Rightarrow> bool" where
  "real_dirs fs p \<longleftrightarrow> list_all plain_component p \<and> list_all (\<lambda>q. q = [] \<or> is_dir (fs q)) (prefixes p)"

lemma real_dirs_snoc: "real_dirs fs (p @ [c]) \<longleftrightarrow> real_dirs fs p \<and> plain_component c \<and> is_dir (fs (p @ [c]))"
  by (auto simp: real_dirs_def prefixes_snoc)

lemma resolve_dirs:
  "real_dirs fs (cur @ p) \<Longrightarrow> resolve fs n follow cur (p @ q) = resolve fs n follow (cur @ p) q"
proof (induction p arbitrary: cur)
  case (Cons c p)
  have "real_dirs fs ((cur @ [c]) @ p)" using Cons.prems by simp
  moreover have "plain_component c" "is_dir (fs (cur @ [c]))"
    using Cons.prems by (auto simp: real_dirs_def list_all_iff)
  ultimately show ?case using Cons.IH [of "cur @ [c]"]
    by (auto simp: resolve.simps plain_component_def is_dir_def split: option.splits)
qed simp

lemma resolve_real: "real_dirs fs p \<Longrightarrow> resolve fs n follow [] p = Some p"
  using resolve_dirs [of fs "[]" p n follow "[]"] by simp

lemma resolve_child:
  assumes "real_dirs fs p" "plain_component c"
  shows "resolve fs n False [] (p @ [c]) = Some (p @ [c])"
  using resolve_dirs [of fs "[]" p n False "[c]"] assms
  by (auto simp: resolve.simps plain_component_def split: option.split node.split)

lemma real_dirs_cong: "(\<And>q. prefix q p \<Longrightarrow> is_dir (fs' q) = is_dir (fs q)) \<Longrightarrow> real_dirs fs' p = real_dirs fs p"
  by (auto simp: real_dirs_def list_all_iff in_set_prefixes)

lemma real_dirs_prefix: "real_dirs fs p \<Longrightarrow> prefix q p \<Longrightarrow> real_dirs fs q"
  unfolding real_dirs_def list_all_iff Ball_def in_set_prefixes by (meson prefix_order.trans set_mono_prefix subsetD)

text \<open>In a well-formed file system what exists lies in a directory.\<close>

definition wf_fs :: "fs \<Rightarrow> bool" where
  "wf_fs fs \<longleftrightarrow> (\<forall>p c. fs (p @ [c]) \<noteq> None \<longrightarrow> p = [] \<or> is_dir (fs p))"

lemma is_dir_exists: "is_dir i \<Longrightarrow> i \<noteq> None"
  by (auto simp: is_dir_def split: option.splits)

lemma wf_child: "wf_fs fs \<Longrightarrow> fs (p @ [c]) \<noteq> None \<Longrightarrow> p = [] \<or> is_dir (fs p)"
  unfolding wf_fs_def by blast

lemma wf_below:
  assumes "wf_fs fs" "fs (p @ q) \<noteq> None" "q \<noteq> []" "p \<noteq> []"
  shows "is_dir (fs p)"
  using assms(2,3)
proof (induction q rule: rev_induct)
  case (snoc c q)
  have "fs ((p @ q) @ [c]) \<noteq> None" using snoc.prems(1) by simp
  then have dir: "p @ q = [] \<or> is_dir (fs (p @ q))" by (rule wf_child [OF assms(1)])
  show ?case
  proof (cases "q = []")
    case True
    with dir assms(4) show ?thesis by simp
  next
    case False
    with dir assms(4) have "is_dir (fs (p @ q))" by simp
    then have "fs (p @ q) \<noteq> None" by (rule is_dir_exists)
    from this False show ?thesis by (rule snoc.IH)
  qed
qed simp

lemma wf_real: "wf_fs fs \<Longrightarrow> is_dir (fs p) \<Longrightarrow> list_all plain_component p \<Longrightarrow> real_dirs fs p"
  unfolding real_dirs_def list_all_iff Ball_def in_set_prefixes
proof safe
  fix q assume wf: "wf_fs fs" and p: "is_dir (fs p)" and q: "prefix q p" "\<not> is_dir (fs q)"
  from q(1) obtain r where r: "p = q @ r" by (auto simp: prefix_def)
  have "r \<noteq> []" using r p q(2) by auto
  moreover have "fs (q @ r) \<noteq> None" using p r by (simp add: is_dir_exists)
  ultimately show "q = []" using wf_below [OF wf] q(2) by blast
qed

text \<open>Where no link is met, a path resolves to itself, or nothing is there.\<close>

definition no_links :: "fs \<Rightarrow> path \<Rightarrow> path \<Rightarrow> bool" where
  "no_links fs base q \<longleftrightarrow> (\<forall>r. r \<noteq> [] \<longrightarrow> prefix r q \<longrightarrow> \<not> is_symlink (fs (base @ r)))"

lemma no_links_snoc: "no_links fs base (q @ [c]) \<longleftrightarrow> no_links fs base q \<and> \<not> is_symlink (fs (base @ q @ [c]))"
  by (auto simp: no_links_def prefix_snoc)

lemma no_links_Nil [simp]: "no_links fs base []"
  by (simp add: no_links_def)

lemma no_links_prefix: "no_links fs base q \<Longrightarrow> prefix r q \<Longrightarrow> no_links fs base r"
  unfolding no_links_def by (meson prefix_order.trans)

lemma no_links_Cons:
  assumes "no_links fs base (c # q)"
  shows "no_links fs (base @ [c]) q"
  unfolding no_links_def
proof (intro allI impI)
  fix r assume "r \<noteq> []" "prefix r q"
  then have "prefix (c # r) (c # q)" by simp
  then have "\<not> is_symlink (fs (base @ c # r))" using assms unfolding no_links_def by blast
  then show "\<not> is_symlink (fs ((base @ [c]) @ r))" by simp
qed

lemma resolve_no_links:
  assumes "wf_fs fs"
  shows "real_dirs fs cur \<Longrightarrow> list_all plain_component q \<Longrightarrow> no_links fs cur (if follow then q else butlast q) \<Longrightarrow>
    resolve fs n follow cur q = Some (cur @ q) \<or> resolve fs n follow cur q = None \<and> fs (cur @ q) = None"
proof (induction q arbitrary: cur)
  case (Cons c q)
  have c: "plain_component c" using Cons.prems(2) by simp
  show ?case
  proof (cases "q = []")
    case True
    with Cons.prems(3) c show ?thesis
      by (auto simp: resolve.simps plain_component_def no_links_def is_symlink_def split: option.split node.splits if_splits)
  next
    case False
    have "prefix [c] (if follow then c # q else butlast (c # q))" using False by simp
    then have link: "\<not> is_symlink (fs (cur @ [c]))" using Cons.prems(3) unfolding no_links_def by blast
    show ?thesis
    proof (cases "is_dir (fs (cur @ [c]))")
      case True
      then have "real_dirs fs (cur @ [c])" using Cons.prems(1) c by (simp add: real_dirs_snoc)
      moreover have "no_links fs (cur @ [c]) (if follow then q else butlast q)"
        using Cons.prems(3) False by (cases follow) (simp_all add: no_links_Cons)
      ultimately have "resolve fs n follow (cur @ [c]) q = Some ((cur @ [c]) @ q) \<or>
          resolve fs n follow (cur @ [c]) q = None \<and> fs ((cur @ [c]) @ q) = None"
        using Cons.IH [of "cur @ [c]"] Cons.prems(2) by simp
      moreover have "resolve fs n follow cur (c # q) = resolve fs n follow (cur @ [c]) q"
        using True c by (auto simp: resolve.simps(2) plain_component_def is_dir_def split: option.splits)
      ultimately show ?thesis by simp
    next
      case no: False
      then have "fs ((cur @ [c]) @ q) = None" using wf_below [OF assms, of "cur @ [c]" q] False by blast
      moreover have "resolve fs n follow cur (c # q) = None"
        using no link c False by (auto simp: resolve.simps plain_component_def is_dir_def is_symlink_def split: option.splits node.splits)
      ultimately show ?thesis by simp
    qed
  qed
qed simp

lemma lstat_no_links:
  assumes "wf_fs fs" "real_dirs fs base" "list_all plain_component q" "no_links fs base (butlast q)"
  shows "lstat fs (base @ q) = fs (base @ q)"
  using resolve_no_links [OF assms(1,2,3), of False MAX_LINKS] assms(4) resolve_dirs [of fs "[]" base MAX_LINKS False q] assms(2)
  by (auto simp: lstat_def)

lemma resolve_follow_no_links:
  assumes "wf_fs fs" "real_dirs fs base" "list_all plain_component q" "no_links fs base q" "fs (base @ q) \<noteq> None"
  shows "resolve fs n True [] (base @ q) = Some (base @ q)"
  using resolve_no_links [OF assms(1,2,3), of True n] assms(4,5) resolve_dirs [of fs "[]" base n True q] assms(2) by auto

lemma resolve_same_nodes:
  "(\<And>p. map_option in_node (fs' p) = map_option in_node (fs p)) \<Longrightarrow> resolve fs' n follow cur cs = resolve fs n follow cur cs"
proof (induction fs n follow cur cs rule: resolve.induct)
  case (2 fs n follow cur c cs)
  note IH = 2(1) [OF _ 2(5)] 2(2) [OF _ _ 2(5)] 2(3) [OF _ _ _ _ 2(5)] 2(4) [OF _ _ _ _ _ _ 2(5)]
  show ?case
  proof (cases "fs (cur @ [c])")
    case None
    then have "fs' (cur @ [c]) = None" using 2(5) [of "cur @ [c]"] by simp
    with None IH(1,2) show ?thesis by (simp add: resolve.simps(2))
  next
    case (Some i)
    then obtain j where "fs' (cur @ [c]) = Some j" "in_node j = in_node i" using 2(5) [of "cur @ [c]"] by auto
    with Some IH show ?thesis by (cases "in_node i") (auto simp: resolve.simps(2))
  qed
qed simp

end
