(* ===== verification/Oci_Layer.thy ===== *)
theory Oci_Layer
  imports File_System
begin

text \<open>
  Extraction of one OCI image layer (\<open>smolvm-oci-layer/src/lib.rs\<close>) into a directory: classification of
  the whiteout markers, confinement of the entries' paths, translation of the markers into overlayfs
  whiteouts, and the temporary relaxation of read-only directories. A layer is the list of its entries;
  unpacking one entry and reading the archive is the work of the \<open>tar\<close> library, a parameter. The model is
  of the Linux build. The relaxed directories, a hash map in the code, are an association list; the order
  among those of one depth, arbitrary in the code, is that of the list.
\<close>

unbundle bit_operations_syntax

section \<open>Entries\<close>

definition WHITEOUT_PREFIX :: string where "WHITEOUT_PREFIX = ''.wh.''"
definition OPAQUE_WHITEOUT :: string where "OPAQUE_WHITEOUT = ''.wh..wh..opq''"

datatype layer_entry = OpaqueDir | Whiteout string | NormalEntry

definition classify_layer_entry :: "string \<Rightarrow> layer_entry" where
  "classify_layer_entry name =
     (if name = OPAQUE_WHITEOUT then OpaqueDir
      else case strip_prefix WHITEOUT_PREFIX name of
             Some removed \<Rightarrow> if removed \<noteq> [] then Whiteout removed else NormalEntry
           | None \<Rightarrow> NormalEntry)"

fun jail :: "fs \<Rightarrow> path \<Rightarrow> component list \<Rightarrow> path option" where
  "jail fs out [] = Some out"
| "jail fs out (Normal part # rest) =
     (if is_symlink (lstat fs (out @ [part])) then None else jail fs (out @ [part]) rest)"
| "jail fs out (CurDir # rest) = jail fs out rest"
| "jail fs out (_ # rest) = None"

definition jailed_join :: "fs \<Rightarrow> path \<Rightarrow> string \<Rightarrow> path option" where
  "jailed_join fs base rel = jail fs base (components rel)"

definition nul_free :: "path \<Rightarrow> bool" where
  "nul_free p \<longleftrightarrow> list_all (\<lambda>c. CHR 0x00 \<notin> set c) p"

definition create_overlay_whiteout :: "path \<Rightarrow> fs \<Rightarrow> io_error option \<times> fs" where
  "create_overlay_whiteout p fs =
     (if nul_free p then mknod_char p (remove_dir_all p (remove_file p fs)) else (Some InvalidInput, fs))"

definition set_overlay_opaque :: "path \<Rightarrow> fs \<Rightarrow> io_error option \<times> fs" where
  "set_overlay_opaque p fs = (if nul_free p then set_opaque p fs else (Some InvalidInput, fs))"

definition pack_sidecar_sentinel :: "string \<Rightarrow> string option" where
  "pack_sidecar_sentinel p =
     (case filter (\<lambda>c. c \<noteq> CurDir) (components p) of
        [Normal name] \<Rightarrow> find (\<lambda>s. name = s) [''agent-rootfs.tar'', ''storage.ext4'']
      | _ \<Rightarrow> None)"

section \<open>Decompression\<close>

datatype compression = Gzip | Zstd | Plain

text \<open>A reader is the list of the chunks it returns; the loop asks for what is missing of the four bytes,
  and a read returns at most what was asked for.\<close>

fun peek_magic :: "nat \<Rightarrow> bytes list \<Rightarrow> bytes \<times> bytes list" where
  "peek_magic missing [] = ([], [])"
| "peek_magic missing (chunk # chunks) =
     (if missing = 0 then ([], chunk # chunks)
      else if chunk = [] then ([], chunks)
      else if length chunk \<le> missing then
        (case peek_magic (missing - length chunk) chunks of (magic, rest) \<Rightarrow> (chunk @ magic, rest))
      else (take missing chunk, drop missing chunk # chunks))"

definition sniff :: "bytes \<Rightarrow> compression" where
  "sniff magic =
     (if 2 \<le> length magic \<and> magic ! 0 = 0x1f \<and> magic ! 1 = 0x8b then Gzip
      else if 4 \<le> length magic \<and> take 4 magic = [0x28, 0xb5, 0x2f, 0xfd] then Zstd
      else Plain)"

definition decompress_layer_reader :: "bytes list \<Rightarrow> compression \<times> bytes list" where
  "decompress_layer_reader chunks =
     (case peek_magic 4 chunks of (magic, rest) \<Rightarrow> (sniff magic, magic # rest))"

section \<open>Extraction\<close>

datatype entry_type = RegularEntry | GNUSparse | Continuous | DirectoryEntry | LinkEntry | SymlinkEntry | OtherEntry

record tar_entry =
  te_path :: string
  te_type :: entry_type
  te_link :: "string option"
  te_size :: "nat option"
  te_mode :: u32

record extraction =
  ex_fs :: fs
  ex_checked :: "path list"
  ex_relaxed :: "(path \<times> u32) list"
  ex_bytes :: nat

text \<open>The environment: the mode of a new directory, and the unpacking of an entry under a directory by the
  \<open>tar\<close> library.\<close>

record unpacker =
  up_dir_mode :: u32
  up_unpack :: "tar_entry \<Rightarrow> path \<Rightarrow> fs \<Rightarrow> string option \<times> fs"

definition mark_opaque :: "unpacker \<Rightarrow> path \<Rightarrow> fs \<Rightarrow> io_error option \<times> fs" where
  "mark_opaque up full_path fs =
     (if full_path = [] then (None, fs)
      else case create_dir_all (up_dir_mode up) (butlast full_path) fs of
             (Some e, fs1) \<Rightarrow> (Some e, fs1)
           | (None, fs1) \<Rightarrow> set_overlay_opaque (butlast full_path) fs1)"

definition mark_whiteout :: "unpacker \<Rightarrow> path \<Rightarrow> string \<Rightarrow> fs \<Rightarrow> io_error option \<times> fs" where
  "mark_whiteout up full_path removed fs =
     (if full_path = [] then (None, fs)
      else case create_dir_all (up_dir_mode up) (butlast full_path) fs of
             (Some e, fs1) \<Rightarrow> (Some e, fs1)
           | (None, fs1) \<Rightarrow> create_overlay_whiteout (butlast full_path @ [removed]) fs1)"

definition marker :: "string \<Rightarrow> layer_entry" where
  "marker p =
     (case file_name p of
        Some name \<Rightarrow> if valid_utf8 (str_bytes name) then classify_layer_entry name else NormalEntry
      | None \<Rightarrow> NormalEntry)"

definition link_missing :: "fs \<Rightarrow> path \<Rightarrow> tar_entry \<Rightarrow> bool" where
  "link_missing fs dest entry \<longleftrightarrow>
     te_type entry = LinkEntry \<and>
     (case Option.bind (te_link entry) (jailed_join fs dest) of None \<Rightarrow> True | Some target \<Rightarrow> stat fs target = None)"

definition relax_parent :: "path \<Rightarrow> extraction \<Rightarrow> io_error option \<times> extraction" where
  "relax_parent full_path st =
     (let parent = butlast full_path
      in if full_path = [] \<or> parent \<in> set (ex_checked st) then (None, st)
         else
           let st1 = st\<lparr>ex_checked := parent # ex_checked st\<rparr>
           in case lstat (ex_fs st) parent of
                None \<Rightarrow> (None, st1)
              | Some i \<Rightarrow>
                  if in_node i = DirNode \<and> in_mode i AND 0xC0 \<noteq> 0xC0 then
                    (case set_permissions parent (in_mode i OR 0x1C0) (ex_fs st) of
                       (Some e, fs1) \<Rightarrow> (Some e, st1\<lparr>ex_fs := fs1\<rparr>)
                     | (None, fs1) \<Rightarrow> (None, st1\<lparr>ex_fs := fs1, ex_relaxed := (parent, in_mode i) # ex_relaxed st\<rparr>))
                  else (None, st1))"

definition unpack_entry :: "unpacker \<Rightarrow> path \<Rightarrow> path \<Rightarrow> tar_entry \<Rightarrow> extraction \<Rightarrow> io_error option \<times> extraction" where
  "unpack_entry up dest full_path entry st =
     (case up_unpack up entry dest (ex_fs st) of
        (outcome, fs1) \<Rightarrow>
          let st1 = st\<lparr>ex_fs := fs1\<rparr>
          in if outcome \<noteq> None \<and> te_type entry \<in> {RegularEntry, GNUSparse, Continuous, DirectoryEntry}
             then (Some (UnpackFailed (the outcome)), st1)
             else
               let st2 = (if outcome = None \<and> te_type entry \<in> {RegularEntry, GNUSparse, Continuous}
                          then st1\<lparr>ex_bytes := min (ex_bytes st1 + (case te_size entry of Some n \<Rightarrow> n | None \<Rightarrow> 0)) (2 ^ 64 - 1)\<rparr>
                          else st1)
               in if te_type entry = DirectoryEntry
                  then (None, st2\<lparr>ex_checked := filter (\<lambda>p. p \<noteq> full_path) (ex_checked st2),
                                   ex_relaxed := filter (\<lambda>(p, _). p \<noteq> full_path) (ex_relaxed st2)\<rparr>)
                  else (None, st2))"

definition extract_entry :: "unpacker \<Rightarrow> path \<Rightarrow> string + tar_entry \<Rightarrow> extraction \<Rightarrow> io_error option \<times> extraction" where
  "extract_entry up dest read st =
     (case read of
        Inl e \<Rightarrow> (Some (ReadFailed e), st)
      | Inr entry \<Rightarrow>
     (case pack_sidecar_sentinel (te_path entry) of
        Some sentinel \<Rightarrow> (Some (InvalidData sentinel), st)
      | None \<Rightarrow>
     (case jailed_join (ex_fs st) dest (te_path entry) of
        None \<Rightarrow> (None, st)
      | Some full_path \<Rightarrow>
     (case marker (te_path entry) of
        OpaqueDir \<Rightarrow> apsnd (\<lambda>fs. st\<lparr>ex_fs := fs\<rparr>) (mark_opaque up full_path (ex_fs st))
      | Whiteout removed \<Rightarrow> apsnd (\<lambda>fs. st\<lparr>ex_fs := fs\<rparr>) (mark_whiteout up full_path removed (ex_fs st))
      | NormalEntry \<Rightarrow>
          if link_missing (ex_fs st) dest entry then (None, st)
          else (case relax_parent full_path st of
                  (Some e, st1) \<Rightarrow> (Some e, st1)
                | (None, st1) \<Rightarrow> unpack_entry up dest full_path entry st1)))))"

fun extract_entries :: "unpacker \<Rightarrow> path \<Rightarrow> (string + tar_entry) list \<Rightarrow> extraction \<Rightarrow> io_error option \<times> extraction" where
  "extract_entries up dest [] st = (None, st)"
| "extract_entries up dest (entry # entries) st =
     (case extract_entry up dest entry st of
        (Some e, st1) \<Rightarrow> (Some e, st1)
      | (None, st1) \<Rightarrow> extract_entries up dest entries st1)"

fun restore_modes :: "(path \<times> u32) list \<Rightarrow> fs \<Rightarrow> io_error option \<times> fs" where
  "restore_modes [] fs = (None, fs)"
| "restore_modes ((p, mode) # rest) fs =
     (case set_permissions p mode fs of
        (Some e, fs1) \<Rightarrow> (Some e, fs1)
      | (None, fs1) \<Rightarrow> restore_modes rest fs1)"

definition extract_oci_layer_with_size ::
  "unpacker \<Rightarrow> path \<Rightarrow> (string + tar_entry) list \<Rightarrow> fs \<Rightarrow> (io_error + nat) \<times> fs" where
  "extract_oci_layer_with_size up dest entries fs =
     (case extract_entries up dest entries \<lparr>ex_fs = fs, ex_checked = [], ex_relaxed = [], ex_bytes = 0\<rparr> of
        (Some e, st) \<Rightarrow> (Inl e, ex_fs st)
      | (None, st) \<Rightarrow>
          (case restore_modes (sort_key (\<lambda>(p, _). - int (length p)) (ex_relaxed st)) (ex_fs st) of
             (Some e, fs1) \<Rightarrow> (Inl e, fs1)
           | (None, fs1) \<Rightarrow> (Inr (ex_bytes st), fs1)))"

section \<open>Confinement\<close>

definition same_outside :: "path \<Rightarrow> fs \<Rightarrow> fs \<Rightarrow> bool" where
  "same_outside dest fs fs' \<longleftrightarrow> (\<forall>p. \<not> prefix dest p \<longrightarrow> fs' p = fs p)"

text \<open>What an operation that respects the layer directory keeps.\<close>

definition keeps :: "path \<Rightarrow> fs \<Rightarrow> fs \<Rightarrow> bool" where
  "keeps dest fs fs' \<longleftrightarrow> same_outside dest fs fs' \<and> wf_fs fs' \<and> real_dirs fs' dest"

lemma keeps_trans: "keeps dest fs fs1 \<Longrightarrow> keeps dest fs1 fs2 \<Longrightarrow> keeps dest fs fs2"
  by (auto simp: keeps_def same_outside_def)

lemma jail_plain:
  assumes "wf_fs fs" "real_dirs fs dest"
  shows "list_all plain_component q \<Longrightarrow> no_links fs dest q \<Longrightarrow> jail fs (dest @ q) cs = Some p \<Longrightarrow>
    (\<And>c. Normal c \<in> set cs \<Longrightarrow> plain_component c) \<Longrightarrow>
    \<exists>names. p = dest @ names \<and> list_all plain_component names \<and> no_links fs dest names"
proof (induction cs arbitrary: q)
  case (Cons c cs)
  show ?case
  proof (cases c)
    case (Normal part)
    have plain: "list_all plain_component (q @ [part])" using Cons.prems(1,4) Normal by simp
    have "lstat fs (dest @ q @ [part]) = fs (dest @ q @ [part])"
      using lstat_no_links [OF assms plain] Cons.prems(2) by simp
    then have "no_links fs dest (q @ [part])" "jail fs (dest @ q @ [part]) cs = Some p"
      using Cons.prems(2,3) Normal by (auto simp: no_links_snoc split: if_splits)
    with Cons.IH [of "q @ [part]"] plain Cons.prems(4) show ?thesis by simp
  qed (use Cons in auto)
qed auto

lemma jailed_join_plain:
  assumes "wf_fs fs" "real_dirs fs dest" "jailed_join fs dest rel = Some p"
  obtains names where "p = dest @ names" "list_all plain_component names" "no_links fs dest names"
  using jail_plain [OF assms(1,2), of "[]" "components rel" p] assms(3) components_plain unfolding jailed_join_def by auto

lemma jail_names: "jail fs out cs = Some p \<Longrightarrow> p = out @ concat (map (\<lambda>c. case c of Normal n \<Rightarrow> [n] | _ \<Rightarrow> []) cs)"
  by (induction fs out cs rule: jail.induct) (auto split: if_splits)

lemma jailed_file_name:
  assumes "jailed_join fs dest rel = Some p" "file_name rel = Some c"
  shows "\<exists>names. p = dest @ names @ [c]"
proof -
  from file_name_component [OF assms(2)] obtain cs where "components rel = cs @ [Normal c]" by blast
  with jail_names [of fs dest "components rel" p] assms(1) show ?thesis by (auto simp: jailed_join_def)
qed

lemma node_replaced:
  assumes "wf_fs fs" "real_dirs fs p" "\<not> is_dir (fs (p @ [c]))"
  shows "wf_fs (fs(p @ [c] \<mapsto> i))"
  unfolding wf_fs_def
proof (intro allI impI)
  fix r d assume exists: "(fs(p @ [c] \<mapsto> i)) (r @ [d]) \<noteq> None"
  show "r = [] \<or> is_dir ((fs(p @ [c] \<mapsto> i)) r)"
  proof (cases "r @ [d] = p @ [c]")
    case True
    have "p = [] \<or> is_dir (fs p)" using assms(2) by (simp add: real_dirs_def list_all_iff)
    with True show ?thesis by auto
  next
    case False
    then have "fs (r @ [d]) \<noteq> None" using exists by (auto split: if_splits)
    then have dir: "r = [] \<or> is_dir (fs r)" by (rule wf_child [OF assms(1)])
    then have "r \<noteq> p @ [c]" using assms(3) by auto
    with dir show ?thesis by simp
  qed
qed

lemma real_dirs_update: "real_dirs fs p \<Longrightarrow> \<not> prefix q p \<Longrightarrow> real_dirs (fs(q := x)) p"
  by (subst real_dirs_cong [of p _ fs]) auto

lemma create_dirs_real:
  "real_dirs fs (pre @ p) \<Longrightarrow> create_dirs mode pre (p @ q) fs = create_dirs mode (pre @ p) q fs"
proof (induction p arbitrary: pre)
  case (Cons c p)
  have pre: "real_dirs fs (pre @ [c])" using real_dirs_prefix [OF Cons.prems, of "pre @ [c]"] by (simp add: prefix_def)
  then have "resolve fs n f [] (pre @ [c]) = Some (pre @ [c])" for n f by (rule resolve_real)
  moreover have "is_dir (fs (pre @ [c]))" using pre by (simp add: real_dirs_snoc)
  ultimately have "create_dirs mode pre (c # p @ q) fs = create_dirs mode (pre @ [c]) (p @ q) fs"
    by (auto simp: stat_def dest: is_dir_exists)
  with Cons.IH [of "pre @ [c]"] Cons.prems show ?case by simp
qed simp

lemma create_dirs_keeps:
  "wf_fs fs \<Longrightarrow> real_dirs fs dest \<Longrightarrow> real_dirs fs (dest @ q) \<Longrightarrow> list_all plain_component r \<Longrightarrow> no_links fs dest (q @ r) \<Longrightarrow>
   create_dirs mode (dest @ q) r fs = (e, fs') \<Longrightarrow>
   keeps dest fs fs' \<and> (e = None \<longrightarrow> real_dirs fs' (dest @ q @ r)) \<and> (\<forall>p. \<not> prefix p (dest @ q @ r) \<longrightarrow> fs' p = fs p)"
proof (induction r arbitrary: q fs)
  case (Cons c r)
  have child: "resolve fs n False [] (dest @ q @ [c]) = Some (dest @ q @ [c])" for n
    using resolve_child [OF Cons.prems(3), of c n] Cons.prems(4) by simp
  show ?case
  proof (cases "fs (dest @ q @ [c])")
    case None
    define fs1 where "fs1 = fs(dest @ q @ [c] \<mapsto> \<lparr>in_node = DirNode, in_mode = mode, in_opaque = False\<rparr>)"
    have wf: "wf_fs fs1" using node_replaced [OF Cons.prems(1,3), of c] None by (simp add: fs1_def is_dir_def)
    have dest: "real_dirs fs1 dest" "real_dirs fs1 (dest @ q)"
      using Cons.prems(2,3) unfolding fs1_def by (auto intro!: real_dirs_update dest: prefix_length_le)
    then have "real_dirs fs1 (dest @ q @ [c])"
      using real_dirs_snoc [of fs1 "dest @ q" c] Cons.prems(4) by (simp add: is_dir_def fs1_def)
    moreover have "no_links fs1 dest ((q @ [c]) @ r)"
      using Cons.prems(5) by (auto simp: no_links_def is_symlink_def fs1_def)
    moreover have "create_dirs mode (dest @ q @ [c]) r fs1 = (e, fs')" using Cons.prems(6) child None by (simp add: fs1_def)
    ultimately have rest: "keeps dest fs1 fs' \<and> (e = None \<longrightarrow> real_dirs fs' (dest @ (q @ [c]) @ r)) \<and>
        (\<forall>p. \<not> prefix p (dest @ (q @ [c]) @ r) \<longrightarrow> fs' p = fs1 p)"
      using Cons.IH [of fs1 "q @ [c]"] wf dest(1) Cons.prems(4) by simp
    have "keeps dest fs fs1" using wf dest(1) by (auto simp: keeps_def same_outside_def prefix_def fs1_def)
    then have "keeps dest fs fs'" using rest keeps_trans by blast
    moreover have "fs1 p = fs p" if "\<not> prefix p (dest @ q @ c # r)" for p using that by (auto simp: fs1_def prefix_def)
    ultimately show ?thesis using rest by simp
  next
    case (Some i)
    have link: "no_links fs dest (q @ [c])" using Cons.prems(5) by (rule no_links_prefix) simp
    have plain: "list_all plain_component (q @ [c])" using Cons.prems(3,4) by (simp add: real_dirs_def)
    have stat: "stat fs (dest @ q @ [c]) = Some i"
      using resolve_follow_no_links [OF Cons.prems(1,2) plain link] Some by (simp add: stat_def)
    show ?thesis
    proof (cases "in_node i = DirNode")
      case True
      then have "real_dirs fs (dest @ q @ [c])"
        using real_dirs_snoc [of fs "dest @ q" c] Cons.prems(3,4) Some by (simp add: is_dir_def)
      moreover have "create_dirs mode (dest @ q @ [c]) r fs = (e, fs')"
        using Cons.prems(6) child Some stat True by (simp add: is_dir_def)
      ultimately show ?thesis using Cons.IH [of fs "q @ [c]"] Cons.prems(1,2,4,5) by simp
    next
      case False
      then have "e \<noteq> None" "fs' = fs" using Cons.prems(6) child Some stat by (auto simp: is_dir_def)
      then show ?thesis using Cons.prems(1,2) by (auto simp: keeps_def same_outside_def)
    qed
  qed
qed (simp add: keeps_def same_outside_def)

lemma create_dir_all_keeps:
  assumes "wf_fs fs" "real_dirs fs dest" "list_all plain_component r" "no_links fs dest r" "create_dir_all mode (dest @ r) fs = (e, fs')"
  shows "keeps dest fs fs'" "e = None \<Longrightarrow> real_dirs fs' (dest @ r)" "\<not> prefix p (dest @ r) \<Longrightarrow> fs' p = fs p"
proof -
  have "create_dirs mode (dest @ []) r fs = (e, fs')"
    using assms(5) create_dirs_real [of fs "[]" dest mode r] assms(2) by (simp add: create_dir_all_def)
  from create_dirs_keeps [OF assms(1,2) _ assms(3) _ this] assms(2,4)
  show "keeps dest fs fs'" "e = None \<Longrightarrow> real_dirs fs' (dest @ r)" "\<not> prefix p (dest @ r) \<Longrightarrow> fs' p = fs p" by simp_all
qed

text \<open>Replacing an inode by one of the same kind keeps the shape of the file system.\<close>

lemma same_kind_update:
  assumes "fs q = Some i" "in_node j = in_node i"
  shows "wf_fs (fs(q \<mapsto> j)) = wf_fs fs" "real_dirs (fs(q \<mapsto> j)) p = real_dirs fs p"
proof -
  have "is_dir ((fs(q \<mapsto> j)) r) = is_dir (fs r)" "((fs(q \<mapsto> j)) r = None) = (fs r = None)" for r
    using assms by (auto simp: is_dir_def)
  then show "wf_fs (fs(q \<mapsto> j)) = wf_fs fs" "real_dirs (fs(q \<mapsto> j)) p = real_dirs fs p"
    unfolding wf_fs_def real_dirs_def by presburger+
qed

lemma set_permissions_keeps:
  assumes "wf_fs fs" "real_dirs fs dest" "resolve fs MAX_LINKS True [] p = Some q" "prefix dest q" "set_permissions p mode fs = (e, fs')"
  shows "keeps dest fs fs' \<and> (\<forall>r. map_option in_node (fs' r) = map_option in_node (fs r))"
proof (cases "fs q")
  case None
  with assms show ?thesis by (auto simp: set_permissions_def keeps_def same_outside_def)
next
  case (Some i)
  then have fs': "fs' = fs(q \<mapsto> i\<lparr>in_mode := mode\<rparr>)" using assms(3,5) by (simp add: set_permissions_def)
  show ?thesis unfolding fs' keeps_def using assms(1,2,4) Some same_kind_update [where fs = fs and q = q and j = "i\<lparr>in_mode := mode\<rparr>", OF Some]
    by (auto simp: same_outside_def)
qed

lemma set_overlay_opaque_keeps:
  assumes "wf_fs fs" "real_dirs fs dest" "real_dirs fs (dest @ r)" "set_overlay_opaque (dest @ r) fs = (e, fs')"
  shows "keeps dest fs fs'"
proof (cases "fs (dest @ r)")
  case None
  with assms resolve_real [OF assms(3), of MAX_LINKS True] show ?thesis
    by (auto simp: set_overlay_opaque_def set_opaque_def keeps_def same_outside_def split: if_splits)
next
  case (Some i)
  note kind = same_kind_update [where fs = fs and q = "dest @ r" and j = "i\<lparr>in_opaque := True\<rparr>", OF Some]
  show ?thesis using assms resolve_real [OF assms(3), of MAX_LINKS True] Some kind
    by (auto simp: set_overlay_opaque_def set_opaque_def keeps_def same_outside_def split: if_splits)
qed

text \<open>The tree at a plain name in a real directory is replaced by a whiteout.\<close>

lemma subtree_removed:
  assumes "wf_fs fs"
  shows "wf_fs (\<lambda>r. if prefix t r then None else fs r)"
  unfolding wf_fs_def
proof (intro allI impI)
  fix p c assume exists: "(if prefix t (p @ [c]) then None else fs (p @ [c])) \<noteq> None"
  then have "fs (p @ [c]) \<noteq> None" "\<not> prefix t p" by (auto split: if_splits)
  with wf_child [OF assms] show "p = [] \<or> is_dir (if prefix t p then None else fs p)" by simp
qed

lemma whiteout_result:
  assumes "wf_fs fs" "real_dirs fs d" "plain_component c" "nul_free (d @ [c])"
  shows "create_overlay_whiteout (d @ [c]) fs =
    (None, (\<lambda>r. if prefix (d @ [c]) r then None else fs r)(d @ [c] \<mapsto> \<lparr>in_node = CharDevice, in_mode = 0, in_opaque = False\<rparr>))"
proof -
  let ?t = "d @ [c]"
  define gone where "gone = (\<lambda>r. if prefix ?t r then None else fs r)"
  have child: "resolve fs' n False [] ?t = Some ?t" if "real_dirs fs' d" for fs' n using resolve_child [OF that assms(3)] .
  have below: "fs r = None" if no: "\<not> is_dir (fs ?t)" and pre: "strict_prefix ?t r" for r
  proof -
    obtain q where q: "r = ?t @ q" "q \<noteq> []" using pre by (auto simp: strict_prefix_def prefix_def)
    then have "fs (?t @ q) = None" using wf_below [OF assms(1), of ?t q] no by blast
    with q(1) show ?thesis by simp
  qed
  have "remove_dir_all ?t (remove_file ?t fs) = gone"
  proof (cases "is_dir (fs ?t)")
    case True
    then have "\<not> is_symlink (fs ?t)" by (auto simp: is_dir_def is_symlink_def split: option.splits)
    with True child [OF assms(2)] assms(3) show ?thesis
      by (auto simp: remove_file_def remove_dir_all_def gone_def fun_eq_iff strict_prefix_def)
  next
    case False
    have "real_dirs (fs(?t := None)) d" using assms(2) by (intro real_dirs_update) (auto dest: prefix_length_le)
    then have "remove_dir_all ?t (fs(?t := None)) = fs(?t := None)"
      using child by (simp add: remove_dir_all_def is_symlink_def is_dir_def)
    moreover have "remove_file ?t fs = fs(?t := None)" using False child [OF assms(2)] by (simp add: remove_file_def)
    moreover have "fs(?t := None) = gone" using below [OF False] by (auto simp: gone_def fun_eq_iff strict_prefix_def)
    ultimately show ?thesis by simp
  qed
  moreover have "real_dirs gone d" using assms(2) unfolding gone_def
    by (subst real_dirs_cong [of d _ fs]) (auto dest: prefix_length_le prefix_order.trans)
  then have "resolve gone n False [] ?t = Some ?t" for n by (rule child)
  moreover have "gone ?t = None" by (simp add: gone_def)
  ultimately show ?thesis using assms(4) by (simp add: create_overlay_whiteout_def mknod_char_def gone_def)
qed

lemma whiteout_keeps:
  assumes "wf_fs fs" "real_dirs fs dest" "real_dirs fs (dest @ r)" "plain_component c" "create_overlay_whiteout (dest @ r @ [c]) fs = (e, fs')"
  shows "keeps dest fs fs'"
proof (cases "nul_free (dest @ r @ [c])")
  case True
  let ?t = "dest @ r @ [c]"
  define gone where "gone = (\<lambda>q. if prefix ?t q then None else fs q)"
  have fs': "fs' = gone(?t \<mapsto> \<lparr>in_node = CharDevice, in_mode = 0, in_opaque = False\<rparr>)"
    using whiteout_result [OF assms(1,3,4)] True assms(5) by (simp add: gone_def)
  have dirs: "real_dirs gone p" if "real_dirs fs p" "\<not> prefix ?t p" for p
    using that unfolding gone_def by (subst real_dirs_cong [of p _ fs]) (auto dest: prefix_order.trans)
  have "\<not> prefix ?t dest" "\<not> prefix ?t (dest @ r)" by (auto dest: prefix_length_le)
  then have real: "real_dirs gone dest" "real_dirs gone (dest @ r)" using dirs assms(2,3) by simp_all
  have "wf_fs gone" unfolding gone_def by (rule subtree_removed [OF assms(1)])
  then have "wf_fs fs'" unfolding fs' using node_replaced [of gone "dest @ r" c] real(2) by (simp add: gone_def is_dir_def)
  moreover have "real_dirs fs' dest" unfolding fs' using real(1) \<open>\<not> prefix ?t dest\<close> by (rule real_dirs_update)
  moreover have "same_outside dest fs fs'" by (auto simp: same_outside_def fs' gone_def prefix_def)
  ultimately show ?thesis by (simp add: keeps_def)
next
  case False
  with assms show ?thesis by (auto simp: create_overlay_whiteout_def keeps_def same_outside_def)
qed

text \<open>What the \<open>tar\<close> library documents of unpacking an entry below a directory: nothing outside it is
  written.\<close>

definition unpack_confined :: "unpacker \<Rightarrow> bool" where
  "unpack_confined up \<longleftrightarrow>
     (\<forall>entry dest fs. wf_fs fs \<longrightarrow> real_dirs fs dest \<longrightarrow> keeps dest fs (snd (up_unpack up entry dest fs)))"

definition writable_dir :: "inode option \<Rightarrow> bool" where
  "writable_dir i = (case i of Some i \<Rightarrow> in_mode i AND 0xC0 = 0xC0 | None \<Rightarrow> True)"

definition plain_marker :: "string + tar_entry \<Rightarrow> bool" where
  "plain_marker read =
     (case read of
        Inr entry \<Rightarrow> (case marker (te_path entry) of Whiteout removed \<Rightarrow> plain_component removed | _ \<Rightarrow> True)
      | Inl _ \<Rightarrow> True)"

definition ex_ok :: "path \<Rightarrow> fs \<Rightarrow> extraction \<Rightarrow> bool" where
  "ex_ok dest fs0 st \<longleftrightarrow> keeps dest fs0 (ex_fs st) \<and> list_all (\<lambda>(q, _). prefix dest q) (ex_relaxed st)"

lemma ex_okD: "ex_ok dest fs0 st \<Longrightarrow> wf_fs (ex_fs st)" "ex_ok dest fs0 st \<Longrightarrow> real_dirs (ex_fs st) dest"
  by (simp_all add: ex_ok_def keeps_def)

lemma ex_ok_update: "ex_ok dest fs0 st \<Longrightarrow> keeps dest (ex_fs st) fs' \<Longrightarrow> ex_ok dest fs0 (st\<lparr>ex_fs := fs'\<rparr>)"
  by (auto simp: ex_ok_def intro: keeps_trans)

lemma relax_parent_ok:
  assumes "ex_ok dest fs0 st" "dest \<noteq> []" "writable_dir (fs0 (butlast dest))" "list_all plain_component names"
    "no_links (ex_fs st) dest names" "relax_parent (dest @ names) st = (e, st')"
  shows "ex_ok dest fs0 st'"
proof (cases "names = []")
  case True
  let ?d = "butlast dest"
  have "\<not> prefix dest ?d" using assms(2) prefix_length_le [of dest ?d] by (cases dest) auto
  then have same: "ex_fs st ?d = fs0 ?d" using assms(1) by (simp add: ex_ok_def keeps_def same_outside_def)
  have "real_dirs (ex_fs st) ?d" using real_dirs_prefix [OF ex_okD(2) [OF assms(1)]] by (simp add: prefixeq_butlast)
  then have "lstat (ex_fs st) ?d = ex_fs st ?d" by (simp add: lstat_def resolve_real)
  then have "ex_fs st' = ex_fs st" "ex_relaxed st' = ex_relaxed st"
    using assms(3,6) same True by (auto simp: relax_parent_def writable_dir_def Let_def split: if_splits option.splits)
  with assms(1) show ?thesis by (simp add: ex_ok_def)
next
  case False
  let ?d = "dest @ butlast names"
  note ok = ex_okD [OF assms(1)]
  have d: "butlast (dest @ names) = ?d" using False by (simp add: butlast_append)
  have plain: "list_all plain_component (butlast names)" using assms(4) by (auto simp: list_all_iff dest: in_set_butlastD)
  have links: "no_links (ex_fs st) dest (butlast names)" using assms(5) by (rule no_links_prefix) (rule prefixeq_butlast)
  then have links': "no_links (ex_fs st) dest (butlast (butlast names))" by (rule no_links_prefix) (rule prefixeq_butlast)
  have lstat: "lstat (ex_fs st) ?d = ex_fs st ?d" using lstat_no_links [OF ok plain links'] .
  have set: "keeps dest (ex_fs st) fs1" if "set_permissions ?d mode (ex_fs st) = (e1, fs1)" "ex_fs st ?d = Some i" for mode e1 fs1 i
    using set_permissions_keeps [OF ok _ _ that(1), of ?d] resolve_follow_no_links [OF ok plain links] that(2) by simp
  show ?thesis using assms(1,6) set
    by (auto simp: relax_parent_def d lstat Let_def ex_ok_def intro: keeps_trans split: if_splits option.splits prod.splits)
qed

lemma unpack_entry_ok:
  assumes "ex_ok dest fs0 st" "unpack_confined up" "unpack_entry up dest full_path entry st = (e, st')"
  shows "ex_ok dest fs0 st'"
proof -
  obtain outcome fs1 where un: "up_unpack up entry dest (ex_fs st) = (outcome, fs1)" by fastforce
  have "keeps dest (ex_fs st) fs1"
    using assms(2) ex_okD [OF assms(1)] un unfolding unpack_confined_def by (metis snd_conv)
  then have "keeps dest fs0 fs1" using assms(1) by (auto simp: ex_ok_def intro: keeps_trans)
  then show ?thesis using assms(1,3)
    by (auto simp: unpack_entry_def un Let_def ex_ok_def list_all_iff split: if_splits)
qed

lemma marker_named: "marker rel \<noteq> NormalEntry \<Longrightarrow> \<exists>c. file_name rel = Some c"
  by (auto simp: marker_def split: option.splits)

lemma mark_opaque_keeps:
  assumes "wf_fs fs" "real_dirs fs dest" "list_all plain_component names" "no_links fs dest names"
    "mark_opaque up (dest @ names @ [c]) fs = (e, fs')"
  shows "keeps dest fs fs'"
proof -
  have d: "butlast (dest @ names @ [c]) = dest @ names" by (simp add: butlast_append)
  obtain e1 fs1 where mk: "create_dir_all (up_dir_mode up) (dest @ names) fs = (e1, fs1)" by fastforce
  note dirs = create_dir_all_keeps [OF assms(1-4) mk]
  show ?thesis
  proof (cases e1)
    case None
    then have "set_overlay_opaque (dest @ names) fs1 = (e, fs')" using assms(5) mk d by (simp add: mark_opaque_def)
    moreover have "wf_fs fs1" "real_dirs fs1 dest" "real_dirs fs1 (dest @ names)" using dirs None by (simp_all add: keeps_def)
    ultimately have "keeps dest fs1 fs'" by (intro set_overlay_opaque_keeps)
    with dirs(1) show ?thesis by (rule keeps_trans)
  qed (use assms(5) mk d dirs in \<open>simp add: mark_opaque_def\<close>)
qed

lemma mark_whiteout_keeps:
  assumes "wf_fs fs" "real_dirs fs dest" "list_all plain_component names" "no_links fs dest names" "plain_component removed"
    "mark_whiteout up (dest @ names @ [c]) removed fs = (e, fs')"
  shows "keeps dest fs fs'"
proof -
  have d: "butlast (dest @ names @ [c]) = dest @ names" by (simp add: butlast_append)
  obtain e1 fs1 where mk: "create_dir_all (up_dir_mode up) (dest @ names) fs = (e1, fs1)" by fastforce
  note dirs = create_dir_all_keeps [OF assms(1-4) mk]
  show ?thesis
  proof (cases e1)
    case None
    then have "create_overlay_whiteout (dest @ names @ [removed]) fs1 = (e, fs')" using assms(6) mk d by (simp add: mark_whiteout_def)
    moreover have "wf_fs fs1" "real_dirs fs1 dest" "real_dirs fs1 (dest @ names)" using dirs None by (simp_all add: keeps_def)
    ultimately have "keeps dest fs1 fs'" by (intro whiteout_keeps [OF _ _ _ assms(5)])
    with dirs(1) show ?thesis by (rule keeps_trans)
  qed (use assms(6) mk d dirs in \<open>simp add: mark_whiteout_def\<close>)
qed

lemma extract_entry_ok:
  assumes "ex_ok dest fs0 st" "unpack_confined up" "dest \<noteq> []" "writable_dir (fs0 (butlast dest))" "plain_marker read"
    "extract_entry up dest read st = (e, st')"
  shows "ex_ok dest fs0 st'"
proof (cases "\<exists>entry full_path. read = Inr entry \<and> pack_sidecar_sentinel (te_path entry) = None \<and>
    jailed_join (ex_fs st) dest (te_path entry) = Some full_path")
  case False
  then have "st' = st" using assms(6) by (auto simp: extract_entry_def split: sum.splits option.splits)
  with assms(1) show ?thesis by simp
next
  case True
  then obtain entry full_path where r: "read = Inr entry" "pack_sidecar_sentinel (te_path entry) = None"
    "jailed_join (ex_fs st) dest (te_path entry) = Some full_path" by blast
  note ok = ex_okD [OF assms(1)]
  from jailed_join_plain [OF ok r(3)] obtain names where n: "full_path = dest @ names" "list_all plain_component names"
    "no_links (ex_fs st) dest names" .
  have named: "\<exists>r c. full_path = dest @ r @ [c] \<and> list_all plain_component r \<and> no_links (ex_fs st) dest r"
    if "marker (te_path entry) \<noteq> NormalEntry"
  proof -
    from marker_named [OF that] jailed_file_name [OF r(3)] obtain q c where "full_path = dest @ q @ [c]" by blast
    with n show ?thesis by (auto simp: no_links_snoc)
  qed
  show ?thesis
  proof (cases "marker (te_path entry)")
    case OpaqueDir
    then obtain q c where q: "full_path = dest @ q @ [c]" "list_all plain_component q" "no_links (ex_fs st) dest q" using named by auto
    obtain e1 fs1 where mark: "mark_opaque up full_path (ex_fs st) = (e1, fs1)" by fastforce
    then have "st' = st\<lparr>ex_fs := fs1\<rparr>" using assms(6) r OpaqueDir by (simp add: extract_entry_def)
    with ex_ok_update [OF assms(1)] mark_opaque_keeps [OF ok q(2,3)] mark q(1) show ?thesis by simp
  next
    case (Whiteout removed)
    then obtain q c where q: "full_path = dest @ q @ [c]" "list_all plain_component q" "no_links (ex_fs st) dest q" using named by auto
    obtain e1 fs1 where mark: "mark_whiteout up full_path removed (ex_fs st) = (e1, fs1)" by fastforce
    then have "st' = st\<lparr>ex_fs := fs1\<rparr>" using assms(6) r Whiteout by (simp add: extract_entry_def)
    moreover have "plain_component removed" using assms(5) r(1) Whiteout by (simp add: plain_marker_def)
    ultimately show ?thesis using ex_ok_update [OF assms(1)] mark_whiteout_keeps [OF ok q(2,3)] mark q(1) by simp
  next
    case NormalEntry
    show ?thesis
    proof (cases "link_missing (ex_fs st) dest entry")
      case True
      with assms(1,6) r NormalEntry show ?thesis by (simp add: extract_entry_def)
    next
      case False
      obtain e1 st1 where relax: "relax_parent (dest @ names) st = (e1, st1)" by fastforce
      have "ex_ok dest fs0 st1" using relax_parent_ok [OF assms(1,3,4) n(2,3) relax] .
      then show ?thesis using unpack_entry_ok [OF _ assms(2)] assms(6) r NormalEntry False relax n(1)
        by (auto simp: extract_entry_def split: option.splits)
    qed
  qed
qed

lemma extract_entries_ok:
  "ex_ok dest fs0 st \<Longrightarrow> unpack_confined up \<Longrightarrow> dest \<noteq> [] \<Longrightarrow> writable_dir (fs0 (butlast dest)) \<Longrightarrow> list_all plain_marker entries \<Longrightarrow>
   extract_entries up dest entries st = (e, st') \<Longrightarrow> ex_ok dest fs0 st'"
proof (induction entries arbitrary: st)
  case (Cons entry entries)
  obtain e1 st1 where one: "extract_entry up dest entry st = (e1, st1)" by fastforce
  have "ex_ok dest fs0 st1" using extract_entry_ok [OF Cons.prems(1-4) _ one] Cons.prems(5) by simp
  with Cons one show ?case by (cases e1) auto
qed simp

lemma restore_keeps:
  "wf_fs fs \<Longrightarrow> real_dirs fs dest \<Longrightarrow> list_all (\<lambda>(q, _). resolve fs MAX_LINKS True [] q = Some q \<and> prefix dest q) relaxed \<Longrightarrow>
   restore_modes relaxed fs = (e, fs') \<Longrightarrow> keeps dest fs fs'"
proof (induction relaxed arbitrary: fs)
  case Nil
  then show ?case by (simp add: keeps_def same_outside_def)
next
  case (Cons x relaxed)
  obtain q mode where x: "x = (q, mode)" by fastforce
  obtain e1 fs1 where set: "set_permissions q mode fs = (e1, fs1)" by fastforce
  have q: "resolve fs MAX_LINKS True [] q = Some q" "prefix dest q" using Cons.prems(3) x by simp_all
  from set_permissions_keeps [OF Cons.prems(1,2) q set] have keeps: "keeps dest fs fs1"
    and "resolve fs1 = resolve fs" using resolve_same_nodes [of fs1 fs] by (auto simp: fun_eq_iff)
  then have "keeps dest fs1 fs'" if "e1 = None"
    using Cons.IH [of fs1] Cons.prems(3,4) x set that by (simp add: keeps_def)
  with keeps show ?case using Cons.prems(4) x set keeps_trans by (cases e1) auto
qed

definition fresh_extraction :: "fs \<Rightarrow> extraction" where
  "fresh_extraction fs = \<lparr>ex_fs = fs, ex_checked = [], ex_relaxed = [], ex_bytes = 0\<rparr>"

section \<open>A sample unpacker and layers\<close>

definition entry_node :: "tar_entry \<Rightarrow> node" where
  "entry_node entry =
     (case te_type entry of
        DirectoryEntry \<Rightarrow> DirNode
      | SymlinkEntry \<Rightarrow> LinkNode (case te_link entry of Some l \<Rightarrow> l | None \<Rightarrow> [])
      | _ \<Rightarrow> FileNode [])"

definition sample_unpack :: "tar_entry \<Rightarrow> path \<Rightarrow> fs \<Rightarrow> string option \<times> fs" where
  "sample_unpack entry dest fs =
     (case jailed_join fs dest (te_path entry) of
        None \<Rightarrow> (None, fs)
      | Some p \<Rightarrow>
          if p = dest then (None, fs)
          else if strict_prefix dest p \<and> real_dirs fs (butlast p) \<and> \<not> is_dir (fs p)
          then (None, fs(p \<mapsto> \<lparr>in_node = entry_node entry, in_mode = te_mode entry, in_opaque = False\<rparr>))
          else (Some ''refused'', fs))"

definition sample_unpacker :: unpacker where
  "sample_unpacker = \<lparr>up_dir_mode = 0x1ED, up_unpack = sample_unpack\<rparr>"

lemma sample_unpack_confined: "unpack_confined sample_unpacker"
  unfolding unpack_confined_def
proof (intro allI impI)
  fix entry dest fs assume wf: "wf_fs fs" and dest: "real_dirs fs dest"
  show "keeps dest fs (snd (up_unpack sample_unpacker entry dest fs))"
  proof (cases "\<exists>p. jailed_join fs dest (te_path entry) = Some p \<and> strict_prefix dest p \<and> real_dirs fs (butlast p) \<and> \<not> is_dir (fs p)")
    case True
    then obtain p where p: "jailed_join fs dest (te_path entry) = Some p" "strict_prefix dest p" "real_dirs fs (butlast p)" "\<not> is_dir (fs p)"
      by blast
    then obtain q c where q: "p = q @ [c]" by (metis append_butlast_last_id prefix_bot.not_eq_extremum strict_prefix_simps(1))
    let ?fs = "fs(p \<mapsto> \<lparr>in_node = entry_node entry, in_mode = te_mode entry, in_opaque = False\<rparr>)"
    have "wf_fs ?fs" unfolding q by (rule node_replaced [OF wf]) (use p q in simp_all)
    moreover have "real_dirs ?fs dest" using dest p(2) by (intro real_dirs_update) (auto simp: strict_prefix_def)
    moreover have "same_outside dest fs ?fs" using p(2) by (auto simp: same_outside_def strict_prefix_def)
    moreover have "p \<noteq> dest" using p(2) by auto
    ultimately show ?thesis using p by (simp add: sample_unpacker_def sample_unpack_def keeps_def)
  next
    case False
    then have "snd (up_unpack sample_unpacker entry dest fs) = fs"
      by (auto simp: sample_unpacker_def sample_unpack_def split: option.split)
    then show ?thesis using wf dest by (simp add: keeps_def same_outside_def)
  qed
qed

text \<open>A host with the layer directory \<open>/c/l\<close>, a neighbouring layer and a private file.\<close>

definition dir_inode :: inode where "dir_inode = \<lparr>in_node = DirNode, in_mode = 0x1ED, in_opaque = False\<rparr>"

definition host_fs :: fs where
  "host_fs = [[] \<mapsto> dir_inode, [''c''] \<mapsto> dir_inode, [''c'', ''l''] \<mapsto> dir_inode, [''c'', ''other''] \<mapsto> dir_inode,
     [''secret''] \<mapsto> \<lparr>in_node = FileNode [], in_mode = 0x180, in_opaque = False\<rparr>]"

lemma host_fs_wf: "wf_fs host_fs"
  unfolding wf_fs_def by (auto simp: host_fs_def is_dir_def dir_inode_def append_eq_Cons_conv split: if_splits)

definition tar :: "string \<Rightarrow> entry_type \<Rightarrow> string option \<Rightarrow> u32 \<Rightarrow> string + tar_entry" where
  "tar p t l m = Inr \<lparr>te_path = p, te_type = t, te_link = l, te_size = Some 3, te_mode = m\<rparr>"

definition plain_layer :: "(string + tar_entry) list" where
  "plain_layer = [tar ''./'' DirectoryEntry None 0x1ED, tar ''d'' DirectoryEntry None 0x16D, tar ''d/f'' RegularEntry None 0x1A4,
     tar ''e/.wh.x'' RegularEntry None 0, tar ''e/.wh..wh..opq'' RegularEntry None 0, tar ''d/l'' SymlinkEntry (Some ''/secret'') 0x1FF,
     tar ''d/l/y'' RegularEntry None 0, tar ''../z'' RegularEntry None 0]"

definition dot_layer :: "(string + tar_entry) list" where
  "dot_layer = [tar ''.wh...'' RegularEntry None 0]"

section \<open>Properties\<close>

text \<open>C7: Extraction is confined to the layer directory. If the library unpacks entries below a directory
  without writing outside it, no whiteout marker names \<open>.\<close> or \<open>..\<close>, the directory holding the layer
  directory is writable by its owner, and no directory whose mode was relaxed is reached through a link
  when the modes are restored, then whatever the layer holds, and whether the extraction succeeds or not,
  nothing outside the layer directory changes.\<close>

theorem layer_confined:
  assumes "wf_fs fs" "real_dirs fs dest" "dest \<noteq> []" "unpack_confined up" "writable_dir (fs (butlast dest))"
    "list_all plain_marker entries" "extract_entries up dest entries (fresh_extraction fs) = (e, st)"
    "list_all (\<lambda>(q, _). resolve (ex_fs st) MAX_LINKS True [] q = Some q) (ex_relaxed st)" "\<not> prefix dest p"
  shows "snd (extract_oci_layer_with_size up dest entries fs) p = fs p"
proof -
  have "ex_ok dest fs (fresh_extraction fs)" using assms(1,2) by (simp add: ex_ok_def fresh_extraction_def keeps_def same_outside_def)
  then have ok: "ex_ok dest fs st" using extract_entries_ok assms by blast
  let ?relaxed = "sort_key (\<lambda>(p, _). - int (length p)) (ex_relaxed st)"
  obtain e1 fs1 where restore: "restore_modes ?relaxed (ex_fs st) = (e1, fs1)" by fastforce
  have "list_all (\<lambda>(q, _). resolve (ex_fs st) MAX_LINKS True [] q = Some q \<and> prefix dest q) ?relaxed"
    using ok assms(8) by (auto simp: ex_ok_def list_all_iff)
  then have "keeps dest (ex_fs st) fs1" using restore_keeps [OF ex_okD [OF ok] _ restore] by simp
  then have "keeps dest fs fs1" "keeps dest fs (ex_fs st)" using ok keeps_trans by (auto simp: ex_ok_def)
  moreover have "snd (extract_oci_layer_with_size up dest entries fs) = (if e = None then fs1 else ex_fs st)"
    using assms(7) restore
    by (auto simp: extract_oci_layer_with_size_def fresh_extraction_def split: option.split)
  ultimately show ?thesis using assms(9) by (simp add: keeps_def same_outside_def)
qed

theorem layer_confined_witness:
  "fst (extract_oci_layer_with_size sample_unpacker [''c'', ''l''] plain_layer host_fs) = Inr 3 \<and>
   snd (extract_oci_layer_with_size sample_unpacker [''c'', ''l''] plain_layer host_fs) [''secret''] = host_fs [''secret'']"
proof -
  have "real_dirs host_fs [''c'', ''l'']" "writable_dir (host_fs (butlast [''c'', ''l'']))" "list_all plain_marker plain_layer" by code_simp+
  moreover obtain e st where run: "extract_entries sample_unpacker [''c'', ''l''] plain_layer (fresh_extraction host_fs) = (e, st)" by fastforce
  have "list_all (\<lambda>(q, _). resolve (ex_fs (snd (extract_entries sample_unpacker [''c'', ''l''] plain_layer (fresh_extraction host_fs)))) MAX_LINKS True [] q = Some q)
    (ex_relaxed (snd (extract_entries sample_unpacker [''c'', ''l''] plain_layer (fresh_extraction host_fs))))" by code_simp
  then have "list_all (\<lambda>(q, _). resolve (ex_fs st) MAX_LINKS True [] q = Some q) (ex_relaxed st)" unfolding run by simp
  moreover have "fst (extract_oci_layer_with_size sample_unpacker [''c'', ''l''] plain_layer host_fs) = Inr 3" by code_simp
  ultimately show ?thesis using layer_confined [OF host_fs_wf _ _ sample_unpack_confined _ _ run, of "[''secret'']"] by simp
qed

lemma resolve_missing:
  assumes "real_dirs fs p" "plain_component c" "fs (p @ [c]) = None" "cs \<noteq> []"
  shows "resolve fs n follow [] (p @ c # cs) = None"
  using resolve_dirs [of fs "[]" p n follow "c # cs"] assms by (simp add: resolve.simps(2) plain_component_def)

lemma dot_whiteout_empties:
  assumes "real_dirs fs (d @ [c])" "is_dir (fs d)" "nul_free (d @ [c])"
  shows "create_overlay_whiteout (d @ [c, ''..'']) fs = (Some NotFoundError, \<lambda>r. if strict_prefix d r then None else fs r)"
proof -
  let ?t = "d @ [c, ''..'']"
  define emptied where "emptied = (\<lambda>r. if strict_prefix d r then None else fs r)"
  have d: "real_dirs fs d" "plain_component c" using assms(1) by (simp_all add: real_dirs_snoc)
  have dots: "resolve fs n False [] ?t = Some d" for n
    using resolve_dirs [of fs "[]" "d @ [c]" n False "[''..'']"] assms(1) by (simp add: resolve.simps(2))
  have link: "\<not> is_symlink (fs d)" using assms(2) by (auto simp: is_dir_def is_symlink_def split: option.splits)
  have "remove_file ?t fs = fs" using dots assms(2) by (simp add: remove_file_def)
  moreover have "remove_dir_all ?t fs = emptied"
    using dots assms(2) link by (simp add: remove_dir_all_def emptied_def fun_eq_iff plain_component_def)
  moreover have "real_dirs emptied d" using d(1) unfolding emptied_def
    by (subst real_dirs_cong [of d _ fs]) (auto dest: prefix_order.leD)
  then have "resolve emptied n False [] ?t = None" for n
    using resolve_missing [of emptied d c "[''..'']"] d(2) by (simp add: emptied_def strict_prefix_def)
  moreover have "nul_free ?t" using assms(3) by (simp add: nul_free_def)
  ultimately show ?thesis by (simp add: create_overlay_whiteout_def mknod_char_def emptied_def)
qed

lemma dot_entry:
  "components ''.wh...'' = [Normal ''.wh...'']" "pack_sidecar_sentinel ''.wh...'' = None" "marker ''.wh...'' = Whiteout ''..''"
  by code_simp+

text \<open>C26: A whiteout marker with the name \<open>..\<close> escapes: extracting a layer whose first entry is \<open>.wh...\<close> at its
  top empties the directory that holds the layer directory, neighbouring layers included, and then
  fails, whatever the other entries are and however entries are unpacked.\<close>

theorem dot_whiteout_escapes:
  assumes "real_dirs fs (d @ [c])" "is_dir (fs d)" "nul_free (d @ [c])" "\<not> is_symlink (fs (d @ [c, ''.wh...'']))"
    "te_path entry = ''.wh...''"
  shows "extract_oci_layer_with_size up (d @ [c]) (Inr entry # entries) fs =
    (Inl NotFoundError, \<lambda>r. if strict_prefix d r then None else fs r)"
proof -
  have "plain_component ''.wh...''" by code_simp
  then have "lstat fs (d @ [c, ''.wh...'']) = fs (d @ [c, ''.wh...''])"
    using resolve_child [OF assms(1), of "''.wh...''" MAX_LINKS] by (simp add: lstat_def)
  then have jail: "jailed_join fs (d @ [c]) (te_path entry) = Some (d @ [c, ''.wh...''])"
    using assms(4,5) by (simp add: jailed_join_def dot_entry)
  have "create_dir_all mode (d @ [c]) fs = (None, fs)" for mode
    using create_dirs_real [of fs "[]" "d @ [c]" mode "[]"] assms(1) by (simp add: create_dir_all_def)
  then have "mark_whiteout up (d @ [c, ''.wh...'']) ''..'' fs = (Some NotFoundError, \<lambda>r. if strict_prefix d r then None else fs r)"
    using dot_whiteout_empties [OF assms(1-3)] by (simp add: mark_whiteout_def butlast_append)
  then show ?thesis using jail by (simp add: extract_oci_layer_with_size_def extract_entry_def assms(5) dot_entry)
qed

theorem dot_whiteout_escapes_witness:
  "host_fs [''c'', ''other''] \<noteq> None \<and> snd (extract_oci_layer_with_size sample_unpacker [''c'', ''l''] dot_layer host_fs) [''c'', ''other''] = None"
proof -
  have "real_dirs host_fs ([''c''] @ [''l''])" "is_dir (host_fs [''c''])" "nul_free ([''c''] @ [''l''])"
    "\<not> is_symlink (host_fs ([''c''] @ [''l'', ''.wh...'']))" "host_fs [''c'', ''other''] \<noteq> None" by code_simp+
  with dot_whiteout_escapes [of host_fs "[''c'']" "''l''" _ sample_unpacker "[]"] show ?thesis
    by (simp add: dot_layer_def tar_def)
qed

text \<open>A whiteout hides exactly what it names: for a marker \<open>.wh.name\<close> in a directory of the layer, with
  a plain name, the translation puts the overlayfs whiteout at the name, nothing remains below it, and
  every path that is neither below it nor a directory on the way to it is untouched.\<close>

theorem whiteout_translated:
  assumes "wf_fs fs" "real_dirs fs dest" "list_all plain_component names" "no_links fs dest names" "plain_component removed"
    "mark_whiteout up (dest @ names @ [c]) removed fs = (None, fs')"
  shows "map_option in_node (fs' (dest @ names @ [removed])) = Some CharDevice \<and>
    (strict_prefix (dest @ names @ [removed]) p \<longrightarrow> fs' p = None) \<and>
    (\<not> prefix (dest @ names @ [removed]) p \<longrightarrow> \<not> prefix p (dest @ names) \<longrightarrow> fs' p = fs p)"
proof -
  have d: "butlast (dest @ names @ [c]) = dest @ names" by (simp add: butlast_append)
  obtain e1 fs1 where mk: "create_dir_all (up_dir_mode up) (dest @ names) fs = (e1, fs1)" by fastforce
  have e1: "e1 = None" using assms(6) mk d by (cases e1) (auto simp: mark_whiteout_def)
  note dirs = create_dir_all_keeps [OF assms(1-4) mk]
  have white: "create_overlay_whiteout (dest @ names @ [removed]) fs1 = (None, fs')" using assms(6) mk d e1 by (simp add: mark_whiteout_def)
  then have "nul_free (dest @ names @ [removed])" by (auto simp: create_overlay_whiteout_def split: if_splits)
  with whiteout_result [of fs1 "dest @ names" removed] dirs e1 assms(5) white
  have "fs' = (\<lambda>r. if prefix (dest @ names @ [removed]) r then None else fs1 r)
      (dest @ names @ [removed] \<mapsto> \<lparr>in_node = CharDevice, in_mode = 0, in_opaque = False\<rparr>)" by (simp add: keeps_def)
  moreover have "fs1 p = fs p" if "\<not> prefix p (dest @ names)" using dirs(3) that by simp
  ultimately show ?thesis by (auto simp: strict_prefix_def)
qed

theorem whiteout_translated_witness:
  "snd (mark_whiteout sample_unpacker [''c'', ''l'', ''e'', ''.wh.x''] ''x'' host_fs) [''c'', ''other''] = host_fs [''c'', ''other''] \<and>
   map_option in_node (snd (mark_whiteout sample_unpacker [''c'', ''l'', ''e'', ''.wh.x''] ''x'' host_fs) [''c'', ''l'', ''e'', ''x'']) = Some CharDevice"
proof -
  obtain e fs' where run: "mark_whiteout sample_unpacker ([''c'', ''l''] @ [''e''] @ [''.wh.x'']) ''x'' host_fs = (e, fs')" by fastforce
  have "fst (mark_whiteout sample_unpacker ([''c'', ''l''] @ [''e''] @ [''.wh.x'']) ''x'' host_fs) = None" by code_simp
  then have e: "e = None" using run by simp
  have "real_dirs host_fs [''c'', ''l'']" "list_all plain_component [''e'']" "plain_component ''x''" by code_simp+
  moreover have "no_links host_fs [''c'', ''l''] [''e'']" using no_links_snoc [of host_fs "[''c'', ''l'']" "[]"] by (simp add: host_fs_def is_symlink_def)
  ultimately show ?thesis
    using whiteout_translated [OF host_fs_wf, of "[''c'', ''l'']" "[''e'']" "''x''" sample_unpacker "''.wh.x''" fs' "[''c'', ''other'']"] run e by simp
qed

text \<open>The part of unpacking a hostile layer needs: an entry that does not name an existing directory, in a
  real directory below the destination, is put there.\<close>

definition unpack_literal :: "unpacker \<Rightarrow> bool" where
  "unpack_literal up \<longleftrightarrow>
     (\<forall>entry dest fs p. jailed_join fs dest (te_path entry) = Some p \<longrightarrow> strict_prefix dest p \<longrightarrow> real_dirs fs (butlast p) \<longrightarrow>
        \<not> is_dir (fs p) \<longrightarrow>
        up_unpack up entry dest fs = (None, fs(p \<mapsto> \<lparr>in_node = entry_node entry, in_mode = te_mode entry, in_opaque = False\<rparr>)))"

definition hostile_layer :: "u32 \<Rightarrow> string \<Rightarrow> (string + tar_entry) list" where
  "hostile_layer mode target =
     [tar ''d'' DirectoryEntry None mode, tar ''d/f'' RegularEntry None 0x1A4, tar ''.wh.d'' RegularEntry None 0,
      tar ''d'' SymlinkEntry (Some (''/'' @ target)) 0x1FF]"

lemma hostile_names:
  "components ''d'' = [Normal ''d'']" "components ''d/f'' = [Normal ''d'', Normal ''f'']" "components ''.wh.d'' = [Normal ''.wh.d'']"
  "pack_sidecar_sentinel ''d'' = None" "pack_sidecar_sentinel ''d/f'' = None" "pack_sidecar_sentinel ''.wh.d'' = None"
  "marker ''d'' = NormalEntry" "marker ''d/f'' = NormalEntry" "marker ''.wh.d'' = Whiteout ''d''"
  "plain_component ''d''" "plain_component ''f''" "plain_component ''.wh.d''"
  by code_simp+

lemma literal_entry:
  assumes "unpack_literal up" "pack_sidecar_sentinel (te_path entry) = None" "marker (te_path entry) = NormalEntry"
    "te_type entry \<noteq> LinkEntry" "jailed_join (ex_fs st) dest (te_path entry) = Some p" "relax_parent p st = (None, st1)"
    "jailed_join (ex_fs st1) dest (te_path entry) = Some p" "strict_prefix dest p" "real_dirs (ex_fs st1) (butlast p)" "\<not> is_dir (ex_fs st1 p)"
  shows "extract_entry up dest (Inr entry) st = unpack_entry up dest p entry st1"
    "up_unpack up entry dest (ex_fs st1) = (None, (ex_fs st1)(p \<mapsto> \<lparr>in_node = entry_node entry, in_mode = te_mode entry, in_opaque = False\<rparr>))"
proof -
  show "up_unpack up entry dest (ex_fs st1) = (None, (ex_fs st1)(p \<mapsto> \<lparr>in_node = entry_node entry, in_mode = te_mode entry, in_opaque = False\<rparr>))"
    using assms(1,7-10) unfolding unpack_literal_def by blast
  show "extract_entry up dest (Inr entry) st = unpack_entry up dest p entry st1"
    using assms(2-6) by (simp add: extract_entry_def link_missing_def)
qed

text \<open>The three inodes the layer puts at \<open>d\<close>, and the file below it.\<close>

definition read_only :: "u32 \<Rightarrow> inode" where "read_only mode = \<lparr>in_node = DirNode, in_mode = mode, in_opaque = False\<rparr>"

lemma jail_child:
  assumes "real_dirs fs dest" "components rel = [Normal c]" "\<not> is_symlink (fs (dest @ [c]))"
  shows "jailed_join fs dest rel = Some (dest @ [c])"
proof -
  have "plain_component c" using components_plain [of c rel] assms(2) by simp
  then show ?thesis using resolve_child [OF assms(1)] assms(2,3) by (simp add: jailed_join_def lstat_def)
qed

lemma hostile_dir:
  assumes "unpack_literal up" "real_dirs fs dest" "fs dest = Some i0" "in_mode i0 AND 0xC0 = 0xC0" "fs (dest @ [''d'']) = None"
  shows "extract_entry up dest (tar ''d'' DirectoryEntry None mode) (fresh_extraction fs) =
    (None, \<lparr>ex_fs = fs(dest @ [''d''] \<mapsto> read_only mode), ex_checked = [dest], ex_relaxed = [], ex_bytes = 0\<rparr>)"
proof -
  let ?entry = "\<lparr>te_path = ''d'', te_type = DirectoryEntry, te_link = None, te_size = Some 3, te_mode = mode\<rparr>"
  let ?st1 = "(fresh_extraction fs)\<lparr>ex_checked := [dest]\<rparr>"
  have jail: "jailed_join fs dest ''d'' = Some (dest @ [''d''])" using jail_child [OF assms(2) hostile_names(1)] assms(5) by (simp add: is_symlink_def)
  have "relax_parent (dest @ [''d'']) (fresh_extraction fs) = (None, ?st1)"
    using assms(2-4) by (simp add: relax_parent_def fresh_extraction_def lstat_def resolve_real)
  note step = literal_entry [OF assms(1) _ _ _ _ this, of ?entry dest]
  have "strict_prefix dest (dest @ [''d''])" by (simp add: strict_prefix_def)
  with step jail assms(2,5) show ?thesis
    by (simp add: hostile_names tar_def fresh_extraction_def is_dir_def unpack_entry_def Let_def read_only_def entry_node_def)
qed

lemma hostile_file:
  assumes "unpack_literal up" "real_dirs fs dest" "mode AND 0xC0 \<noteq> 0xC0" "fs (dest @ [''d'', ''f'']) = None"
  defines "fs1 \<equiv> fs(dest @ [''d''] \<mapsto> read_only mode)"
  defines "fs2 \<equiv> fs1(dest @ [''d''] \<mapsto> read_only (mode OR 0x1C0))"
  shows "extract_entry up dest (tar ''d/f'' RegularEntry None 0x1A4) \<lparr>ex_fs = fs1, ex_checked = [dest], ex_relaxed = [], ex_bytes = 0\<rparr> =
    (None, \<lparr>ex_fs = fs2(dest @ [''d'', ''f''] \<mapsto> \<lparr>in_node = FileNode [], in_mode = 0x1A4, in_opaque = False\<rparr>),
            ex_checked = [dest @ [''d''], dest], ex_relaxed = [(dest @ [''d''], mode)], ex_bytes = 3\<rparr>)"
proof -
  let ?entry = "\<lparr>te_path = ''d/f'', te_type = RegularEntry, te_link = None, te_size = Some 3, te_mode = 0x1A4\<rparr>"
  let ?st = "\<lparr>ex_fs = fs1, ex_checked = [dest], ex_relaxed = [], ex_bytes = 0\<rparr>"
  let ?st1 = "\<lparr>ex_fs = fs2, ex_checked = [dest @ [''d''], dest], ex_relaxed = [(dest @ [''d''], mode)], ex_bytes = 0\<rparr>"
  have dirs: "real_dirs g (dest @ [''d''])" and jail: "jailed_join g dest ''d/f'' = Some (dest @ [''d'', ''f''])"
    if "g = fs(dest @ [''d''] \<mapsto> read_only m)" for g m
  proof -
    have "real_dirs g dest" unfolding that using assms(2) by (rule real_dirs_update) (auto dest: prefix_length_le)
    then show dirs: "real_dirs g (dest @ [''d''])" by (simp add: real_dirs_snoc hostile_names that is_dir_def read_only_def)
    have "lstat g (dest @ [''d'']) = g (dest @ [''d''])" "lstat g (dest @ [''d'', ''f'']) = g (dest @ [''d'', ''f''])"
      using resolve_real [OF dirs] resolve_child [OF dirs hostile_names(11)] by (simp_all add: lstat_def)
    then show "jailed_join g dest ''d/f'' = Some (dest @ [''d'', ''f''])"
      using assms(4) by (simp add: jailed_join_def hostile_names that is_symlink_def read_only_def)
  qed
  have fs2: "fs2 = fs(dest @ [''d''] \<mapsto> read_only (mode OR 0x1C0))" by (simp add: fs1_def fs2_def)
  have "lstat fs1 (dest @ [''d'']) = Some (read_only mode)" "resolve fs1 MAX_LINKS True [] (dest @ [''d'']) = Some (dest @ [''d''])"
    using resolve_real [OF dirs [OF fs1_def [THEN meta_eq_to_obj_eq]]] by (simp_all add: lstat_def fs1_def)
  then have "relax_parent (dest @ [''d'', ''f'']) ?st = (None, ?st1)"
    using assms(3) by (simp add: relax_parent_def set_permissions_def butlast_append read_only_def fs1_def fs2_def Let_def)
  note step = literal_entry [OF assms(1) _ _ _ _ this, of ?entry dest]
  have "strict_prefix dest (dest @ [''d'', ''f''])" by (simp add: strict_prefix_def)
  moreover have "fs2 (dest @ [''d'', ''f'']) = None" using assms(4) by (simp add: fs2)
  moreover have "jailed_join fs1 dest ''d/f'' = Some (dest @ [''d'', ''f''])" by (rule jail [of _ mode]) (simp add: fs1_def)
  ultimately show ?thesis using step jail [OF fs2] dirs [OF fs2]
    by (simp add: hostile_names tar_def is_dir_def unpack_entry_def Let_def entry_node_def butlast_append)
qed

definition device :: inode where "device = \<lparr>in_node = CharDevice, in_mode = 0, in_opaque = False\<rparr>"

lemma hostile_whiteout:
  assumes "wf_fs (ex_fs st)" "real_dirs (ex_fs st) dest" "nul_free dest" "ex_fs st (dest @ [''.wh.d'']) = None"
  shows "extract_entry up dest (tar ''.wh.d'' RegularEntry None 0) st =
    (None, st\<lparr>ex_fs := (\<lambda>r. if prefix (dest @ [''d'']) r then None else ex_fs st r)(dest @ [''d''] \<mapsto> device)\<rparr>)"
proof -
  have "jailed_join (ex_fs st) dest ''.wh.d'' = Some (dest @ [''.wh.d''])"
    using jail_child [OF assms(2) hostile_names(3)] assms(4) by (simp add: is_symlink_def)
  moreover have "create_dir_all mode dest (ex_fs st) = (None, ex_fs st)" for mode
    using create_dirs_real [of "ex_fs st" "[]" dest mode "[]"] assms(2) by (simp add: create_dir_all_def)
  moreover have "nul_free (dest @ [''d''])" using assms(3) by (simp add: nul_free_def)
  ultimately show ?thesis using whiteout_result [OF assms(1,2) hostile_names(10)]
    by (simp add: extract_entry_def tar_def hostile_names mark_whiteout_def device_def)
qed

lemma hostile_link:
  assumes "unpack_literal up" "real_dirs (ex_fs st) dest" "dest \<in> set (ex_checked st)" "ex_fs st (dest @ [''d'']) = Some device"
  shows "extract_entry up dest (tar ''d'' SymlinkEntry (Some target) 0x1FF) st =
    (None, st\<lparr>ex_fs := (ex_fs st)(dest @ [''d''] \<mapsto> \<lparr>in_node = LinkNode target, in_mode = 0x1FF, in_opaque = False\<rparr>)\<rparr>)"
proof -
  let ?entry = "\<lparr>te_path = ''d'', te_type = SymlinkEntry, te_link = Some target, te_size = Some 3, te_mode = 0x1FF\<rparr>"
  have jail: "jailed_join (ex_fs st) dest ''d'' = Some (dest @ [''d''])"
    using jail_child [OF assms(2) hostile_names(1)] assms(4) by (simp add: is_symlink_def device_def)
  have "relax_parent (dest @ [''d'']) st = (None, st)" using assms(3) by (simp add: relax_parent_def)
  note step = literal_entry [OF assms(1) _ _ _ _ this, of ?entry dest]
  have "strict_prefix dest (dest @ [''d''])" by (simp add: strict_prefix_def)
  with step jail assms(2,4) show ?thesis
    by (simp add: hostile_names tar_def is_dir_def device_def unpack_entry_def Let_def entry_node_def)
qed

lemma split_char_absolute: "c \<notin> set s \<Longrightarrow> split_char c (c # s) = [[], s]"
  by (induction s) auto

lemma resolve_absolute_link:
  assumes "real_dirs fs dest" "plain_component c" "fs (dest @ [c]) = Some i" "in_node i = LinkNode (''/'' @ target)"
    "plain_component target" "CHR ''/'' \<notin> set target" "fs [target] = Some j" "in_node j = FileNode content"
  shows "resolve fs (Suc n) True [] (dest @ [c]) = Some [target]"
  using resolve_dirs [of fs "[]" dest "Suc n" True "[c]"] assms
  by (simp add: resolve.simps(2) plain_component_def split_char_absolute starts_with_def)

lemma file_not_below:
  assumes "real_dirs fs dest" "dest \<noteq> []" "fs [c] = Some i" "in_node i = FileNode content"
  shows "\<not> prefix dest [c]"
proof
  assume "prefix dest [c]"
  then have "dest = [c]" using assms(2) by (cases dest) auto
  with assms(1,3,4) show False by (simp add: real_dirs_def is_dir_def)
qed



lemma peek_magic_stream: "peek_magic n chunks = (magic, rest) \<Longrightarrow> magic @ concat rest = concat chunks"
  by (induction n chunks arbitrary: magic rest rule: peek_magic.induct) (auto split: if_splits prod.splits)

lemma peek_magic_take: "peek_magic n chunks = (magic, rest) \<Longrightarrow> [] \<notin> set chunks \<Longrightarrow> magic = take n (concat chunks)"
  by (induction n chunks arbitrary: magic rest rule: peek_magic.induct) (auto split: if_splits prod.splits)

text \<open>The compression of a layer is recognised from its first four bytes however the source delivers
  them, one byte per read included, and looking at them loses nothing: what the chosen decoder
  reads is the stream from its first byte.\<close>

theorem sniff_independent_of_reads:
  assumes "[] \<notin> set chunks"
  shows "fst (decompress_layer_reader chunks) = sniff (take 4 (concat chunks)) \<and>
    concat (snd (decompress_layer_reader chunks)) = concat chunks"
proof -
  obtain magic rest where "peek_magic 4 chunks = (magic, rest)" by fastforce
  with peek_magic_stream [OF this] peek_magic_take [OF this assms] show ?thesis by (simp add: decompress_layer_reader_def)
qed

theorem sniff_independent_of_reads_witness:
  "fst (decompress_layer_reader [[0x28], [0xb5], [0x2f, 0xfd, 7], [8]]) = Zstd \<and>
   concat (snd (decompress_layer_reader [[0x28], [0xb5], [0x2f, 0xfd, 7], [8]])) = [0x28, 0xb5, 0x2f, 0xfd, 7, 8]"
  using sniff_independent_of_reads [of "[[0x28], [0xb5], [0x2f, 0xfd, 7], [8]]"] by (simp add: sniff_def)

end
