(* ===== verification/Memory_Guard.thy ===== *)
theory Memory_Guard
  imports Ip_Addr Machine_Ints
begin

text \<open>
  The host memory pressure guard (\<open>src/api/memory_pressure.rs\<close>): the reading of the kernel's pressure file,
  the thresholds, the decision of one tick and its effect on the machine records, and what pausing
  and resuming a machine by request write to a record (\<open>src/embedded/runtime.rs\<close>,
  \<open>src/embedded/control.rs\<close>). Floating point numbers are a parameter: their parser and their comparison.
\<close>

section \<open>Readings and thresholds\<close>

record 'f sample =
  sp_total_mib :: nat
  sp_available_mib :: nat
  sp_some_avg10 :: 'f
  sp_full_avg10 :: 'f

record 'f thresholds =
  th_reserve_mib :: nat
  th_some_avg10_pct :: 'f
  th_full_avg10_pct :: 'f

record 'f percent_ops =
  pc_parse :: "string \<Rightarrow> 'f option"
  pc_ge :: "'f \<Rightarrow> 'f \<Rightarrow> bool"
  pc_of :: "nat \<Rightarrow> 'f"

definition RESUME_COOLDOWN :: nat where "RESUME_COOLDOWN = secs 30"

fun find_avg10 :: "string list \<Rightarrow> string option" where
  "find_avg10 [] = None"
| "find_avg10 (p # ps) = (case strip_prefix ''avg10='' p of Some v \<Rightarrow> Some v | None \<Rightarrow> find_avg10 ps)"

fun pressure_lines :: "'f percent_ops \<Rightarrow> string list \<Rightarrow> 'f option \<Rightarrow> 'f option \<Rightarrow> ('f option \<times> 'f option) option" where
  "pressure_lines F [] some full = Some (some, full)"
| "pressure_lines F (line # rest) some full =
     (case split_whitespace line of
        [] \<Rightarrow> None
      | kind # parts \<Rightarrow>
          (case Option.bind (find_avg10 parts) (pc_parse F) of
             None \<Rightarrow> None
           | Some avg10 \<Rightarrow>
               if kind = ''some'' then pressure_lines F rest (Some avg10) full
               else if kind = ''full'' then pressure_lines F rest some (Some avg10)
               else pressure_lines F rest some full))"

definition parse_pressure :: "'f percent_ops \<Rightarrow> string \<Rightarrow> ('f \<times> 'f) option" where
  "parse_pressure F text =
     (case pressure_lines F (lines text) None None of
        Some (Some some, full) \<Rightarrow> Some (some, case full of Some f \<Rightarrow> f | None \<Rightarrow> pc_of F 0)
      | _ \<Rightarrow> None)"

definition read_sample :: "'f percent_ops \<Rightarrow> (nat \<times> nat) option \<Rightarrow> string option \<Rightarrow> 'f sample option" where
  "read_sample F memory pressure =
     (case memory of
        None \<Rightarrow> None
      | Some (total_bytes, available_bytes) \<Rightarrow>
          (case (case Option.bind pressure (parse_pressure F) of Some p \<Rightarrow> p | None \<Rightarrow> (pc_of F 0, pc_of F 0)) of
             (some, full) \<Rightarrow>
               Some \<lparr>sp_total_mib = total_bytes div (1024 * 1024), sp_available_mib = available_bytes div (1024 * 1024),
                     sp_some_avg10 = some, sp_full_avg10 = full\<rparr>))"

definition default_branch_reserve_mib :: "nat \<Rightarrow> nat" where
  "default_branch_reserve_mib total_mib = min (min (max (total_mib div 20) 512) 4096) (total_mib div 2)"

definition branch_admission_value :: "environment \<Rightarrow> string \<Rightarrow> nat \<Rightarrow> string + nat" where
  "branch_admission_value env name dflt =
     (case env name of
        Some value \<Rightarrow> (case parse_uint (2 ^ 64) value of Some n \<Rightarrow> Inr n | None \<Rightarrow> Inl name)
      | None \<Rightarrow> Inr dflt)"

definition branch_admission_params :: "environment \<Rightarrow> nat \<Rightarrow> string + (nat \<times> nat) option" where
  "branch_admission_params env total_mib =
     (if env ''SMOLVM_BRANCH_MEMORY_ADMISSION'' = Some ''0'' then Inr None
      else case branch_admission_value env ''SMOLVM_HOST_MEMORY_RESERVE_MIB'' (default_branch_reserve_mib total_mib) of
             Inl e \<Rightarrow> Inl e
           | Inr reserve \<Rightarrow>
               (case branch_admission_value env ''SMOLVM_BRANCH_ADMISSION_MIB_PER_CHILD'' 64 of
                  Inl e \<Rightarrow> Inl e
                | Inr overhead \<Rightarrow> Inr (Some (reserve, overhead))))"

definition env_f64 :: "'f percent_ops \<Rightarrow> environment \<Rightarrow> string \<Rightarrow> nat \<Rightarrow> 'f" where
  "env_f64 F env name dflt = (case Option.bind (env name) (pc_parse F) of Some v \<Rightarrow> v | None \<Rightarrow> pc_of F dflt)"

definition thresholds_for :: "'f percent_ops \<Rightarrow> environment \<Rightarrow> nat \<Rightarrow> 'f thresholds option" where
  "thresholds_for F env total_mib =
     (if env ''SMOLVM_MEMORY_PRESSURE_GUARD'' = Some ''0'' then None
      else
        case (case Option.bind (env ''SMOLVM_MEMORY_PRESSURE_RESERVE_MIB'') (parse_uint (2 ^ 64)) of
                Some v \<Rightarrow> Some v
              | None \<Rightarrow> (case branch_admission_params env total_mib of Inr (Some (reserve, _)) \<Rightarrow> Some reserve | _ \<Rightarrow> None)) of
          None \<Rightarrow> None
        | Some reserve \<Rightarrow>
            Some \<lparr>th_reserve_mib = reserve,
                  th_some_avg10_pct = env_f64 F env ''SMOLVM_MEMORY_PRESSURE_SOME_PCT'' 20,
                  th_full_avg10_pct = env_f64 F env ''SMOLVM_MEMORY_PRESSURE_FULL_PCT'' 5\<rparr>)"

section \<open>The decision\<close>

record candidate =
  cd_name :: string
  cd_created_at :: nat
  cd_mem_mib :: nat
  cd_running_clone :: bool
  cd_paused_by_guard :: bool
  cd_held :: bool

datatype guard_decision = PauseVm string | ResumeVm string | HoldVm

text \<open>Names are compared byte by byte; the key of a machine is its creation time, then its name.\<close>

fun str_le :: "string \<Rightarrow> string \<Rightarrow> bool" where
  "str_le [] t = True"
| "str_le (a # s) [] = False"
| "str_le (a # s) (b # t) \<longleftrightarrow> (of_char a :: nat) < of_char b \<or> a = b \<and> str_le s t"

definition age_le :: "candidate \<Rightarrow> candidate \<Rightarrow> bool" where
  "age_le c d \<longleftrightarrow> cd_created_at c < cd_created_at d \<or> cd_created_at c = cd_created_at d \<and> str_le (cd_name c) (cd_name d)"

fun newest :: "candidate list \<Rightarrow> candidate option" where
  "newest [] = None"
| "newest (c # cs) = (case newest cs of None \<Rightarrow> Some c | Some d \<Rightarrow> if age_le c d then Some d else Some c)"

fun oldest :: "candidate list \<Rightarrow> candidate option" where
  "oldest [] = None"
| "oldest (c # cs) = (case oldest cs of None \<Rightarrow> Some c | Some d \<Rightarrow> if age_le c d then Some c else Some d)"

definition under_pressure :: "'f percent_ops \<Rightarrow> 'f sample \<Rightarrow> 'f thresholds \<Rightarrow> bool" where
  "under_pressure F s t \<longleftrightarrow>
     sp_available_mib s < th_reserve_mib t div 2 \<or>
     sp_available_mib s < th_reserve_mib t \<and>
       (pc_ge F (sp_some_avg10 s) (th_some_avg10_pct t) \<or> pc_ge F (sp_full_avg10 s) (th_full_avg10_pct t))"

definition decide :: "'f percent_ops \<Rightarrow> 'f sample \<Rightarrow> 'f thresholds \<Rightarrow> candidate list \<Rightarrow> guard_decision" where
  "decide F s t candidates =
     (if under_pressure F s t then
        (case newest (filter (\<lambda>c. cd_running_clone c \<and> \<not> cd_held c) candidates) of
           Some c \<Rightarrow> PauseVm (cd_name c)
         | None \<Rightarrow> HoldVm)
      else
        let margin = sp_available_mib s - u64_mul (th_reserve_mib t) 2
        in if margin = 0 then HoldVm
           else case oldest (filter (\<lambda>c. cd_paused_by_guard c \<and> cd_mem_mib c \<le> margin) candidates) of
                  Some c \<Rightarrow> ResumeVm (cd_name c)
                | None \<Rightarrow> HoldVm)"

section \<open>Machine records and a tick\<close>

datatype record_state = Created | Running | Stopped | Paused | Pausing | Failed | Unreachable | Frozen

text \<open>The fields of a machine record the guard reads or writes; \<open>gv_alive\<close> is whether its process runs.\<close>

record guarded_vm =
  gv_name :: string
  gv_created_at :: nat
  gv_mem :: nat
  gv_golden :: "string option"
  gv_forkable :: bool
  gv_state :: record_state
  gv_alive :: bool
  gv_pause_reason :: "string option"
  gv_held :: bool

definition candidate_of :: "guarded_vm \<Rightarrow> candidate" where
  "candidate_of v =
     \<lparr>cd_name = gv_name v, cd_created_at = gv_created_at v, cd_mem_mib = gv_mem v,
      cd_running_clone = (gv_golden v \<noteq> None \<and> \<not> gv_forkable v \<and> gv_state v = Running \<and> gv_alive v),
      cd_paused_by_guard = (gv_pause_reason v \<noteq> None \<and> gv_state v = Paused), cd_held = gv_held v\<rparr>"

text \<open>What a completed pause and a completed resume write to the record, whoever asked for them.\<close>

definition pause_saved :: "guarded_vm \<Rightarrow> guarded_vm" where
  "pause_saved v = v\<lparr>gv_state := Paused, gv_alive := False\<rparr>"

definition resume_saved :: "guarded_vm \<Rightarrow> guarded_vm" where
  "resume_saved v = v\<lparr>gv_state := Running, gv_alive := True\<rparr>"

text \<open>The guard's calls. The outcome of the runtime is \<open>None\<close> for success and otherwise the record a failure
  leaves; \<open>saved\<close> is whether the later write of the reason succeeds.\<close>

definition guard_pause :: "guarded_vm option \<Rightarrow> bool \<Rightarrow> string \<Rightarrow> guarded_vm \<Rightarrow> guarded_vm" where
  "guard_pause outcome saved why v =
     (case outcome of
        Some left_over \<Rightarrow> left_over
      | None \<Rightarrow> if saved then (pause_saved v)\<lparr>gv_pause_reason := Some why\<rparr> else pause_saved v)"

definition guard_resume :: "guarded_vm option \<Rightarrow> bool \<Rightarrow> guarded_vm \<Rightarrow> bool \<times> guarded_vm" where
  "guard_resume outcome saved v =
     (case outcome of
        Some left_over \<Rightarrow> (False, left_over)
      | None \<Rightarrow> if saved then (True, (resume_saved v)\<lparr>gv_pause_reason := None\<rparr>) else (False, resume_saved v))"

record guard_state =
  gs_vms :: "guarded_vm list"
  gs_last_resume :: "instant option"

definition guard_tick ::
  "'f percent_ops \<Rightarrow> 'f sample option \<Rightarrow> ('f sample \<Rightarrow> 'f thresholds option) \<Rightarrow> instant \<Rightarrow> instant \<Rightarrow>
   (guarded_vm \<Rightarrow> guarded_vm option) \<Rightarrow> bool \<Rightarrow> string \<Rightarrow> guard_state \<Rightarrow> guard_state" where
  "guard_tick F reading limits now done_at outcome saved why st =
     (case reading of
        None \<Rightarrow> st
      | Some s \<Rightarrow>
     (case limits s of
        None \<Rightarrow> st
      | Some t \<Rightarrow>
     (case decide F s t (map candidate_of (gs_vms st)) of
        PauseVm name \<Rightarrow>
          st\<lparr>gs_vms := map (\<lambda>v. if gv_name v = name then guard_pause (outcome v) saved why v else v) (gs_vms st)\<rparr>
      | ResumeVm name \<Rightarrow>
          if (case gs_last_resume st of None \<Rightarrow> True | Some at \<Rightarrow> RESUME_COOLDOWN \<le> now - at) then
            st\<lparr>gs_vms := map (\<lambda>v. if gv_name v = name then snd (guard_resume (outcome v) saved v) else v) (gs_vms st),
               gs_last_resume :=
                 (if list_ex (\<lambda>v. gv_name v = name \<and> fst (guard_resume (outcome v) saved v)) (gs_vms st)
                  then Some done_at else gs_last_resume st)\<rparr>
          else st
      | HoldVm \<Rightarrow> st)))"

section \<open>Choosing by age\<close>

lemma str_le_refl [simp]: "str_le s s"
  by (induction s) auto

lemma str_le_trans: "str_le s t \<Longrightarrow> str_le t u \<Longrightarrow> str_le s u"
proof (induction s arbitrary: t u)
  case (Cons a s)
  then show ?case by (cases t; cases u) (auto intro: Cons.IH)
qed simp

lemma str_le_total: "str_le s t \<or> str_le t s"
proof (induction s arbitrary: t)
  case (Cons a s)
  show ?case
  proof (cases t)
    case (Cons b t')
    have "(of_char a :: nat) < of_char b \<or> a = b \<or> (of_char b :: nat) < of_char a" by (metis linorder_neqE_nat of_char_eq_iff)
    with Cons Cons.IH [of t'] show ?thesis by auto
  qed simp
qed simp

lemma age_le_refl [simp]: "age_le c c"
  by (simp add: age_le_def)

lemma age_le_total: "age_le c d \<or> age_le d c"
  using str_le_total by (auto simp: age_le_def)

lemma age_le_trans: "age_le c d \<Longrightarrow> age_le d e \<Longrightarrow> age_le c e"
  by (auto simp: age_le_def intro: str_le_trans)

lemma newest_None [simp]: "newest cs = None \<longleftrightarrow> cs = []"
  by (cases cs) (auto split: option.splits)

lemma oldest_None [simp]: "oldest cs = None \<longleftrightarrow> cs = []"
  by (cases cs) (auto split: option.splits)

lemma newest_greatest: "newest cs = Some c \<Longrightarrow> c \<in> set cs \<and> (\<forall>d\<in>set cs. age_le d c)"
proof (induction cs arbitrary: c)
  case (Cons a cs)
  then show ?case
  proof (cases "newest cs")
    case None
    then have "cs = []" by simp
    with Cons.prems show ?thesis by (simp add: age_le_def)
  next
    case (Some d)
    with Cons.IH [of d] have d: "d \<in> set cs" "\<forall>e\<in>set cs. age_le e d" by auto
    show ?thesis
    proof (cases "age_le a d")
      case True
      with Some d Cons.prems show ?thesis by auto
    next
      case False
      then have "age_le d a" using age_le_total by blast
      with False Some d Cons.prems show ?thesis by (auto intro: age_le_trans)
    qed
  qed
qed simp

lemma oldest_least: "oldest cs = Some c \<Longrightarrow> c \<in> set cs \<and> (\<forall>d\<in>set cs. age_le c d)"
proof (induction cs arbitrary: c)
  case (Cons a cs)
  then show ?case
  proof (cases "oldest cs")
    case None
    then have "cs = []" by simp
    with Cons.prems show ?thesis by (simp add: age_le_def)
  next
    case (Some d)
    with Cons.IH [of d] have d: "d \<in> set cs" "\<forall>e\<in>set cs. age_le d e" by auto
    show ?thesis
    proof (cases "age_le a d")
      case True
      with Some d Cons.prems show ?thesis by (auto intro: age_le_trans)
    next
      case False
      then have "age_le d a" using age_le_total by blast
      with False Some d Cons.prems show ?thesis by auto
    qed
  qed
qed simp


section \<open>Properties\<close>

lemma decide_pause:
  assumes "decide F s t cs = PauseVm name"
  shows "\<exists>c\<in>set cs. cd_name c = name \<and> cd_running_clone c \<and> \<not> cd_held c"
proof -
  obtain c where "newest (filter (\<lambda>c. cd_running_clone c \<and> \<not> cd_held c) cs) = Some c" "cd_name c = name"
    using assms by (auto simp: decide_def Let_def split: if_splits option.splits)
  with newest_greatest [OF this(1)] show ?thesis by auto
qed

lemma decide_resume:
  assumes "decide F s t cs = ResumeVm name"
  shows "\<exists>c\<in>set cs. cd_name c = name \<and> cd_paused_by_guard c \<and> cd_mem_mib c \<le> sp_available_mib s - u64_mul (th_reserve_mib t) 2 \<and>
    u64_mul (th_reserve_mib t) 2 < sp_available_mib s"
proof -
  obtain c where "oldest (filter (\<lambda>c. cd_paused_by_guard c \<and> cd_mem_mib c \<le> sp_available_mib s - u64_mul (th_reserve_mib t) 2) cs) = Some c"
      "cd_name c = name" "u64_mul (th_reserve_mib t) 2 < sp_available_mib s"
    using assms by (auto simp: decide_def Let_def split: if_splits option.splits)
  with oldest_least [OF this(1)] show ?thesis by auto
qed

text \<open>A host short of memory is relieved: under pressure, when some running branch child is not a held
  slot, the guard pauses one of them, and no other eligible child is newer.\<close>

theorem guard_pauses_newest:
  assumes "under_pressure F s t" "list_ex (\<lambda>c. cd_running_clone c \<and> \<not> cd_held c) cs"
  shows "\<exists>c. c \<in> set cs \<and> cd_running_clone c \<and> \<not> cd_held c \<and> decide F s t cs = PauseVm (cd_name c) \<and>
    list_all (\<lambda>d. cd_running_clone d \<and> \<not> cd_held d \<longrightarrow> age_le d c) cs"
proof -
  let ?eligible = "filter (\<lambda>c. cd_running_clone c \<and> \<not> cd_held c) cs"
  have "?eligible \<noteq> []" using assms(2) by (auto simp: list_ex_iff filter_empty_conv)
  then obtain c where c: "newest ?eligible = Some c" by (cases "newest ?eligible") auto
  with newest_greatest [OF c] assms(1) show ?thesis by (auto simp: decide_def list_all_iff)
qed

text \<open>The guard does not flap: it resumes only a machine recorded as paused by it, and even if that
  machine takes all of its configured memory at once, the host is not under pressure afterwards, whatever
  the kernel's stall percentages are.\<close>

theorem guard_resume_fits:
  assumes "decide F s t cs = ResumeVm name" "sp_available_mib s \<le> U64_MAX"
  shows "\<exists>c. c \<in> set cs \<and> cd_name c = name \<and> cd_paused_by_guard c \<and>
    (\<forall>s'. sp_available_mib s - cd_mem_mib c \<le> sp_available_mib s' \<longrightarrow> \<not> under_pressure F s' t)"
proof -
  obtain c where c: "c \<in> set cs" "cd_name c = name" "cd_paused_by_guard c"
      "cd_mem_mib c \<le> sp_available_mib s - u64_mul (th_reserve_mib t) 2" "u64_mul (th_reserve_mib t) 2 < sp_available_mib s"
    using decide_resume [OF assms(1)] by blast
  have "u64_mul (th_reserve_mib t) 2 = th_reserve_mib t * 2" using c(5) assms(2) by (simp add: u64_mul_def min_def split: if_splits)
  then have "th_reserve_mib t \<le> sp_available_mib s - cd_mem_mib c" using c(4,5) by simp
  then have "\<not> under_pressure F s' t" if "sp_available_mib s - cd_mem_mib c \<le> sp_available_mib s'" for s'
    using that by (simp add: under_pressure_def)
  with c(1-3) show ?thesis by blast
qed

lemma spared:
  assumes "distinct (map gv_name vms)" "v \<in> set vms" "c \<in> set (map candidate_of vms)" "cd_name c = gv_name v"
  shows "c = candidate_of v"
proof -
  obtain w where w: "w \<in> set vms" "c = candidate_of w" using assms(3) by auto
  then have "gv_name w = gv_name v" using assms(4) by (simp add: candidate_of_def)
  then have "w = v" using assms(1,2) w(1) by (auto simp: distinct_map inj_on_def)
  with w(2) show ?thesis by simp
qed

text \<open>A tick leaves alone every machine that is neither a running branch child outside the held slots nor
  recorded as paused by the guard: sources, held slots, stopped machines, and paused machines
  without a recorded reason keep their record, whatever the readings and the outcome of the calls.\<close>

theorem guard_spares:
  assumes "distinct (map gv_name (gs_vms st))" "v \<in> set (gs_vms st)"
    "\<not> cd_running_clone (candidate_of v) \<or> gv_held v" "gv_pause_reason v = None \<or> gv_state v \<noteq> Paused"
  shows "v \<in> set (gs_vms (guard_tick F reading limits now done_at outcome saved why st))"
proof -
  let ?cs = "map candidate_of (gs_vms st)"
  have pause: "name \<noteq> gv_name v" if d: "decide F s t ?cs = PauseVm name" for s t name
  proof
    assume n: "name = gv_name v"
    obtain c where c: "c \<in> set ?cs" "cd_name c = name" "cd_running_clone c" "\<not> cd_held c" using decide_pause [OF d] by blast
    then have "c = candidate_of v" using spared [OF assms(1,2) c(1)] n by simp
    with c(3,4) assms(3) show False by (simp add: candidate_of_def)
  qed
  have resume: "name \<noteq> gv_name v" if d: "decide F s t ?cs = ResumeVm name" for s t name
  proof
    assume n: "name = gv_name v"
    obtain c where c: "c \<in> set ?cs" "cd_name c = name" "cd_paused_by_guard c" using decide_resume [OF d] by blast
    then have "c = candidate_of v" using spared [OF assms(1,2) c(1)] n by simp
    with c(3) assms(4) show False by (simp add: candidate_of_def)
  qed
  show ?thesis using assms(2) pause resume
    by (force simp: guard_tick_def image_iff split: option.split guard_decision.split)
qed

text \<open>C32: A pause by the user can be undone by the guard: after the guard paused a machine and the user resumed
  it and paused it again, the record still carries the guard's reason, and the next tick with enough free
  memory resumes the machine.\<close>

theorem guard_undoes_user_pause:
  assumes "\<not> under_pressure F s t" "limits s = Some t" "u64_mul (th_reserve_mib t) 2 < sp_available_mib s"
    "gv_mem v \<le> sp_available_mib s - u64_mul (th_reserve_mib t) 2"
    "user_paused = pause_saved (resume_saved (guard_pause None True why v))" "outcome user_paused = None"
  shows "gs_vms (guard_tick F (Some s) limits now done_at outcome True why' \<lparr>gs_vms = [user_paused], gs_last_resume = None\<rparr>) =
    [resume_saved (v\<lparr>gv_pause_reason := None\<rparr>)]"
  using assms
  by (simp add: guard_tick_def decide_def candidate_of_def pause_saved_def resume_saved_def guard_pause_def guard_resume_def Let_def)

section \<open>A sample host\<close>

definition whole_percents :: "nat percent_ops" where
  "whole_percents = \<lparr>pc_parse = parse_uint (2 ^ 64), pc_ge = (\<lambda>a b. b \<le> a), pc_of = id\<rparr>"

definition host_reading :: "nat \<Rightarrow> nat sample" where
  "host_reading available = \<lparr>sp_total_mib = 65536, sp_available_mib = available, sp_some_avg10 = 30, sp_full_avg10 = 0\<rparr>"

definition host_limits :: "nat sample \<Rightarrow> nat thresholds option" where
  "host_limits s = thresholds_for whole_percents (\<lambda>_. None) (sp_total_mib s)"

definition child :: "string \<Rightarrow> nat \<Rightarrow> guarded_vm" where
  "child name created =
     \<lparr>gv_name = name, gv_created_at = created, gv_mem = 1024, gv_golden = Some ''g'', gv_forkable = False, gv_state = Running,
      gv_alive = True, gv_pause_reason = None, gv_held = False\<rparr>"

definition host_vms :: "guarded_vm list" where
  "host_vms = [child ''a'' 1, child ''b'' 2, (child ''g'' 0)\<lparr>gv_golden := None, gv_forkable := True\<rparr>,
     (child ''h'' 3)\<lparr>gv_held := True\<rparr>, guard_pause None True ''short'' (child ''p'' 0)]"

lemma host_limits_value:
  "host_limits (host_reading n) = Some \<lparr>th_reserve_mib = 3276, th_some_avg10_pct = 20, th_full_avg10_pct = 5\<rparr>"
  by (simp add: host_limits_def host_reading_def thresholds_for_def branch_admission_params_def branch_admission_value_def
      default_branch_reserve_mib_def env_f64_def whole_percents_def)

theorem guard_pauses_newest_witness:
  "\<exists>c. decide whole_percents (host_reading 2000) (the (host_limits (host_reading 2000))) (map candidate_of host_vms) = PauseVm (cd_name c) \<and>
     list_all (\<lambda>d. cd_running_clone d \<and> \<not> cd_held d \<longrightarrow> age_le d c) (map candidate_of host_vms)"
proof -
  have "under_pressure whole_percents (host_reading 2000) (the (host_limits (host_reading 2000)))"
    "list_ex (\<lambda>c. cd_running_clone c \<and> \<not> cd_held c) (map candidate_of host_vms)"
    unfolding host_limits_value option.sel
    by (simp_all add: under_pressure_def whole_percents_def host_reading_def host_vms_def child_def candidate_of_def)
  from guard_pauses_newest [OF this] show ?thesis by blast
qed

theorem guard_resume_fits_witness:
  "\<exists>c. c \<in> set (map candidate_of host_vms) \<and> cd_name c = ''p'' \<and> cd_paused_by_guard c \<and>
     \<not> under_pressure whole_percents (host_reading (9000 - cd_mem_mib c)) (the (host_limits (host_reading 9000)))"
proof -
  have "decide whole_percents (host_reading 9000) (the (host_limits (host_reading 9000))) (map candidate_of host_vms) = ResumeVm ''p''"
    unfolding host_limits_value option.sel
    by (simp add: decide_def under_pressure_def whole_percents_def host_reading_def host_vms_def child_def
        candidate_of_def guard_pause_def pause_saved_def u64_mul_def U64_MAX_def)
  moreover have "sp_available_mib (host_reading 9000) \<le> U64_MAX" by (simp add: host_reading_def U64_MAX_def)
  ultimately obtain c where c: "c \<in> set (map candidate_of host_vms)" "cd_name c = ''p''" "cd_paused_by_guard c"
      "\<forall>s'. sp_available_mib (host_reading 9000) - cd_mem_mib c \<le> sp_available_mib s' \<longrightarrow>
         \<not> under_pressure whole_percents s' (the (host_limits (host_reading 9000)))"
    using guard_resume_fits [of whole_percents "host_reading 9000" "the (host_limits (host_reading 9000))" "map candidate_of host_vms" "''p''"] by blast
  then have "\<not> under_pressure whole_percents (host_reading (9000 - cd_mem_mib c)) (the (host_limits (host_reading 9000)))"
    by (simp add: host_reading_def)
  with c(1-3) show ?thesis by blast
qed

theorem guard_spares_witness:
  "(child ''h'' 3)\<lparr>gv_held := True\<rparr> \<in> set (gs_vms (guard_tick whole_percents (Some (host_reading 2000)) host_limits 0 0 (\<lambda>_. None) True ''short''
     \<lparr>gs_vms = host_vms, gs_last_resume = None\<rparr>))"
  by (rule guard_spares) (simp_all add: host_vms_def child_def guard_pause_def pause_saved_def)

theorem guard_undoes_user_pause_witness:
  "gs_vms (guard_tick whole_percents (Some (host_reading 9000)) host_limits 0 0 (\<lambda>_. None) True ''short''
      \<lparr>gs_vms = [pause_saved (resume_saved (guard_pause None True ''short'' (child ''a'' 1)))], gs_last_resume = None\<rparr>) =
   [resume_saved ((child ''a'' 1)\<lparr>gv_pause_reason := None\<rparr>)]"
  by (rule guard_undoes_user_pause [where limits = host_limits and s = "host_reading 9000" and outcome = "\<lambda>_. None", OF _ host_limits_value _ _ refl])
    (simp_all add: under_pressure_def host_reading_def child_def u64_mul_def U64_MAX_def)

end
