(* ===== verification/Pin_Lock.thy ===== *)
theory Pin_Lock
  imports Transition
begin

text \<open>
  The lock protocol of one stored checkpoint (\<open>src/checkpoint_retention.rs\<close>): \<open>pin\<close> takes a shared lock on the
  checkpoint's pin file, \<open>try_claim\<close> an exclusive one without waiting, and each then checks with \<open>still_linked\<close>
  that the locked file is still the one at the path, because a forget unlinks the file it holds. Processes run
  concurrently, each at one point of one of the two functions; a step is one system call. Inodes of open files are
  not reused.
\<close>

datatype phase =
    Idle
  | PinOpened nat | PinLocked nat | Pinned nat
  | ClaimOpened nat | ClaimLocked nat | Claimed nat | Forgetting nat | Unlinked nat

record pin_state =
  pin_link :: "nat option"
  pin_next :: nat
  pin_procs :: "nat \<Rightarrow> phase"
  pin_present :: bool

fun shared_lock :: "phase \<Rightarrow> nat option" where
  "shared_lock (PinLocked i) = Some i"
| "shared_lock (Pinned i) = Some i"
| "shared_lock _ = None"

fun exclusive_lock :: "phase \<Rightarrow> nat option" where
  "exclusive_lock (ClaimLocked i) = Some i"
| "exclusive_lock (Claimed i) = Some i"
| "exclusive_lock (Forgetting i) = Some i"
| "exclusive_lock (Unlinked i) = Some i"
| "exclusive_lock _ = None"

text \<open>\<open>open_pin\<close>: the file at the path, created if there is none.\<close>

definition open_pin :: "pin_state \<Rightarrow> nat \<times> pin_state" where
  "open_pin s =
     (case pin_link s of
        Some i \<Rightarrow> (i, s)
      | None \<Rightarrow> (pin_next s, s\<lparr>pin_link := Some (pin_next s), pin_next := Suc (pin_next s)\<rparr>))"

definition still_linked :: "nat \<Rightarrow> pin_state \<Rightarrow> bool" where
  "still_linked i s \<longleftrightarrow> pin_link s = Some i"

definition goto :: "nat \<Rightarrow> phase \<Rightarrow> pin_state \<Rightarrow> pin_state" where
  "goto p ph s = s\<lparr>pin_procs := (pin_procs s)(p := ph)\<rparr>"

inductive pin_step :: "pin_state \<Rightarrow> pin_state \<Rightarrow> bool" where
  pin_open: "pin_procs s p = Idle \<Longrightarrow> open_pin s = (i, s') \<Longrightarrow> pin_step s (goto p (PinOpened i) s')"
| pin_lock: "pin_procs s p = PinOpened i \<Longrightarrow> \<forall>q. exclusive_lock (pin_procs s q) \<noteq> Some i \<Longrightarrow> pin_step s (goto p (PinLocked i) s)"
| pin_taken: "pin_procs s p = PinLocked i \<Longrightarrow> still_linked i s \<Longrightarrow> pin_step s (goto p (Pinned i) s)"
| pin_retry: "pin_procs s p = PinLocked i \<Longrightarrow> \<not> still_linked i s \<Longrightarrow> pin_step s (goto p Idle s)"
| pin_drop: "pin_procs s p = Pinned i \<Longrightarrow> pin_step s (goto p Idle s)"
| claim_open: "pin_procs s p = Idle \<Longrightarrow> open_pin s = (i, s') \<Longrightarrow> pin_step s (goto p (ClaimOpened i) s')"
| claim_lock: "pin_procs s p = ClaimOpened i \<Longrightarrow>
    \<forall>q. shared_lock (pin_procs s q) \<noteq> Some i \<and> exclusive_lock (pin_procs s q) \<noteq> Some i \<Longrightarrow> pin_step s (goto p (ClaimLocked i) s)"
| claim_blocked: "pin_procs s p = ClaimOpened i \<Longrightarrow>
    shared_lock (pin_procs s q) = Some i \<or> exclusive_lock (pin_procs s q) = Some i \<Longrightarrow> pin_step s (goto p Idle s)"
| claim_taken: "pin_procs s p = ClaimLocked i \<Longrightarrow> still_linked i s \<Longrightarrow> pin_step s (goto p (Claimed i) s)"
| claim_retry: "pin_procs s p = ClaimLocked i \<Longrightarrow> \<not> still_linked i s \<Longrightarrow> pin_step s (goto p Idle s)"
| claim_kept: "pin_procs s p = Claimed i \<Longrightarrow> pin_step s (goto p Idle s)"
| forget_remove: "pin_procs s p = Claimed i \<Longrightarrow> pin_step s (goto p (Forgetting i) (s\<lparr>pin_present := False\<rparr>))"
| sweep_stale: "pin_procs s p = Claimed i \<Longrightarrow> pin_step s (goto p (Unlinked i) (s\<lparr>pin_link := None\<rparr>))"
| forget_unlink: "pin_procs s p = Forgetting i \<Longrightarrow> pin_step s (goto p (Unlinked i) (s\<lparr>pin_link := None\<rparr>))"
| claim_drop: "pin_procs s p = Unlinked i \<Longrightarrow> pin_step s (goto p Idle s)"
| publish: "pin_step s (s\<lparr>pin_present := True\<rparr>)"

definition pin_initial :: "pin_state \<Rightarrow> bool" where
  "pin_initial s \<longleftrightarrow> (\<forall>p. pin_procs s p = Idle)"

text \<open>A file with an exclusive lock has no other lock, and a lock that was checked is on the linked file.\<close>

definition pin_ok :: "pin_state \<Rightarrow> bool" where
  "pin_ok s \<longleftrightarrow>
     (\<forall>p q i. exclusive_lock (pin_procs s p) = Some i \<longrightarrow> shared_lock (pin_procs s q) \<noteq> Some i) \<and>
     (\<forall>p q i. exclusive_lock (pin_procs s p) = Some i \<longrightarrow> exclusive_lock (pin_procs s q) = Some i \<longrightarrow> p = q) \<and>
     (\<forall>p i. pin_procs s p = Pinned i \<or> pin_procs s p = Claimed i \<or> pin_procs s p = Forgetting i \<longrightarrow> pin_link s = Some i)"

lemma open_pin_same: "open_pin s = (i, s') \<Longrightarrow> pin_procs s' = pin_procs s \<and> pin_link s' = Some i \<and> (\<forall>j. pin_link s = Some j \<longrightarrow> j = i)"
  by (auto simp: open_pin_def split: option.splits)

lemma pin_okI:
  assumes "\<And>p q i. exclusive_lock (pin_procs s p) = Some i \<Longrightarrow> shared_lock (pin_procs s q) = Some i \<Longrightarrow> False"
    "\<And>p q i. exclusive_lock (pin_procs s p) = Some i \<Longrightarrow> exclusive_lock (pin_procs s q) = Some i \<Longrightarrow> p = q"
    "\<And>p i. pin_procs s p = Pinned i \<or> pin_procs s p = Claimed i \<or> pin_procs s p = Forgetting i \<Longrightarrow> pin_link s = Some i"
  shows "pin_ok s"
  using assms unfolding pin_ok_def by blast

lemma pin_okD:
  assumes "pin_ok s"
  shows "exclusive_lock (pin_procs s p) = Some i \<Longrightarrow> shared_lock (pin_procs s q) \<noteq> Some i"
    "exclusive_lock (pin_procs s p) = Some i \<Longrightarrow> exclusive_lock (pin_procs s q) = Some i \<Longrightarrow> p = q"
    "pin_procs s p = Pinned i \<or> pin_procs s p = Claimed i \<or> pin_procs s p = Forgetting i \<Longrightarrow> pin_link s = Some i"
  using assms unfolding pin_ok_def by blast+

text \<open>A process that moves without taking a lock and without touching the link keeps the invariant.\<close>

lemma pin_ok_goto:
  assumes "pin_ok s" "pin_link s' = pin_link s" "pin_procs s' = pin_procs s"
    "shared_lock ph = None \<or> shared_lock ph = shared_lock (pin_procs s p)"
    "exclusive_lock ph = None \<or> exclusive_lock ph = exclusive_lock (pin_procs s p)"
    "\<And>i. ph = Pinned i \<or> ph = Claimed i \<or> ph = Forgetting i \<Longrightarrow> pin_link s = Some i"
  shows "pin_ok (goto p ph s')"
proof (rule pin_okI)
  note ok = pin_okD [OF assms(1)]
  have procs: "pin_procs (goto p ph s') q = (if q = p then ph else pin_procs s q)" for q using assms(3) by (simp add: goto_def)
  have shared: "shared_lock (pin_procs (goto p ph s') q) = Some i \<Longrightarrow> shared_lock (pin_procs s q) = Some i"
    and excl: "exclusive_lock (pin_procs (goto p ph s') q) = Some i \<Longrightarrow> exclusive_lock (pin_procs s q) = Some i" for q i
    using assms(4,5) by (auto simp: procs split: if_splits)
  fix r q i
  show False if "exclusive_lock (pin_procs (goto p ph s') r) = Some i" "shared_lock (pin_procs (goto p ph s') q) = Some i"
    using that shared excl ok(1) by blast
  show "r = q" if "exclusive_lock (pin_procs (goto p ph s') r) = Some i" "exclusive_lock (pin_procs (goto p ph s') q) = Some i"
    using that excl ok(2) by blast
  show "pin_link (goto p ph s') = Some i"
    if "pin_procs (goto p ph s') r = Pinned i \<or> pin_procs (goto p ph s') r = Claimed i \<or> pin_procs (goto p ph s') r = Forgetting i"
    using that assms(2,3,6) ok(3) [of r i] by (auto simp: procs goto_def split: if_splits)
qed

lemma pin_ok_open:
  assumes "pin_ok s" "open_pin s = (i, s')"
  shows "pin_ok s'"
proof (rule pin_okI)
  note ok = pin_okD [OF assms(1)]
  note same = open_pin_same [OF assms(2)]
  fix p q j
  show False if "exclusive_lock (pin_procs s' p) = Some j" "shared_lock (pin_procs s' q) = Some j" using that ok(1) same by metis
  show "p = q" if "exclusive_lock (pin_procs s' p) = Some j" "exclusive_lock (pin_procs s' q) = Some j" using that ok(2) same by metis
  show "pin_link s' = Some j" if "pin_procs s' p = Pinned j \<or> pin_procs s' p = Claimed j \<or> pin_procs s' p = Forgetting j"
    using that ok(3) same by metis
qed

lemma pin_ok_unlink:
  assumes "pin_ok s" "pin_procs s p = Claimed i \<or> pin_procs s p = Forgetting i"
  shows "pin_ok (goto p (Unlinked i) (s\<lparr>pin_link := None\<rparr>))"
proof (rule pin_okI)
  note ok = pin_okD [OF assms(1)]
  have link: "pin_link s = Some i" and excl: "exclusive_lock (pin_procs s p) = Some i" using assms(2) ok(3) by auto
  let ?s = "goto p (Unlinked i) (s\<lparr>pin_link := None\<rparr>)"
  have procs: "pin_procs ?s q = (if q = p then Unlinked i else pin_procs s q)" for q by (simp add: goto_def)
  have same: "exclusive_lock (pin_procs ?s q) = exclusive_lock (pin_procs s q)" for q using excl by (auto simp: procs)
  have shared: "shared_lock (pin_procs ?s q) = Some j \<Longrightarrow> shared_lock (pin_procs s q) = Some j" for q j by (auto simp: procs split: if_splits)
  fix r q j
  show False if "exclusive_lock (pin_procs ?s r) = Some j" "shared_lock (pin_procs ?s q) = Some j" using that same shared ok(1) by metis
  show "r = q" if "exclusive_lock (pin_procs ?s r) = Some j" "exclusive_lock (pin_procs ?s q) = Some j" using that same ok(2) by metis
  show "pin_link ?s = Some j" if checked: "pin_procs ?s r = Pinned j \<or> pin_procs ?s r = Claimed j \<or> pin_procs ?s r = Forgetting j"
  proof -
    have r: "r \<noteq> p" "pin_procs s r = Pinned j \<or> pin_procs s r = Claimed j \<or> pin_procs s r = Forgetting j"
      using checked by (auto simp: procs split: if_splits)
    then have "j = i" using ok(3) link by fastforce
    with r ok(1) [OF excl, of r] ok(2) [OF excl, of r] show ?thesis by auto
  qed
qed

lemma pin_ok_shared:
  assumes "pin_ok s" "\<forall>q. exclusive_lock (pin_procs s q) \<noteq> Some i"
  shows "pin_ok (goto p (PinLocked i) s)"
  using assms unfolding pin_ok_def goto_def by (auto split: if_splits)

lemma pin_ok_exclusive:
  assumes "pin_ok s" "\<forall>q. shared_lock (pin_procs s q) \<noteq> Some i \<and> exclusive_lock (pin_procs s q) \<noteq> Some i"
  shows "pin_ok (goto p (ClaimLocked i) s)"
  using assms unfolding pin_ok_def goto_def by (auto split: if_splits)

lemma pin_step_ok: "pin_step s s' \<Longrightarrow> pin_ok s \<Longrightarrow> pin_ok s'"
proof (induction rule: pin_step.induct)
  case (pin_open s p i s')
  show ?case by (rule pin_ok_goto [OF pin_ok_open [OF pin_open(3,2)] refl refl]) simp_all
next
  case (claim_open s p i s')
  show ?case by (rule pin_ok_goto [OF pin_ok_open [OF claim_open(3,2)] refl refl]) simp_all
next
  case (pin_lock s p i)
  then show ?case by (intro pin_ok_shared)
next
  case (claim_lock s p i)
  then show ?case by (intro pin_ok_exclusive)
next
  case (sweep_stale s p i)
  then show ?case by (intro pin_ok_unlink) auto
next
  case (forget_unlink s p i)
  then show ?case by (intro pin_ok_unlink) auto
next
  case (publish s)
  then show ?case by (simp add: pin_ok_def)
next
  case (forget_remove s p i)
  then show ?case using pin_okD(3) [OF forget_remove(2), of p i] by (intro pin_ok_goto [OF forget_remove(2)]) auto
qed (rule pin_ok_goto [OF _ refl refl]; auto simp: still_linked_def)+

interpretation pin_runs: invariant_system pin_step pin_initial pin_ok
proof
  show "pin_ok s" if "pin_initial s" for s using that by (auto simp: pin_initial_def pin_ok_def)
  show "pin_ok s'" if "pin_step s s'" "pin_ok s" for s s' using that by (rule pin_step_ok)
qed

lemma pinned_keeps_present:
  assumes "pin_ok s" "pin_procs s p = Pinned i" "pin_present s" "pin_step s s'"
  shows "pin_present s'"
  using assms(4)
proof cases
  case (forget_remove q j)
  note ok = pin_okD [OF assms(1)]
  have "j = i" using ok(3) [of p i] ok(3) [of q j] assms(2) forget_remove(2) by simp
  with ok(1) [of q j p] forget_remove(2) assms(2) show ?thesis by simp
qed (use assms(3) in \<open>auto simp: goto_def open_pin_def split: option.splits\<close>)

text \<open>C9: A pin protects: however many processes pin, unpin, claim, forget and sweep the checkpoint concurrently, in
  any interleaving of their system calls, a checkpoint that is in the store when a process holds a
  pin on it stays there for as long as that process holds the pin.\<close>

theorem pin_protects:
  assumes "pin_initial s0" "pin_step\<^sup>*\<^sup>* s0 s" "pin_procs s p = Pinned i" "pin_present s"
    "(\<lambda>a b. pin_step a b \<and> pin_procs b p = Pinned i)\<^sup>*\<^sup>* s s'"
  shows "pin_present s'"
proof -
  have "pin_ok s" by (rule pin_runs.reachable_inv [OF assms(1,2)])
  with assms(5) have "pin_ok s' \<and> pin_procs s' p = Pinned i \<and> pin_present s'"
  proof (induction rule: rtranclp_induct)
    case base
    then show ?case using assms(3,4) by simp
  next
    case (step a b)
    then show ?case using pin_step_ok pinned_keeps_present by blast
  qed
  then show ?thesis by simp
qed

text \<open>A store whose checkpoint was never pinned; process \<open>0\<close> pins it and process \<open>1\<close> tries to forget it.\<close>

definition pin_start :: pin_state where
  "pin_start = \<lparr>pin_link = None, pin_next = 0, pin_procs = (\<lambda>_. Idle), pin_present = True\<rparr>"

definition pin_held :: "phase \<Rightarrow> pin_state" where
  "pin_held other = pin_start\<lparr>pin_link := Some 0, pin_next := 1, pin_procs := (\<lambda>_. Idle)(0 := Pinned 0, 1 := other)\<rparr>"

lemma pin_start_runs: "pin_step\<^sup>*\<^sup>* pin_start (pin_held Idle)"
proof -
  let ?s1 = "goto 0 (PinOpened 0) (pin_start\<lparr>pin_link := Some 0, pin_next := 1\<rparr>)"
  have 1: "pin_step pin_start ?s1" by (rule pin_open) (auto simp: pin_start_def open_pin_def)
  have 2: "pin_step ?s1 (goto 0 (PinLocked 0) ?s1)" by (rule pin_lock) (auto simp: goto_def pin_start_def)
  have 3: "pin_step (goto 0 (PinLocked 0) ?s1) (goto 0 (Pinned 0) (goto 0 (PinLocked 0) ?s1))"
    by (rule pin_taken) (auto simp: goto_def still_linked_def)
  have "goto 0 (Pinned 0) (goto 0 (PinLocked 0) ?s1) = pin_held Idle" by (auto simp: goto_def pin_held_def pin_start_def)
  with 1 2 3 show ?thesis by (metis (no_types, lifting) converse_rtranclp_into_rtranclp rtranclp.rtrancl_refl)
qed

theorem pin_protects_witness:
  "pin_step\<^sup>*\<^sup>* (pin_held Idle) (pin_held (ClaimOpened 0)) \<and> pin_present (pin_held (ClaimOpened 0))"
proof -
  have "pin_step (pin_held Idle) (goto 1 (ClaimOpened 0) (pin_held Idle))"
    by (rule claim_open) (auto simp: pin_held_def open_pin_def)
  moreover have "goto 1 (ClaimOpened 0) (pin_held Idle) = pin_held (ClaimOpened 0)" by (auto simp: goto_def pin_held_def)
  ultimately have step: "pin_step (pin_held Idle) (pin_held (ClaimOpened 0))" by simp
  then have "(\<lambda>a b. pin_step a b \<and> pin_procs b 0 = Pinned 0)\<^sup>*\<^sup>* (pin_held Idle) (pin_held (ClaimOpened 0))"
    by (intro r_into_rtranclp) (simp add: pin_held_def)
  moreover have "pin_initial pin_start" by (simp add: pin_initial_def pin_start_def)
  ultimately show ?thesis using pin_protects [OF _ pin_start_runs, of 0 0] step by (simp add: pin_held_def pin_start_def)
qed

end
