(* ===== verification/Cache_Budget.thy ===== *)
theory Cache_Budget
  imports Ip_Addr Machine_Ints "HOL-Library.Multiset"
begin

text \<open>
  Byte budgets of the node's caches: the bases of cache disks (\<open>src/api/cache_base_budget.rs\<close>) and the selection
  of checkpoints to forget (\<open>src/checkpoint_retention.rs\<close>). Both remove the least recently used
  entries until what is left fits a budget; the sweep they share is treated in a locale. Times are
  nanoseconds, sizes bytes.
\<close>

section \<open>The sweep\<close>

text \<open>A sweep takes entries in order until it may stop.\<close>

locale sweep =
  fixes run :: "'a list \<Rightarrow> 's \<Rightarrow> 'a list" and stop :: "'s \<Rightarrow> bool" and take_one :: "'a \<Rightarrow> 's \<Rightarrow> 's"
  assumes run_Nil: "run [] s = []"
    and run_Cons: "run (x # xs) s = (if stop s then [] else x # run xs (take_one x s))"
begin

lemma least_prefix:
  "\<exists>n\<le>length xs. run xs s = take n xs \<and> (n < length xs \<longrightarrow> stop (fold take_one (take n xs) s)) \<and>
     (\<forall>m<n. \<not> stop (fold take_one (take m xs) s))"
proof (induction xs arbitrary: s)
  case Nil
  then show ?case by (simp add: run_Nil)
next
  case (Cons x xs)
  show ?case
  proof (cases "stop s")
    case True
    then show ?thesis by (intro exI [of _ 0]) (simp add: run_Cons)
  next
    case False
    from Cons.IH [of "take_one x s"] obtain n where n: "n \<le> length xs" "run xs (take_one x s) = take n xs"
      "n < length xs \<longrightarrow> stop (fold take_one (take n xs) (take_one x s))"
      "\<forall>m<n. \<not> stop (fold take_one (take m xs) (take_one x s))" by blast
    have "\<not> stop (fold take_one (take m (x # xs)) s)" if "m < Suc n" for m
      using that n(4) False by (cases m) auto
    with n False show ?thesis by (intro exI [of _ "Suc n"]) (simp add: run_Cons)
  qed
qed

end

record budget =
  max_bytes :: nat
  reserve_bytes :: nat

definition fits :: "budget \<Rightarrow> nat \<times> nat \<Rightarrow> bool" where
  "fits b s = (case s of (held, available) \<Rightarrow> held \<le> max_bytes b \<and> reserve_bytes b \<le> available)"

section \<open>Cache bases\<close>

definition RECENT_USE_GRACE :: nat where "RECENT_USE_GRACE = secs (15 * 60)"
definition BASE_BUDGET_DIVISOR :: nat where "BASE_BUDGET_DIVISOR = 2"
definition BASE_RESERVE_DIVISOR :: nat where "BASE_RESERVE_DIVISOR = 10"

definition base_budget :: "nat option \<Rightarrow> nat option \<Rightarrow> budget" where
  "base_budget capacity configured =
     \<lparr>max_bytes = (case configured of Some m \<Rightarrow> m
                   | None \<Rightarrow> (case capacity of Some c \<Rightarrow> c div BASE_BUDGET_DIVISOR | None \<Rightarrow> U64_MAX)),
      reserve_bytes = (case capacity of Some c \<Rightarrow> c div BASE_RESERVE_DIVISOR | None \<Rightarrow> 0)\<rparr>"

record base =
  base_name :: string
  base_bytes :: nat
  base_last_used :: instant

text \<open>The held bytes are subtracted at 64 bits, wrapping; \<open>available\<close> saturates.\<close>

definition evict_one :: "base \<Rightarrow> nat \<times> nat \<Rightarrow> nat \<times> nat" where
  "evict_one b s = (case s of (held, available) \<Rightarrow> ((held + 2 ^ 64 - base_bytes b) mod 2 ^ 64, u64_add available (base_bytes b)))"

fun evict_loop :: "budget \<Rightarrow> base list \<Rightarrow> nat \<times> nat \<Rightarrow> base list" where
  "evict_loop b [] s = []"
| "evict_loop b (x # xs) s = (if fits b s then [] else x # evict_loop b xs (evict_one x s))"

definition idle_bases :: "base list \<Rightarrow> instant \<Rightarrow> (string \<Rightarrow> bool) \<Rightarrow> base list" where
  "idle_bases bases now keep =
     sort_key base_last_used
       (filter (\<lambda>b. RECENT_USE_GRACE \<le> now - base_last_used b) (filter (\<lambda>b. \<not> keep (base_name b)) bases))"

definition choose_evictions :: "base list \<Rightarrow> nat \<Rightarrow> budget \<Rightarrow> instant \<Rightarrow> (string \<Rightarrow> bool) \<Rightarrow> string list" where
  "choose_evictions bases available b now keep =
     (let held = sum_list (map base_bytes bases) mod 2 ^ 64
      in if fits b (held, available) then []
         else map base_name (evict_loop b (idle_bases bases now keep) (held, available)))"

definition validate_base_name :: "string \<Rightarrow> bool" where
  "validate_base_name name \<longleftrightarrow>
     name \<noteq> [] \<and> length name \<le> 255 \<and> name \<noteq> ''.'' \<and> name \<noteq> ''..'' \<and> \<not> starts_with name ''.'' \<and>
     CHR ''/'' \<notin> set name \<and> CHR 0x5C \<notin> set name \<and> CHR 0x00 \<notin> set name"

text \<open>A file of the cache directory: its name if that is a string, whether it is a regular file, its times and its
  number of blocks; \<open>None\<close> for metadata that cannot be read.\<close>

record dir_file =
  df_name :: "string option"
  df_meta :: "(bool \<times> instant option \<times> instant option \<times> nat) option"

definition scan_base :: "dir_file \<Rightarrow> base option" where
  "scan_base f =
     (case df_name f of
        None \<Rightarrow> None
      | Some name \<Rightarrow>
          if \<not> validate_base_name name then None
          else case df_meta f of
                 Some (True, Some modified, accessed, blocks) \<Rightarrow>
                   Some \<lparr>base_name = name, base_bytes = u64_mul blocks 512,
                         base_last_used = (case accessed of Some a \<Rightarrow> max a modified | None \<Rightarrow> modified)\<rparr>
               | _ \<Rightarrow> None)"

definition scan_bases :: "dir_file list option \<Rightarrow> base list" where
  "scan_bases listing = (case listing of None \<Rightarrow> [] | Some fs \<Rightarrow> List.map_filter scan_base fs)"

text \<open>\<open>make_room\<close>: the names it removes. \<open>space\<close> is the capacity and the free bytes of the file system, \<open>attached\<close> the
  bases the machines use, \<open>fetching\<close> the bases whose fetch lock is taken, \<open>removable\<close> those whose removal
  succeeds; \<open>None\<close> is a failure to read the first two.\<close>

definition make_room ::
  "(nat \<times> nat) option \<Rightarrow> nat option \<Rightarrow> dir_file list option \<Rightarrow> string list option \<Rightarrow> instant \<Rightarrow> (string \<Rightarrow> bool) \<Rightarrow>
   (string \<Rightarrow> bool) \<Rightarrow> string list" where
  "make_room space configured listing attached now fetching removable =
     (case space of
        None \<Rightarrow> []
      | Some (capacity, available) \<Rightarrow>
          (case attached of
             None \<Rightarrow> []
           | Some used \<Rightarrow>
               filter removable
                 (filter (\<lambda>n. \<not> fetching n)
                   (choose_evictions (scan_bases listing) available (base_budget (Some capacity) configured) now (\<lambda>n. n \<in> set used)))))"

section \<open>Stored checkpoints\<close>

definition STORE_BUDGET_DIVISOR :: nat where "STORE_BUDGET_DIVISOR = 4"
definition STORE_RESERVE_DIVISOR :: nat where "STORE_RESERVE_DIVISOR = 10"
definition DEFAULT_MAX_AGE :: nat where "DEFAULT_MAX_AGE = secs (24 * 60 * 60)"
definition DEFAULT_GRACE :: nat where "DEFAULT_GRACE = secs (30 * 60)"

definition store_budget :: "nat option \<Rightarrow> nat option \<Rightarrow> budget" where
  "store_budget capacity configured =
     \<lparr>max_bytes = (case configured of Some m \<Rightarrow> m
                   | None \<Rightarrow> (case capacity of Some c \<Rightarrow> c div STORE_BUDGET_DIVISOR | None \<Rightarrow> U64_MAX)),
      reserve_bytes = (case capacity of Some c \<Rightarrow> c div STORE_RESERVE_DIVISOR | None \<Rightarrow> 0)\<rparr>"

record checkpoint_entry =
  en_dir :: string
  en_id :: "string option"
  en_last_used :: instant
  en_keep :: bool
  en_requested :: bool

record policy =
  po_max_age :: "nat option"
  po_grace :: nat
  po_max_bytes :: "nat option"

definition policy_default :: policy where
  "policy_default = \<lparr>po_max_age = Some DEFAULT_MAX_AGE, po_grace = DEFAULT_GRACE, po_max_bytes = None\<rparr>"

definition env_secs :: "environment \<Rightarrow> string \<Rightarrow> nat option" where
  "env_secs env name = Option.bind (env name) (\<lambda>v. parse_uint (2 ^ 64) (trim v))"

definition policy_from_env :: "environment \<Rightarrow> policy option" where
  "policy_from_env env =
     (if (case env ''SMOLVM_CHECKPOINT_STORE_RETENTION'' of
            Some v \<Rightarrow> trim v \<in> {''off'', ''0'', ''false''} | None \<Rightarrow> False)
      then None
      else Some
        \<lparr>po_max_age = (case env_secs env ''SMOLVM_CHECKPOINT_STORE_MAX_AGE_SECS'' of
                         Some n \<Rightarrow> if n = 0 then None else Some (secs n)
                       | None \<Rightarrow> po_max_age policy_default),
         po_grace = (case env_secs env ''SMOLVM_CHECKPOINT_STORE_GRACE_SECS'' of
                       Some n \<Rightarrow> secs n | None \<Rightarrow> po_grace policy_default),
         po_max_bytes = (case env_secs env ''SMOLVM_CHECKPOINT_STORE_MAX_BYTES'' of
                           Some n \<Rightarrow> if n > 0 then Some n else None | None \<Rightarrow> None)\<rparr>)"

definition idle :: "checkpoint_entry \<Rightarrow> instant \<Rightarrow> nat" where
  "idle e now = now - en_last_used e"

definition expired :: "checkpoint_entry list \<Rightarrow> policy \<Rightarrow> instant \<Rightarrow> nat list" where
  "expired entries p now =
     map fst
       (filter (\<lambda>(_, e). en_requested e \<or> (case po_max_age p of Some m \<Rightarrow> max m (po_grace p) \<le> idle e now | None \<Rightarrow> False))
         (filter (\<lambda>(_, e). \<not> en_keep e) (enumerate 0 entries)))"

definition reclaim_one :: "(checkpoint_entry \<Rightarrow> nat) \<Rightarrow> checkpoint_entry list \<Rightarrow> nat \<Rightarrow> nat \<times> nat \<Rightarrow> nat \<times> nat" where
  "reclaim_one reclaims entries i s =
     (case s of (held, available) \<Rightarrow> (held - reclaims (entries ! i), u64_add available (reclaims (entries ! i))))"

fun reclaim_loop :: "budget \<Rightarrow> (checkpoint_entry \<Rightarrow> nat) \<Rightarrow> checkpoint_entry list \<Rightarrow> nat list \<Rightarrow> nat \<times> nat \<Rightarrow> nat list" where
  "reclaim_loop b reclaims entries [] s = []"
| "reclaim_loop b reclaims entries (i # is) s =
     (if fits b s then [] else i # reclaim_loop b reclaims entries is (reclaim_one reclaims entries i s))"

definition idle_entries :: "checkpoint_entry list \<Rightarrow> policy \<Rightarrow> instant \<Rightarrow> nat list" where
  "idle_entries entries p now =
     sort_key (\<lambda>i. en_last_used (entries ! i))
       (filter (\<lambda>i. \<not> en_keep (entries ! i) \<and> po_grace p \<le> idle (entries ! i) now) [0..<length entries])"

definition over_budget ::
  "checkpoint_entry list \<Rightarrow> nat \<Rightarrow> nat \<Rightarrow> budget \<Rightarrow> policy \<Rightarrow> instant \<Rightarrow> (checkpoint_entry \<Rightarrow> nat) \<Rightarrow> nat list" where
  "over_budget entries held available b p now reclaims =
     (if fits b (held, available) then []
      else reclaim_loop b reclaims entries (idle_entries entries p now) (held, available))"

interpretation evictions: sweep "evict_loop b" "fits b" evict_one for b
  by unfold_locales auto

interpretation reclaims: sweep "reclaim_loop b reclaims entries" "fits b" "reclaim_one reclaims entries" for b reclaims entries
  by unfold_locales auto

section \<open>Properties\<close>

lemma u64_add_sum: "u64_add (u64_add a x) y = u64_add a (x + y)"
  by (simp add: u64_add_def min_def)

text \<open>What is held and free after the entries of a list are gone.\<close>

definition after_removal :: "nat \<Rightarrow> nat \<Rightarrow> nat \<times> nat \<Rightarrow> nat \<times> nat" where
  "after_removal freed bound s = (case s of (held, available) \<Rightarrow> (held - freed, min (available + freed) bound))"

lemma fold_evict:
  "sum_list (map base_bytes xs) \<le> held \<Longrightarrow> held < 2 ^ 64 \<Longrightarrow> available \<le> U64_MAX \<Longrightarrow>
   fold evict_one xs (held, available) = after_removal (sum_list (map base_bytes xs)) U64_MAX (held, available)"
proof (induction xs arbitrary: held available)
  case (Cons x xs)
  have "evict_one x (held, available) = (held - base_bytes x, u64_add available (base_bytes x))"
    using Cons.prems by (simp add: evict_one_def mod_if)
  with Cons.IH [of "held - base_bytes x" "u64_add available (base_bytes x)"] Cons.prems show ?case
    by (simp add: after_removal_def u64_add_def min_def)
qed (simp add: after_removal_def)

lemma fold_reclaim:
  "available \<le> U64_MAX \<Longrightarrow>
   fold (reclaim_one reclaims entries) is (held, available) =
     after_removal (sum_list (map (\<lambda>i. reclaims (entries ! i)) is)) U64_MAX (held, available)"
proof (induction "is" arbitrary: held available)
  case (Cons i "is")
  with Cons.IH [of "u64_add available (reclaims (entries ! i))" "held - reclaims (entries ! i)"] show ?case
    by (simp add: after_removal_def reclaim_one_def u64_add_def min_def)
qed (simp add: after_removal_def)

lemma sum_filter_le: "sum_list (map f (filter P xs)) \<le> (sum_list (map f xs) :: nat)"
  by (induction xs) auto

lemma sum_take_le: "sum_list (map f (take n xs)) \<le> (sum_list (map f xs) :: nat)"
  by (metis append_take_drop_id le_add1 map_append sum_list_append)

lemma sum_sorted: "sum_list (map f (sort_key k xs)) = (sum_list (map f xs) :: nat)"
  by (metis mset_map mset_sort sum_mset_sum_list)

lemma idle_bases_sum: "sum_list (map base_bytes (take n (idle_bases bases now keep))) \<le> sum_list (map base_bytes bases)"
proof -
  have "sum_list (map base_bytes (take n (idle_bases bases now keep))) \<le> sum_list (map base_bytes (idle_bases bases now keep))" by (rule sum_take_le)
  also have "\<dots> \<le> sum_list (map base_bytes bases)"
    unfolding idle_bases_def sum_sorted by (rule order_trans [OF sum_filter_le sum_filter_le])
  finally show ?thesis .
qed

text \<open>C30: Room is made by the fewest removals: the bases chosen are the least recently used of those that may go,
  one removal fewer would leave the bases over budget or the reserve short, and unless every base that
  may go is chosen, what is left fits.\<close>

theorem evictions_minimal:
  assumes "sum_list (map base_bytes bases) \<le> U64_MAX" "available \<le> U64_MAX"
  shows "\<exists>n. choose_evictions bases available b now keep = map base_name (take n (idle_bases bases now keep)) \<and>
    (n < length (idle_bases bases now keep) \<longrightarrow>
       fits b (after_removal (sum_list (map base_bytes (take n (idle_bases bases now keep)))) U64_MAX (sum_list (map base_bytes bases), available))) \<and>
    (\<forall>m<n. \<not> fits b (after_removal (sum_list (map base_bytes (take m (idle_bases bases now keep)))) U64_MAX (sum_list (map base_bytes bases), available)))"
proof -
  let ?cands = "idle_bases bases now keep" and ?held = "sum_list (map base_bytes bases)"
  have small: "?held < 2 ^ 64" using assms(1) by (simp add: U64_MAX_def)
  then have fold: "fold evict_one (take m ?cands) (?held, available) =
      after_removal (sum_list (map base_bytes (take m ?cands))) U64_MAX (?held, available)" for m
    using fold_evict [OF idle_bases_sum _ assms(2)] by simp
  obtain n where n: "evict_loop b ?cands (?held, available) = take n ?cands"
      "n < length ?cands \<longrightarrow> fits b (fold evict_one (take n ?cands) (?held, available))"
      "\<forall>m<n. \<not> fits b (fold evict_one (take m ?cands) (?held, available))"
    using evictions.least_prefix [of ?cands b "(?held, available)"] by blast
  have "n = 0" if "fits b (?held, available)" using n(3) that by (cases n) auto
  then have "choose_evictions bases available b now keep = map base_name (take n ?cands)"
    using n(1) small by (auto simp: choose_evictions_def Let_def)
  with n(2,3) show ?thesis unfolding fold by blast
qed

lemma scan_base_name: "scan_base f = Some b \<Longrightarrow> validate_base_name (base_name b)"
  by (auto simp: scan_base_def split: option.splits if_splits bool.splits)

lemma scanned_name: "b \<in> set (scan_bases listing) \<Longrightarrow> validate_base_name (base_name b)"
  by (auto simp: scan_bases_def map_filter_def split: option.splits intro: scan_base_name)

text \<open>Making room removes only what may go: a removed base lies in the cache directory under a plain file name,
  no machine is attached to it, it is not being fetched and it was last used at least fifteen minutes ago;
  when the machines or the file system cannot be read nothing is removed.\<close>

theorem make_room_spares:
  assumes "name \<in> set (make_room space configured listing attached now fetching removable)"
  shows "\<not> fetching name \<and> validate_base_name name \<and> space \<noteq> None \<and> (\<exists>used. attached = Some used \<and> name \<notin> set used) \<and>
    (\<exists>b\<in>set (scan_bases listing). base_name b = name \<and> base_last_used b + RECENT_USE_GRACE \<le> now)"
proof -
  obtain capacity available used where args: "space = Some (capacity, available)" "attached = Some used"
    using assms by (auto simp: make_room_def split: option.splits)
  let ?cands = "idle_bases (scan_bases listing) now (\<lambda>n. n \<in> set used)"
  have chosen: "name \<in> set (choose_evictions (scan_bases listing) available (base_budget (Some capacity) configured) now (\<lambda>n. n \<in> set used))"
    "\<not> fetching name" using assms args by (auto simp: make_room_def)
  obtain n where "evict_loop c ?cands s = take (n c s) ?cands" for c s using evictions.least_prefix by metis
  then have "name \<in> base_name ` set ?cands"
    using chosen(1) by (auto simp: choose_evictions_def Let_def dest: in_set_takeD split: if_splits)
  then obtain x where x: "x \<in> set (scan_bases listing)" "base_name x = name" "name \<notin> set used" "RECENT_USE_GRACE \<le> now - base_last_used x"
    by (auto simp: idle_bases_def)
  have "0 < RECENT_USE_GRACE" by (simp add: RECENT_USE_GRACE_def secs_def)
  then have "base_last_used x + RECENT_USE_GRACE \<le> now" using x(4) by simp
  moreover have "validate_base_name name" using scanned_name x(1,2) by blast
  ultimately show ?thesis using x args chosen(2) by auto
qed

text \<open>Retention over budget forgets the fewest: the checkpoints chosen are the least recently used of those no
  machine needs and nothing used within the grace period; one fewer would leave the store over budget, and unless every
  such checkpoint is chosen, the store fits once they are gone.\<close>

theorem over_budget_minimal:
  assumes "available \<le> U64_MAX"
  shows "\<exists>n. over_budget entries held available b p now reclaims = take n (idle_entries entries p now) \<and>
    (n < length (idle_entries entries p now) \<longrightarrow>
       fits b (after_removal (sum_list (map (\<lambda>i. reclaims (entries ! i)) (take n (idle_entries entries p now)))) U64_MAX (held, available))) \<and>
    (\<forall>m<n. \<not> fits b (after_removal (sum_list (map (\<lambda>i. reclaims (entries ! i)) (take m (idle_entries entries p now)))) U64_MAX (held, available)))"
proof -
  let ?cands = "idle_entries entries p now"
  obtain n where n: "reclaim_loop b reclaims entries ?cands (held, available) = take n ?cands"
      "n < length ?cands \<longrightarrow> fits b (fold (reclaim_one reclaims entries) (take n ?cands) (held, available))"
      "\<forall>m<n. \<not> fits b (fold (reclaim_one reclaims entries) (take m ?cands) (held, available))"
    using reclaims.least_prefix [of ?cands b reclaims entries "(held, available)"] by blast
  have "n = 0" if "fits b (held, available)" using n(3) that by (cases n) auto
  then have "over_budget entries held available b p now reclaims = take n ?cands" using n(1) by (auto simp: over_budget_def)
  with n(2,3) show ?thesis unfolding fold_reclaim [OF assms] by blast
qed

section \<open>A sample cache and store\<close>

definition cached :: "string \<Rightarrow> nat \<Rightarrow> instant \<Rightarrow> base" where
  "cached name bytes used = \<lparr>base_name = name, base_bytes = bytes, base_last_used = used\<rparr>"

definition three_bases :: "base list" where
  "three_bases = [cached ''b'' 20 (secs 200), cached ''a'' 20 (secs 100), cached ''c'' 20 (secs 300)]"

definition cache_files :: "dir_file list" where
  "cache_files =
     [\<lparr>df_name = Some ''b'', df_meta = Some (True, Some (secs 200), None, 1)\<rparr>,
      \<lparr>df_name = Some ''.b.sha256'', df_meta = Some (True, Some (secs 10), None, 1)\<rparr>,
      \<lparr>df_name = Some ''a'', df_meta = Some (True, Some (secs 50), Some (secs 100), 1)\<rparr>]"

theorem evictions_minimal_witness:
  "choose_evictions three_bases 5 \<lparr>max_bytes = 50, reserve_bytes = 10\<rparr> (secs 2000) (\<lambda>_. False) = [''a''] \<and>
   (\<exists>n. choose_evictions three_bases 5 \<lparr>max_bytes = 50, reserve_bytes = 10\<rparr> (secs 2000) (\<lambda>_. False) =
        map base_name (take n (idle_bases three_bases (secs 2000) (\<lambda>_. False))))"
proof -
  have "choose_evictions three_bases 5 \<lparr>max_bytes = 50, reserve_bytes = 10\<rparr> (secs 2000) (\<lambda>_. False) = [''a'']" by code_simp
  moreover have "sum_list (map base_bytes three_bases) \<le> U64_MAX" "(5 :: nat) \<le> U64_MAX" by code_simp+
  ultimately show ?thesis
    using evictions_minimal [of three_bases 5 "\<lparr>max_bytes = 50, reserve_bytes = 10\<rparr>" "secs 2000" "\<lambda>_. False"] by blast
qed

theorem make_room_spares_witness:
  "make_room (Some (1000, 50)) None (Some cache_files) (Some [''b'']) (secs 2000) (\<lambda>_. False) (\<lambda>_. True) = [''a''] \<and>
   validate_base_name ''a''"
proof -
  have "make_room (Some (1000, 50)) None (Some cache_files) (Some [''b'']) (secs 2000) (\<lambda>_. False) (\<lambda>_. True) = [''a'']" by code_simp
  then show ?thesis
    using make_room_spares [of "''a''" "Some (1000, 50)" None "Some cache_files" "Some [''b'']" "secs 2000" "\<lambda>_. False" "\<lambda>_. True"] by simp
qed

definition stored :: "string \<Rightarrow> instant \<Rightarrow> bool \<Rightarrow> checkpoint_entry" where
  "stored dir used keep = \<lparr>en_dir = dir, en_id = None, en_last_used = used, en_keep = keep, en_requested = False\<rparr>"

theorem over_budget_minimal_witness:
  "over_budget [stored ''x'' (secs 30) False, stored ''y'' (secs 20) True, stored ''z'' (secs 10) False] 100 5
     \<lparr>max_bytes = 95, reserve_bytes = 10\<rparr> policy_default (secs 9000) (\<lambda>_. 7) = [2] \<and>
   (\<exists>n. over_budget [stored ''x'' (secs 30) False, stored ''y'' (secs 20) True, stored ''z'' (secs 10) False] 100 5
     \<lparr>max_bytes = 95, reserve_bytes = 10\<rparr> policy_default (secs 9000) (\<lambda>_. 7) =
     take n (idle_entries [stored ''x'' (secs 30) False, stored ''y'' (secs 20) True, stored ''z'' (secs 10) False] policy_default (secs 9000)))"
proof -
  let ?es = "[stored ''x'' (secs 30) False, stored ''y'' (secs 20) True, stored ''z'' (secs 10) False]"
  have "over_budget ?es 100 5 \<lparr>max_bytes = 95, reserve_bytes = 10\<rparr> policy_default (secs 9000) (\<lambda>_. 7) = [2]" by code_simp
  moreover have "(5 :: nat) \<le> U64_MAX" by code_simp
  ultimately show ?thesis
    using over_budget_minimal [of 5 ?es 100 "\<lparr>max_bytes = 95, reserve_bytes = 10\<rparr>" policy_default "secs 9000" "\<lambda>_. 7"] by blast
qed

end
