(* ===== verification/Retention.thy ===== *)
theory Retention
  imports File_System Cache_Budget
begin

text \<open>
  Retention of stored checkpoints (\<open>src/checkpoint_retention.rs\<close> and the lineage index of
  \<open>smolvm-checkpoint/src/store.rs\<close>): which checkpoints the machines need, forgetting one, the scan of the
  store and a whole run. The model is of runs in which the file-system calls succeed and nothing else
  publishes meanwhile; \<open>pinned\<close> are the ids whose pin is held. Objects and their pruning, staging
  directories and the trash are not modelled: what a prune reports and what forgetting an entry would free are
  arguments.
\<close>

section \<open>The store\<close>

definition STALE_STAGING :: nat where "STALE_STAGING = secs (24 * 60 * 60)"

definition valid_generation_id :: "string \<Rightarrow> bool" where
  "valid_generation_id cid \<longleftrightarrow>
     length cid = 32 \<and> list_all (\<lambda>c. is_ascii_digit c \<or> 97 \<le> (of_char c :: nat) \<and> (of_char c :: nat) \<le> 102) cid"

text \<open>A directory of \<open>published\<close> with its time and that of its manifest; a lineage record is an id and a path.\<close>

record published =
  pb_dir :: string
  pb_is_dir :: bool
  pb_modified :: "instant option"
  pb_manifest :: "instant option"

record store =
  st_lineage :: "(string \<times> string) list"
  st_published :: "published list"
  st_pins :: "(string \<times> instant) list"
  st_forget :: "(string \<times> instant) list"
  st_materialized :: "string list"

record keep =
  kp_ids :: "string list"
  kp_dirs :: "string list"

definition keeps_entry :: "keep \<Rightarrow> string option \<Rightarrow> string \<Rightarrow> bool" where
  "keeps_entry k cid dir \<longleftrightarrow> (case cid of Some i \<Rightarrow> i \<in> set (kp_ids k) | None \<Rightarrow> False) \<or> dir \<in> set (kp_dirs k)"

text \<open>The machine records: the head of a machine and the paths it was created or paused from. \<open>roots\<close> are the components
  of the published directory and of its canonical form.\<close>

fun strip_components :: "component list \<Rightarrow> component list \<Rightarrow> component list option" where
  "strip_components [] p = Some p"
| "strip_components (r # rs) (c # cs) = (if r = c then strip_components rs cs else None)"
| "strip_components (r # rs) [] = None"

definition component_name :: "component \<Rightarrow> string" where
  "component_name c = (case c of Normal n \<Rightarrow> n | CurDir \<Rightarrow> ''.'' | ParentDir \<Rightarrow> ''..'' | RootDir \<Rightarrow> ''/'')"

definition needed_dirs :: "component list list \<Rightarrow> string \<Rightarrow> string list" where
  "needed_dirs roots path =
     List.map_filter
       (\<lambda>root. case strip_components root (components path) of Some (first # _) \<Rightarrow> Some (component_name first) | _ \<Rightarrow> None) roots"

definition keep_from_records :: "component list list \<Rightarrow> (string option \<times> string option \<times> string option) list \<Rightarrow> keep" where
  "keep_from_records roots records =
     \<lparr>kp_ids = List.map_filter (\<lambda>(head, _, _). head) records,
      kp_dirs = concat (map (\<lambda>(_, source, paused). concat (map (needed_dirs roots) (List.map_filter (\<lambda>x. x) [source, paused]))) records)\<rparr>"

definition record_dir :: "component list list \<Rightarrow> string \<Rightarrow> string option" where
  "record_dir roots path =
     (case rev (components path) of
        Normal name # parent \<Rightarrow> if rev parent \<in> set roots then Some name else None
      | _ \<Rightarrow> None)"

definition dir_exists :: "string \<Rightarrow> store \<Rightarrow> bool" where
  "dir_exists dir st \<longleftrightarrow> list_ex (\<lambda>p. pb_dir p = dir) (st_published st)"

definition find_lineage :: "string \<Rightarrow> store \<Rightarrow> string option" where
  "find_lineage cid st = (if valid_generation_id cid then map_of (st_lineage st) cid else None)"

definition remove_lineage :: "string \<Rightarrow> store \<Rightarrow> bool \<times> store" where
  "remove_lineage cid st =
     (if \<not> valid_generation_id cid then (False, st)
      else (cid \<in> fst ` set (st_lineage st), st\<lparr>st_lineage := filter (\<lambda>(i, _). i \<noteq> cid) (st_lineage st)\<rparr>))"

definition discard :: "string \<Rightarrow> store \<Rightarrow> bool \<times> store" where
  "discard dir st = (dir_exists dir st, st\<lparr>st_published := filter (\<lambda>p. pb_dir p \<noteq> dir) (st_published st)\<rparr>)"

definition request_forget :: "instant \<Rightarrow> string \<Rightarrow> store \<Rightarrow> store" where
  "request_forget now cid st = st\<lparr>st_forget := (cid, now) # filter (\<lambda>(i, _). i \<noteq> cid) (st_forget st)\<rparr>"

text \<open>The claim of a forget creates the pin file if there is none; \<open>None\<close> while something pins the id.\<close>

definition try_claim :: "(string \<Rightarrow> bool) \<Rightarrow> instant \<Rightarrow> string \<Rightarrow> store \<Rightarrow> store option" where
  "try_claim pinned now cid st =
     (if pinned cid then None
      else Some (if cid \<in> fst ` set (st_pins st) then st else st\<lparr>st_pins := (cid, now) # st_pins st\<rparr>))"

section \<open>Forgetting\<close>

datatype forgotten = Removed | Absent | Deferred

definition forget_dirs :: "component list list \<Rightarrow> string \<Rightarrow> store \<Rightarrow> string list" where
  "forget_dirs roots cid st =
     (let dirs = (case Option.bind (find_lineage cid st) (record_dir roots) of Some d \<Rightarrow> [d] | None \<Rightarrow> []);
          imported = cid @ ''.checkpoint''
      in if imported \<notin> set dirs \<and> dir_exists imported st then dirs @ [imported] else dirs)"

fun discard_all :: "string list \<Rightarrow> store \<Rightarrow> bool \<times> store" where
  "discard_all [] st = (False, st)"
| "discard_all (d # ds) st =
     (case discard d st of (gone, st1) \<Rightarrow> (case discard_all ds st1 of (others, st2) \<Rightarrow> (gone \<or> others, st2)))"

definition forget_inner ::
  "component list list \<Rightarrow> (string \<Rightarrow> bool) \<Rightarrow> instant \<Rightarrow> string \<Rightarrow> keep \<Rightarrow> bool \<Rightarrow> store \<Rightarrow> forgotten \<times> store" where
  "forget_inner roots pinned now cid k remember st =
     (if \<not> valid_generation_id cid then (Absent, st)
      else case try_claim pinned now cid st of
             None \<Rightarrow> (Deferred, if remember then request_forget now cid st else st)
           | Some st1 \<Rightarrow>
               let dirs = forget_dirs roots cid st1
               in if cid \<in> set (kp_ids k) \<or> list_ex (\<lambda>d. d \<in> set (kp_dirs k)) dirs
                  then (Deferred, if remember then request_forget now cid st1 else st1)
                  else case remove_lineage cid st1 of
                         (removed, st2) \<Rightarrow>
                           (case discard_all dirs (st2\<lparr>st_materialized := filter (\<lambda>i. i \<noteq> cid) (st_materialized st2)\<rparr>) of
                              (gone, st3) \<Rightarrow>
                                (if removed \<or> gone then Removed else Absent,
                                 st3\<lparr>st_forget := filter (\<lambda>(i, _). i \<noteq> cid) (st_forget st3),
                                     st_pins := filter (\<lambda>(i, _). i \<noteq> cid) (st_pins st3)\<rparr>)))"

definition forget :: "component list list \<Rightarrow> (string \<Rightarrow> bool) \<Rightarrow> instant \<Rightarrow> string \<Rightarrow> keep \<Rightarrow> store \<Rightarrow> forgotten \<times> store" where
  "forget roots pinned now cid k st = forget_inner roots pinned now cid k True st"

section \<open>A run\<close>

definition by_dir :: "component list list \<Rightarrow> store \<Rightarrow> (string \<times> string) list" where
  "by_dir roots st =
     fold (\<lambda>(cid, path) m.
             case record_dir roots path of
               Some dir \<Rightarrow> if list_ex (\<lambda>p. pb_dir p = dir \<and> pb_is_dir p) (st_published st) then hm_insert dir cid m else m
             | None \<Rightarrow> m)
       (st_lineage st) []"

definition dangling :: "component list list \<Rightarrow> store \<Rightarrow> string list" where
  "dangling roots st =
     map fst
       (filter (\<lambda>(cid, path).
                  case record_dir roots path of
                    Some dir \<Rightarrow> \<not> list_ex (\<lambda>p. pb_dir p = dir \<and> pb_is_dir p) (st_published st)
                  | None \<Rightarrow> True)
         (st_lineage st))"

definition entry_id :: "component list list \<Rightarrow> store \<Rightarrow> string \<Rightarrow> string option" where
  "entry_id roots st dir =
     (case map_of (by_dir roots st) dir of
        Some cid \<Rightarrow> Some cid
      | None \<Rightarrow> (case strip_suffix ''.checkpoint'' dir of
                    Some cid \<Rightarrow> if valid_generation_id cid then Some cid else None
                  | None \<Rightarrow> None))"

definition scan_entry :: "component list list \<Rightarrow> keep \<Rightarrow> store \<Rightarrow> published \<Rightarrow> checkpoint_entry option" where
  "scan_entry roots k st p =
     (if starts_with (pb_dir p) ''.'' \<or> \<not> pb_is_dir p then None
      else
        let cid = entry_id roots st (pb_dir p)
        in Some \<lparr>en_dir = pb_dir p, en_id = cid,
                 en_last_used =
                   fold max (List.map_filter (\<lambda>x. x) [pb_manifest p, pb_modified p, Option.bind cid (map_of (st_pins st))]) 0,
                 en_keep = keeps_entry k cid (pb_dir p),
                 en_requested = (case cid of Some i \<Rightarrow> i \<in> fst ` set (st_forget st) | None \<Rightarrow> False)\<rparr>)"

definition scan :: "component list list \<Rightarrow> keep \<Rightarrow> store \<Rightarrow> checkpoint_entry list" where
  "scan roots k st = List.map_filter (scan_entry roots k st) (st_published st)"

definition sweep_stale_ids :: "(string \<Rightarrow> bool) \<Rightarrow> instant \<Rightarrow> string list \<Rightarrow> store \<Rightarrow> store" where
  "sweep_stale_ids pinned now held st =
     st\<lparr>st_forget := filter (\<lambda>(i, at). i \<in> set held \<or> now - at < STALE_STAGING) (st_forget st),
        st_pins := filter (\<lambda>(i, at). i \<in> set held \<or> now - at < STALE_STAGING \<or> pinned i) (st_pins st)\<rparr>"

record report =
  rp_checkpoints :: nat
  rp_forgotten :: nat
  rp_in_use :: nat
  rp_kept :: nat
  rp_reclaimed_objects :: nat
  rp_reclaimed_bytes :: nat
  rp_held_bytes :: nat

definition forget_entry ::
  "component list list \<Rightarrow> (string \<Rightarrow> bool) \<Rightarrow> instant \<Rightarrow> keep \<Rightarrow> checkpoint_entry \<Rightarrow> report \<times> store \<Rightarrow> report \<times> store" where
  "forget_entry roots pinned now k e s =
     (case s of (rp, st) \<Rightarrow>
        (case (case en_id e of
                 Some cid \<Rightarrow> forget_inner roots pinned now cid k False st
               | None \<Rightarrow> (case discard (en_dir e) st of (gone, st1) \<Rightarrow> (if gone then Removed else Absent, st1))) of
           (Removed, st1) \<Rightarrow> (rp\<lparr>rp_forgotten := rp_forgotten rp + 1\<rparr>, st1)
         | (Deferred, st1) \<Rightarrow> (rp\<lparr>rp_in_use := rp_in_use rp + 1\<rparr>, st1)
         | (Absent, st1) \<Rightarrow> (rp, st1)))"

text \<open>What a prune reports: the objects and bytes removed and the bytes kept.\<close>

type_synonym pruned = "nat \<times> nat \<times> nat"

definition add_pruned :: "pruned \<Rightarrow> report \<Rightarrow> report" where
  "add_pruned pr rp =
     (case pr of (objects, bytes, _) \<Rightarrow>
        rp\<lparr>rp_reclaimed_objects := rp_reclaimed_objects rp + objects, rp_reclaimed_bytes := rp_reclaimed_bytes rp + bytes\<rparr>)"

definition run ::
  "component list list \<Rightarrow> (string \<Rightarrow> bool) \<Rightarrow> instant \<Rightarrow> keep \<Rightarrow> policy \<Rightarrow> (nat \<times> nat) option \<Rightarrow> pruned \<Rightarrow> pruned \<Rightarrow> (checkpoint_entry \<Rightarrow> nat) \<Rightarrow>
   store \<Rightarrow> report \<times> store" where
  "run roots pinned now k p space pruned1 pruned2 reclaims st =
     (let entries = scan roots k st;
          rp0 = \<lparr>rp_checkpoints = length entries, rp_forgotten = 0, rp_in_use = 0, rp_kept = length (filter en_keep entries),
                 rp_reclaimed_objects = 0, rp_reclaimed_bytes = 0, rp_held_bytes = 0\<rparr>;
          st1 = fold (\<lambda>cid st. snd (forget_inner roots pinned now cid k False st)) (dangling roots st) st;
          st2 = sweep_stale_ids pinned now (List.map_filter en_id entries) st1;
          gone = expired entries p now;
          s3 = fold (\<lambda>i. forget_entry roots pinned now k (entries ! i)) gone (rp0, st2);
          rp3 = add_pruned pruned1 (fst s3);
          remaining = map snd (filter (\<lambda>(i, _). i \<notin> set gone) (enumerate 0 entries));
          b = store_budget (map_option fst space) (po_max_bytes p);
          available = (case space of Some (_, a) \<Rightarrow> a | None \<Rightarrow> U64_MAX);
          chosen = over_budget remaining (snd (snd pruned1)) available b p now reclaims
      in if chosen = [] then (rp3\<lparr>rp_held_bytes := snd (snd pruned1)\<rparr>, snd s3)
         else
           let s4 = fold (\<lambda>i. forget_entry roots pinned now k (remaining ! i)) chosen (rp3, snd s3)
           in ((add_pruned pruned2 (fst s4))\<lparr>rp_held_bytes := snd (snd pruned2)\<rparr>, snd s4))"

section \<open>What forgetting removes\<close>

text \<open>An id names a directory by its lineage record or by the name an import publishes under. A store is in order if its
  records have distinct ids, all of them checkpoint ids, and no directory has two names.\<close>

definition names_dir :: "component list list \<Rightarrow> store \<Rightarrow> string \<Rightarrow> string \<Rightarrow> bool" where
  "names_dir roots st cid dir \<longleftrightarrow>
     valid_generation_id cid \<and>
     (list_ex (\<lambda>(i, path). i = cid \<and> record_dir roots path = Some dir) (st_lineage st) \<or> dir = cid @ ''.checkpoint'')"

definition store_ok :: "component list list \<Rightarrow> store \<Rightarrow> bool" where
  "store_ok roots st \<longleftrightarrow>
     distinct (map fst (st_lineage st)) \<and> list_all (\<lambda>(i, _). valid_generation_id i) (st_lineage st) \<and>
     (\<forall>a b dir. names_dir roots st a dir \<longrightarrow> names_dir roots st b dir \<longrightarrow> a = b)"

definition protected :: "component list list \<Rightarrow> (string \<Rightarrow> bool) \<Rightarrow> keep \<Rightarrow> store \<Rightarrow> string \<Rightarrow> bool" where
  "protected roots pinned k st dir \<longleftrightarrow>
     dir \<in> set (kp_dirs k) \<or> (\<exists>cid. names_dir roots st cid dir \<and> (cid \<in> set (kp_ids k) \<or> pinned cid))"

lemma discard_all_published:
  "snd (discard_all ds st) = st\<lparr>st_published := filter (\<lambda>p. pb_dir p \<notin> set ds) (st_published st)\<rparr>"
proof (induction ds arbitrary: st)
  case (Cons d ds)
  from Cons.IH [of "snd (discard d st)"] show ?case
    by (auto simp: discard_def split: prod.splits intro!: arg_cong [where f = "\<lambda>f. st\<lparr>st_published := filter f _\<rparr>"])
qed simp

lemma claim_same:
  "try_claim pinned now cid st = Some st1 \<Longrightarrow> st_lineage st1 = st_lineage st \<and> st_published st1 = st_published st \<and> \<not> pinned cid"
  by (auto simp: try_claim_def split: if_splits)

text \<open>A forget shrinks the lineage and removes only the directories of its id, and those only when nothing protects them.\<close>

lemma forget_dirs_named:
  assumes "dir \<in> set (forget_dirs roots cid st)" "valid_generation_id cid"
  shows "names_dir roots st cid dir"
proof -
  have "Option.bind (find_lineage cid st) (record_dir roots) = Some dir \<or> dir = cid @ ''.checkpoint''"
    using assms(1) by (auto simp: forget_dirs_def Let_def split: option.splits if_splits)
  then show ?thesis using assms(2)
    by (auto simp: names_dir_def find_lineage_def list_ex_iff bind_eq_Some_conv dest!: map_of_SomeD)
qed

lemma forget_cases:
  assumes "forget_inner roots pinned now cid k remember st = (r, st')"
  obtains (same) "st_lineage st' = st_lineage st" "st_published st' = st_published st"
    | (gone) st1 where "try_claim pinned now cid st = Some st1" "valid_generation_id cid" "cid \<notin> set (kp_ids k)"
        "\<not> list_ex (\<lambda>d. d \<in> set (kp_dirs k)) (forget_dirs roots cid st1)"
        "st_lineage st' = filter (\<lambda>(i, _). i \<noteq> cid) (st_lineage st1)"
        "st_published st' = filter (\<lambda>p. pb_dir p \<notin> set (forget_dirs roots cid st1)) (st_published st1)"
proof (cases "valid_generation_id cid")
  case False
  with assms show ?thesis by (auto simp: forget_inner_def intro: same)
next
  case True
  show ?thesis
  proof (cases "try_claim pinned now cid st")
    case None
    with assms True show ?thesis by (auto simp: forget_inner_def request_forget_def intro!: same)
  next
    case (Some st1)
    let ?dirs = "forget_dirs roots cid st1"
    show ?thesis
    proof (cases "cid \<in> set (kp_ids k) \<or> list_ex (\<lambda>d. d \<in> set (kp_dirs k)) ?dirs")
      case True
      with assms Some \<open>valid_generation_id cid\<close> claim_same [OF Some] show ?thesis
        by (auto simp: forget_inner_def request_forget_def Let_def intro!: same)
    next
      case False
      define st2 where "st2 = st1\<lparr>st_lineage := filter (\<lambda>(i, _). i \<noteq> cid) (st_lineage st1),
        st_materialized := filter (\<lambda>i. i \<noteq> cid) (st_materialized st1)\<rparr>"
      have "st_lineage st' = st_lineage (snd (discard_all ?dirs st2))" "st_published st' = st_published (snd (discard_all ?dirs st2))"
        using assms Some True False
        by (auto simp: forget_inner_def remove_lineage_def Let_def st2_def split: prod.splits)
      with Some True False show ?thesis by (intro gone [of st1]) (auto simp: discard_all_published st2_def)
    qed
  qed
qed

lemma forget_effect:
  assumes "forget_inner roots pinned now cid k remember st = (r, st')"
  shows "set (st_lineage st') \<subseteq> set (st_lineage st) \<and>
    (dir_exists dir st \<longrightarrow> \<not> dir_exists dir st' \<longrightarrow>
       names_dir roots st cid dir \<and> \<not> pinned cid \<and> cid \<notin> set (kp_ids k) \<and> dir \<notin> set (kp_dirs k))"
  using assms
proof (cases rule: forget_cases)
  case same
  then show ?thesis by (simp add: dir_exists_def)
next
  case (gone st1)
  note claimed = claim_same [OF gone(1)]
  have "names_dir roots st cid dir" "dir \<notin> set (kp_dirs k)" if "dir \<in> set (forget_dirs roots cid st1)"
    using forget_dirs_named [OF that gone(2)] that gone(4) claimed by (auto simp: names_dir_def list_ex_iff)
  with gone claimed show ?thesis by (auto simp: dir_exists_def list_ex_iff)
qed

section \<open>What a run removes\<close>

text \<open>The part of a store that protects a directory of the first store, along a run.\<close>

definition still_there :: "store \<Rightarrow> string \<Rightarrow> store \<Rightarrow> bool" where
  "still_there st0 dir st \<longleftrightarrow> set (st_lineage st) \<subseteq> set (st_lineage st0) \<and> dir_exists dir st"

lemma names_mono: "set (st_lineage st) \<subseteq> set (st_lineage st0) \<Longrightarrow> names_dir roots st cid dir \<Longrightarrow> names_dir roots st0 cid dir"
  by (auto simp: names_dir_def list_ex_iff)

lemma forget_spares:
  assumes "store_ok roots st0" "protected roots pinned k st0 dir" "still_there st0 dir st"
  shows "still_there st0 dir (snd (forget_inner roots pinned now cid k remember st))"
proof -
  obtain r st' where f: "forget_inner roots pinned now cid k remember st = (r, st')" by fastforce
  note effect = forget_effect [OF f, of dir]
  have "dir_exists dir st'"
  proof (rule ccontr)
    assume "\<not> dir_exists dir st'"
    then have gone: "names_dir roots st cid dir" "\<not> pinned cid" "cid \<notin> set (kp_ids k)" "dir \<notin> set (kp_dirs k)"
      using effect assms(3) by (auto simp: still_there_def)
    then obtain c where "names_dir roots st0 c dir" "c \<in> set (kp_ids k) \<or> pinned c" using assms(2) by (auto simp: protected_def)
    moreover have "names_dir roots st0 cid dir" using names_mono gone(1) assms(3) by (auto simp: still_there_def)
    ultimately show False using assms(1) gone(2,3) by (auto simp: store_ok_def)
  qed
  with effect f assms(3) show ?thesis by (auto simp: still_there_def)
qed

lemma by_dir_recorded:
  assumes "(cid, path) \<in> set (st_lineage st)" "record_dir roots path = Some dir" "p \<in> set (st_published st)" "pb_dir p = dir" "pb_is_dir p"
  shows "map_of (by_dir roots st) dir \<noteq> None"
proof -
  let ?step = "\<lambda>(cid, path) m. case record_dir roots path of
      Some dir \<Rightarrow> if list_ex (\<lambda>p. pb_dir p = dir \<and> pb_is_dir p) (st_published st) then hm_insert dir cid m else m | None \<Rightarrow> m"
  have keep: "map_of (fold ?step xs m) dir \<noteq> None" if "map_of m dir \<noteq> None" for xs m
    using that by (induction xs arbitrary: m) (auto split: option.split)
  have "map_of (fold ?step xs m) dir \<noteq> None" if "(cid, path) \<in> set xs" for xs m
    using that
  proof (induction xs arbitrary: m)
    case (Cons x xs)
    show ?case
    proof (cases "x = (cid, path)")
      case True
      then have "map_of (?step x m) dir \<noteq> None" using assms(2-5) by (auto simp: list_ex_iff)
      then show ?thesis using keep [of "?step x m" xs] by simp
    qed (use Cons in auto)
  qed simp
  then show ?thesis using assms(1) by (simp add: by_dir_def)
qed

text \<open>An entry without an id that may go is not a protected directory.\<close>

lemma anonymous_unprotected:
  assumes "e \<in> set (scan roots k st)" "\<not> en_keep e" "en_id e = None"
  shows "\<not> protected roots pinned k st (en_dir e)"
proof -
  obtain p where p: "p \<in> set (st_published st)" "scan_entry roots k st p = Some e"
    using assms(1) by (auto simp: scan_def map_filter_def)
  then have e: "pb_is_dir p" "en_dir e = pb_dir p" "entry_id roots st (pb_dir p) = None" "\<not> keeps_entry k None (pb_dir p)"
    using assms(2,3) by (auto simp: scan_entry_def Let_def split: if_splits)
  have "\<not> names_dir roots st cid (pb_dir p)" for cid
  proof
    assume named: "names_dir roots st cid (pb_dir p)"
    have "map_of (by_dir roots st) (pb_dir p) = None" using e(3) by (auto simp: entry_id_def split: option.splits)
    then have "pb_dir p = cid @ ''.checkpoint''" using named by_dir_recorded [where roots = roots, OF _ _ p(1) refl e(1)] by (fastforce simp: names_dir_def list_ex_iff)
    moreover have "strip_suffix ''.checkpoint'' (cid @ ''.checkpoint'') = Some cid" by (simp only: strip_suffix_Some_iff)
    ultimately show False using e(3) named by (auto simp: entry_id_def names_dir_def split: option.splits)
  qed
  with e(2,4) show ?thesis by (auto simp: protected_def keeps_entry_def)
qed

lemma forget_entry_spares:
  assumes "store_ok roots st0" "protected roots pinned k st0 dir" "still_there st0 dir (snd s)"
    "e \<in> set (scan roots k st0)" "\<not> en_keep e"
  shows "still_there st0 dir (snd (forget_entry roots pinned now k e s))"
proof (cases "en_id e")
  case None
  then have "en_dir e \<noteq> dir" using anonymous_unprotected [OF assms(4,5) None] assms(2) by auto
  with None assms(3) show ?thesis
    by (auto simp: forget_entry_def discard_def still_there_def dir_exists_def list_ex_iff split: prod.splits)
next
  case (Some cid)
  with forget_spares [OF assms(1-3), of now cid False] show ?thesis
    by (auto simp: forget_entry_def split: prod.splits forgotten.splits)
qed

lemma fold_spares:
  assumes "\<And>x s. x \<in> set xs \<Longrightarrow> P s \<Longrightarrow> P (f x s)" "P s"
  shows "P (fold f xs s)"
  using assms by (induction xs arbitrary: s) auto

lemma expired_unkept: "i \<in> set (expired entries p now) \<Longrightarrow> i < length entries \<and> \<not> en_keep (entries ! i)"
  by (auto simp: expired_def in_set_enumerate_eq)

lemma over_budget_unkept: "i \<in> set (over_budget entries held available b p now reclaims) \<Longrightarrow> i < length entries \<and> \<not> en_keep (entries ! i)"
proof -
  assume i: "i \<in> set (over_budget entries held available b p now reclaims)"
  obtain n where "reclaim_loop b reclaims entries (idle_entries entries p now) (held, available) = take n (idle_entries entries p now)"
    using reclaims.least_prefix by blast
  with i have "i \<in> set (idle_entries entries p now)" by (auto simp: over_budget_def dest: in_set_takeD split: if_splits)
  then show ?thesis by (simp add: idle_entries_def)
qed

text \<open>A run forgets the dangling records, sweeps stale ids, forgets the expired entries and then some more unkept ones.\<close>

definition run_swept :: "component list list \<Rightarrow> (string \<Rightarrow> bool) \<Rightarrow> instant \<Rightarrow> keep \<Rightarrow> store \<Rightarrow> store" where
  "run_swept roots pinned now k st =
     sweep_stale_ids pinned now (List.map_filter en_id (scan roots k st))
       (fold (\<lambda>cid s. snd (forget_inner roots pinned now cid k False s)) (dangling roots st) st)"

lemma run_shape:
  "\<exists>rp es chosen rp'.
     snd (run roots pinned now k p space pruned1 pruned2 reclaims st) =
       snd (fold (\<lambda>i. forget_entry roots pinned now k (es ! i)) chosen
         (rp', snd (fold (\<lambda>i. forget_entry roots pinned now k (scan roots k st ! i)) (expired (scan roots k st) p now)
                     (rp, run_swept roots pinned now k st)))) \<and>
     (\<forall>i\<in>set chosen. es ! i \<in> set (scan roots k st) \<and> \<not> en_keep (es ! i))"
proof -
  define entries where "entries = scan roots k st"
  define es where "es = map snd (filter (\<lambda>(i, _). i \<notin> set (expired entries p now)) (enumerate 0 entries))"
  define chosen where "chosen = over_budget es (snd (snd pruned1)) (case space of Some (_, a) \<Rightarrow> a | None \<Rightarrow> U64_MAX)
    (store_budget (map_option fst space) (po_max_bytes p)) p now reclaims"
  have "es ! i \<in> set entries \<and> \<not> en_keep (es ! i)" if "i \<in> set chosen" for i
  proof -
    have i: "i < length es" "\<not> en_keep (es ! i)" using over_budget_unkept that unfolding chosen_def by blast+
    moreover have "set es \<subseteq> set entries" by (auto simp: es_def in_set_enumerate_eq)
    ultimately show ?thesis using nth_mem by blast
  qed
  moreover have "\<exists>rp rp'. snd (run roots pinned now k p space pruned1 pruned2 reclaims st) =
       snd (fold (\<lambda>i. forget_entry roots pinned now k (es ! i)) chosen
         (rp', snd (fold (\<lambda>i. forget_entry roots pinned now k (entries ! i)) (expired entries p now) (rp, run_swept roots pinned now k st))))"
    unfolding run_def run_swept_def Let_def entries_def [symmetric] es_def [symmetric] chosen_def [symmetric]
    by (cases "chosen = []") (simp_all, blast+)
  ultimately show ?thesis unfolding entries_def by blast
qed

text \<open>What every forget and every discard of an unkept entry keeps, and the sweep of stale ids does not touch, a run keeps.\<close>

lemma run_keeps:
  assumes "P st"
    and dang: "\<And>cid s. P s \<Longrightarrow> P (snd (forget_inner roots pinned now cid k False s))"
    and sweep: "\<And>held s. P s \<Longrightarrow> P (sweep_stale_ids pinned now held s)"
    and entry: "\<And>e s. e \<in> set (scan roots k st) \<Longrightarrow> \<not> en_keep e \<Longrightarrow> P (snd s) \<Longrightarrow> P (snd (forget_entry roots pinned now k e s))"
  shows "P (run_swept roots pinned now k st)" "P (snd (run roots pinned now k p space pruned1 pruned2 reclaims st))"
proof -
  show swept: "P (run_swept roots pinned now k st)"
    unfolding run_swept_def using assms(1) dang by (intro sweep fold_spares [where P = P])
  have fold: "P (snd (fold (\<lambda>i. forget_entry roots pinned now k (es ! i)) is s))"
    if "P (snd s)" "\<And>i. i \<in> set is \<Longrightarrow> es ! i \<in> set (scan roots k st) \<and> \<not> en_keep (es ! i)" for es "is" s
    using that entry by (intro fold_spares [where P = "\<lambda>s. P (snd s)"]) auto
  obtain rp es chosen rp' where shape: "snd (run roots pinned now k p space pruned1 pruned2 reclaims st) =
      snd (fold (\<lambda>i. forget_entry roots pinned now k (es ! i)) chosen
         (rp', snd (fold (\<lambda>i. forget_entry roots pinned now k (scan roots k st ! i)) (expired (scan roots k st) p now)
                     (rp, run_swept roots pinned now k st))))"
    and chosen: "\<forall>i\<in>set chosen. es ! i \<in> set (scan roots k st) \<and> \<not> en_keep (es ! i)"
    using run_shape [of roots pinned now k p space pruned1 pruned2 reclaims st] by blast
  show "P (snd (run roots pinned now k p space pruned1 pruned2 reclaims st))"
  proof -
    have "P (snd (fold (\<lambda>i. forget_entry roots pinned now k (scan roots k st ! i)) (expired (scan roots k st) p now) (rp, run_swept roots pinned now k st)))"
      using swept expired_unkept [of _ "scan roots k st" p now] nth_mem [of _ "scan roots k st"] by (intro fold) auto
    then show ?thesis unfolding shape using chosen by (intro fold) auto
  qed
qed

text \<open>C8: Retention spares what is needed: in a store whose directories have one name each, a published checkpoint that
  a machine continues from or was created from, or that something holds a pin on, is still there after a
  run, whatever its age, the budget and the requests.\<close>

theorem retention_spares:
  assumes "store_ok roots st" "protected roots pinned k st dir" "dir_exists dir st"
  shows "dir_exists dir (snd (run roots pinned now k p space pruned1 pruned2 reclaims st))"
proof -
  have "still_there st dir (snd (run roots pinned now k p space pruned1 pruned2 reclaims st))"
  proof (rule run_keeps(2))
    show "still_there st dir st" using assms(3) by (simp add: still_there_def)
    show "still_there st dir (snd (forget_inner roots pinned now cid k False s))" if "still_there st dir s" for cid s
      by (rule forget_spares [OF assms(1,2) that])
    show "still_there st dir (sweep_stale_ids pinned now held s)" if "still_there st dir s" for held s
      using that by (simp add: still_there_def sweep_stale_ids_def dir_exists_def)
    show "still_there st dir (snd (forget_entry roots pinned now k e s))"
      if "e \<in> set (scan roots k st)" "\<not> en_keep e" "still_there st dir (snd s)" for e s
      by (rule forget_entry_spares [OF assms(1,2) that(3,1,2)])
  qed
  then show ?thesis by (simp add: still_there_def)
qed

section \<open>Requests are completed\<close>

text \<open>While a directory is there, the id still names it.\<close>

definition named_while_there :: "component list list \<Rightarrow> store \<Rightarrow> string \<Rightarrow> string \<Rightarrow> store \<Rightarrow> bool" where
  "named_while_there roots st0 cid dir st \<longleftrightarrow>
     distinct (map fst (st_lineage st)) \<and> set (st_lineage st) \<subseteq> set (st_lineage st0) \<and> (dir_exists dir st \<longrightarrow> names_dir roots st cid dir)"

lemma distinct_filter_fst: "distinct (map fst xs) \<Longrightarrow> distinct (map fst (filter P xs))"
  by (induction xs) auto

lemma named_in_forget_dirs:
  assumes "names_dir roots st cid dir" "distinct (map fst (st_lineage st))" "dir_exists dir st"
  shows "dir \<in> set (forget_dirs roots cid st)"
proof (cases "dir = cid @ ''.checkpoint''")
  case True
  with assms(3) show ?thesis by (auto simp: forget_dirs_def Let_def)
next
  case False
  then obtain path where "(cid, path) \<in> set (st_lineage st)" "record_dir roots path = Some dir" "valid_generation_id cid"
    using assms(1) by (auto simp: names_dir_def list_ex_iff)
  then have "find_lineage cid st = Some path" "record_dir roots path = Some dir"
    using assms(2) by (simp_all add: find_lineage_def map_of_eq_Some_iff)
  then show ?thesis by (simp add: forget_dirs_def Let_def)
qed

lemma forget_named:
  assumes "named_while_there roots st0 cid dir st"
  shows "named_while_there roots st0 cid dir (snd (forget_inner roots pinned now c k remember st))"
proof -
  obtain r st' where f: "forget_inner roots pinned now c k remember st = (r, st')" by fastforce
  from f have "named_while_there roots st0 cid dir st'"
  proof (cases rule: forget_cases)
    case same
    with assms show ?thesis by (simp add: named_while_there_def dir_exists_def names_dir_def)
  next
    case (gone st1)
    note claimed = claim_same [OF gone(1)]
    have "names_dir roots st' cid dir" if "dir_exists dir st'"
    proof -
      have there: "dir_exists dir st1" "dir \<notin> set (forget_dirs roots c st1)" using that gone(6) by (auto simp: dir_exists_def list_ex_iff)
      then have named: "names_dir roots st1 cid dir" "distinct (map fst (st_lineage st1))"
        using assms claimed by (auto simp: named_while_there_def dir_exists_def names_dir_def)
      then have "c \<noteq> cid" using named_in_forget_dirs there by blast
      with named(1) gone(5) show ?thesis by (auto simp: names_dir_def list_ex_iff)
    qed
    with assms claimed gone(5) show ?thesis by (auto simp: named_while_there_def distinct_filter_fst)
  qed
  with f show ?thesis by simp
qed

lemma forget_keeps_gone: "\<not> dir_exists dir st \<Longrightarrow> \<not> dir_exists dir (snd (forget_inner roots pinned now c k remember st))"
proof -
  assume no: "\<not> dir_exists dir st"
  obtain r st' where f: "forget_inner roots pinned now c k remember st = (r, st')" by fastforce
  from f have "\<not> dir_exists dir st'"
  proof (cases rule: forget_cases)
    case (gone st1)
    with no claim_same [OF gone(1)] show ?thesis by (auto simp: dir_exists_def list_ex_iff)
  qed (use no in \<open>auto simp: dir_exists_def\<close>)
  with f show ?thesis by simp
qed

lemma entry_named:
  assumes "named_while_there roots st0 cid dir (snd s)"
  shows "named_while_there roots st0 cid dir (snd (forget_entry roots pinned now k e s))"
proof (cases "en_id e")
  case None
  with assms show ?thesis
    by (auto simp: forget_entry_def discard_def named_while_there_def dir_exists_def names_dir_def list_ex_iff split: prod.splits)
next
  case (Some c)
  with forget_named [OF assms, of pinned now c k False] show ?thesis
    by (auto simp: forget_entry_def split: prod.splits forgotten.splits)
qed

lemma entry_keeps_gone: "\<not> dir_exists dir (snd s) \<Longrightarrow> \<not> dir_exists dir (snd (forget_entry roots pinned now k e s))"
proof (cases "en_id e")
  case (Some c)
  assume "\<not> dir_exists dir (snd s)"
  with Some forget_keeps_gone [of dir "snd s" roots pinned now c k False] show ?thesis
    by (auto simp: forget_entry_def split: prod.splits forgotten.splits)
qed (auto simp: forget_entry_def discard_def dir_exists_def list_ex_iff split: prod.splits)

lemma forget_removes:
  assumes "named_while_there roots st0 cid dir st" "valid_generation_id cid" "\<not> pinned cid" "cid \<notin> set (kp_ids k)"
    "\<And>d. names_dir roots st0 cid d \<Longrightarrow> d \<notin> set (kp_dirs k)"
  shows "\<not> dir_exists dir (snd (forget_inner roots pinned now cid k False st))"
proof
  assume there: "dir_exists dir (snd (forget_inner roots pinned now cid k False st))"
  then have before: "dir_exists dir st" using forget_keeps_gone by blast
  obtain st1 where claim: "try_claim pinned now cid st = Some st1" using assms(3) by (simp add: try_claim_def)
  note same = claim_same [OF claim]
  have kept: "\<not> list_ex (\<lambda>d. d \<in> set (kp_dirs k)) (forget_dirs roots cid st1)"
  proof -
    have "d \<notin> set (kp_dirs k)" if "d \<in> set (forget_dirs roots cid st1)" for d
    proof (rule assms(5))
      have "names_dir roots st cid d" using forget_dirs_named [OF that assms(2)] same by (simp add: names_dir_def)
      then show "names_dir roots st0 cid d" using assms(1) names_mono by (auto simp: named_while_there_def)
    qed
    then show ?thesis by (auto simp: list_ex_iff)
  qed
  have "dir \<in> set (forget_dirs roots cid st1)"
    using assms(1) before same by (intro named_in_forget_dirs) (auto simp: named_while_there_def names_dir_def dir_exists_def)
  moreover have "st_published (snd (forget_inner roots pinned now cid k False st)) =
      filter (\<lambda>p. pb_dir p \<notin> set (forget_dirs roots cid st1)) (st_published st1)"
    using assms(2,4) claim kept discard_all_published
    by (auto simp: forget_inner_def remove_lineage_def Let_def split: prod.splits dest!: arg_cong [where f = snd] arg_cong [where f = st_published])
  ultimately show False using there by (auto simp: dir_exists_def list_ex_iff)
qed

lemma by_dir_named:
  assumes "map_of (by_dir roots st) dir = Some c"
  shows "\<exists>path. (c, path) \<in> set (st_lineage st) \<and> record_dir roots path = Some dir"
proof -
  let ?step = "\<lambda>(cid, path) m. case record_dir roots path of
      Some dir \<Rightarrow> if list_ex (\<lambda>p. pb_dir p = dir \<and> pb_is_dir p) (st_published st) then hm_insert dir cid m else m | None \<Rightarrow> m"
  have "map_of m dir = Some c \<or> (\<exists>path. (c, path) \<in> set xs \<and> record_dir roots path = Some dir)"
    if "map_of (fold ?step xs m) dir = Some c" for xs m
    using that
  proof (induction xs arbitrary: m)
    case (Cons x xs)
    obtain i path where x: "x = (i, path)" by fastforce
    from Cons.prems have "map_of (fold ?step xs (?step x m)) dir = Some c" by simp
    from Cons.IH [OF this] show ?case unfolding x by (auto split: option.splits if_splits)
  qed simp
  from this [of "st_lineage st" "[]"] assms show ?thesis by (simp add: by_dir_def)
qed

lemma entry_id_named:
  assumes "store_ok roots st" "names_dir roots st cid dir" "p \<in> set (st_published st)" "pb_dir p = dir" "pb_is_dir p"
  shows "entry_id roots st dir = Some cid"
proof (cases "map_of (by_dir roots st) dir")
  case (Some c)
  from by_dir_named [OF Some] obtain path where path: "(c, path) \<in> set (st_lineage st)" "record_dir roots path = Some dir" by blast
  then have "valid_generation_id c" using assms(1) unfolding store_ok_def list_all_iff by blast
  with path have "names_dir roots st c dir" by (auto simp: names_dir_def list_ex_iff)
  then have "c = cid" using assms(1,2) unfolding store_ok_def by blast
  with Some show ?thesis by (simp add: entry_id_def)
next
  case None
  then have "dir = cid @ ''.checkpoint''"
    using assms(2) by_dir_recorded [where roots = roots, OF _ _ assms(3-5)] by (fastforce simp: names_dir_def list_ex_iff)
  moreover have "strip_suffix ''.checkpoint'' (cid @ ''.checkpoint'') = Some cid" by (simp only: strip_suffix_Some_iff)
  ultimately show ?thesis using None assms(2) by (simp add: entry_id_def names_dir_def)
qed

lemma fold_reaches:
  assumes "x \<in> set xs" "Q s" "\<And>y s. Q s \<Longrightarrow> Q (f y s)" "\<And>s. Q s \<Longrightarrow> R (f x s)" "\<And>y s. R s \<Longrightarrow> R (f y s)"
  shows "R (fold f xs s)"
proof -
  have R: "R (fold f ys s)" if "R s" for ys s using that assms(5) by (induction ys arbitrary: s) auto
  show ?thesis using assms(1,2)
  proof (induction xs arbitrary: s)
    case (Cons y ys)
    then show ?case using R assms(3,4) by (cases "y = x") auto
  qed simp
qed

lemma requested_expired:
  assumes "e \<in> set entries" "en_requested e" "\<not> en_keep e"
  obtains i where "i \<in> set (expired entries pol now)" "entries ! i = e"
proof -
  obtain i where i: "i < length entries" "entries ! i = e" using assms(1) by (auto simp: in_set_conv_nth)
  then have "(i, e) \<in> set (enumerate 0 entries)" by (simp add: in_set_enumerate_eq)
  then have "i \<in> set (expired entries pol now)" using assms(2,3) by (force simp: expired_def image_iff)
  with i(2) that show ?thesis by blast
qed

lemma deferred_requested:
  assumes "forget roots pinned now cid k st = (Deferred, st')"
  shows "cid \<in> fst ` set (st_forget st')"
proof (cases "valid_generation_id cid")
  case False
  with assms show ?thesis by (simp add: forget_def forget_inner_def)
next
  case valid: True
  show ?thesis
  proof (cases "try_claim pinned now cid st")
    case None
    with assms valid show ?thesis by (auto simp: forget_def forget_inner_def request_forget_def)
  next
    case (Some st1)
    show ?thesis
    proof (cases "cid \<in> set (kp_ids k) \<or> list_ex (\<lambda>d. d \<in> set (kp_dirs k)) (forget_dirs roots cid st1)")
      case True
      with assms valid Some show ?thesis by (auto simp: forget_def forget_inner_def request_forget_def Let_def)
    next
      case False
      with valid Some have "fst (forget roots pinned now cid k st) \<noteq> Deferred"
        by (simp add: forget_def forget_inner_def Let_def case_prod_beta)
      with assms show ?thesis by simp
    qed
  qed
qed


section \<open>A sample store\<close>

definition sample_roots :: "component list list" where
  "sample_roots = [components ''/s/published'']"

definition sample_id :: string where
  "sample_id = replicate 32 (CHR ''a'')"

definition sample_store :: store where
  "sample_store =
     \<lparr>st_lineage = [(sample_id, ''/s/published/x'')],
      st_published = [\<lparr>pb_dir = ''x'', pb_is_dir = True, pb_modified = Some 0, pb_manifest = None\<rparr>],
      st_pins = [(sample_id, 5)], st_forget = [], st_materialized = []\<rparr>"

definition no_keep :: keep where "no_keep = \<lparr>kp_ids = [], kp_dirs = []\<rparr>"

definition sample_pinned :: "string \<Rightarrow> bool" where
  "sample_pinned cid \<longleftrightarrow> cid = sample_id"

lemma sample_values:
  "record_dir sample_roots ''/s/published/x'' = Some ''x''" "valid_generation_id sample_id"
  "forget sample_roots sample_pinned 7 sample_id no_keep sample_store = (Deferred, request_forget 7 sample_id sample_store)"
  by code_simp+

lemma sample_store_ok:
  assumes "st_lineage st = [(sample_id, ''/s/published/x'')]"
  shows "store_ok sample_roots st" "names_dir sample_roots st sample_id ''x''"
    "names_dir sample_roots st sample_id d \<Longrightarrow> d = ''x'' \<or> d = sample_id @ ''.checkpoint''"
proof -
  have named: "names_dir sample_roots st a d \<longleftrightarrow> valid_generation_id a \<and> (a = sample_id \<and> d = ''x'' \<or> d = a @ ''.checkpoint'')" for a d
    using sample_values(1) assms by (auto simp: names_dir_def)
  have "''x'' \<noteq> b @ ''.checkpoint''" for b :: string
  proof
    assume "''x'' = b @ ''.checkpoint''"
    then have "length ''x'' = length (b @ ''.checkpoint'')" by (rule arg_cong)
    then show False by simp
  qed
  then show "store_ok sample_roots st" using sample_values(2) assms unfolding store_ok_def named by auto
  show "names_dir sample_roots st sample_id ''x''" using sample_values(2) by (simp add: named)
  show "names_dir sample_roots st sample_id d \<Longrightarrow> d = ''x'' \<or> d = sample_id @ ''.checkpoint''" by (simp add: named)
qed

theorem retention_spares_witness:
  "dir_exists ''x'' (snd (run sample_roots sample_pinned (secs 999999) no_keep policy_default None (0, 0, 0) (0, 0, 0) (\<lambda>_. 0) sample_store))"
proof (rule retention_spares)
  have lineage: "st_lineage sample_store = [(sample_id, ''/s/published/x'')]" by (simp add: sample_store_def)
  show "store_ok sample_roots sample_store" by (rule sample_store_ok(1) [OF lineage])
  show "protected sample_roots sample_pinned no_keep sample_store ''x''"
    using sample_store_ok(2) [OF lineage] by (auto simp: protected_def sample_pinned_def)
  show "dir_exists ''x'' sample_store" by (simp add: dir_exists_def sample_store_def)
qed


end
