(* ===== verification/Image_Ref.thy ===== *)
theory Image_Ref
  imports Prelude
begin

text \<open>
  Canonical image references (\<open>smolvm-protocol/src/image_ref.rs\<close>): the splitting of a reference into
  registry, path, tag and digest, and the canonical string used as cache key.
\<close>

definition rsplit_once :: "char \<Rightarrow> string \<Rightarrow> (string \<times> string) option" where
  "rsplit_once c s = map_option (\<lambda>(b, a). (rev a, rev b)) (split_once (\<lambda>x. x = c) (rev s))"

definition split_digest :: "string \<Rightarrow> string \<times> string option" where
  "split_digest img =
     (case split_once (\<lambda>c. c = CHR ''@'') img of Some (l, r) \<Rightarrow> (l, Some r) | None \<Rightarrow> (img, None))"

definition split_tag :: "string \<Rightarrow> string \<times> string option" where
  "split_tag body =
     (case rsplit_once (CHR '':'') body of
        Some (l, r) \<Rightarrow> if CHR ''/'' \<notin> set r then (l, Some r) else (body, None)
      | None \<Rightarrow> (body, None))"

definition split_suffix :: "string \<Rightarrow> string \<times> string option \<times> string option" where
  "split_suffix img =
     (case split_digest img of (body, digest) \<Rightarrow> (case split_tag body of (repo, tag) \<Rightarrow> (repo, tag, digest)))"

definition image_repo :: "string \<Rightarrow> string" where
  "image_repo img = fst (split_suffix img)"

definition split_registry :: "string \<Rightarrow> string \<times> string" where
  "split_registry img =
     (case split_once (\<lambda>c. c = CHR ''/'') img of
        Some (first, rest) \<Rightarrow>
          if CHR ''.'' \<in> set first \<or> CHR '':'' \<in> set first then (first, rest) else (''docker.io'', img)
      | None \<Rightarrow> (''docker.io'', img))"

definition is_local :: "string \<Rightarrow> bool" where
  "is_local img \<longleftrightarrow> starts_with img ''local:'' \<or> starts_with img ''local-dir:''"

definition resolve_alias :: "string \<Rightarrow> string" where
  "resolve_alias img =
     (case strip_prefix ''index.docker.io/'' img of Some rest \<Rightarrow> ''docker.io/'' @ rest | None \<Rightarrow> img)"

definition canonical_path :: "string \<Rightarrow> string \<Rightarrow> string" where
  "canonical_path registry path = (if registry = ''docker.io'' \<and> CHR ''/'' \<notin> set path then ''library/'' @ path else path)"

definition suffix_of :: "string option \<Rightarrow> string option \<Rightarrow> string" where
  "suffix_of tag digest =
     (case digest of
        Some d \<Rightarrow> ''@'' @ d
      | None \<Rightarrow> '':'' @ (case tag of Some t \<Rightarrow> t | None \<Rightarrow> ''latest''))"

definition normalize_image_ref :: "string \<Rightarrow> string" where
  "normalize_image_ref img =
     (if is_local img then img
      else
        let (ref_no_tag, tag, digest) = split_suffix (resolve_alias img);
            (registry, path) = split_registry ref_no_tag
        in registry @ ''/'' @ canonical_path registry path @ suffix_of tag digest)"

section \<open>Splitting\<close>

lemma rsplit_once_Some_iff: "rsplit_once c s = Some (l, r) \<longleftrightarrow> s = l @ c # r \<and> c \<notin> set r"
proof -
  have "rsplit_once c s = Some (l, r) \<longleftrightarrow> split_once (\<lambda>x. x = c) (rev s) = Some (rev r, rev l)"
    by (auto simp: rsplit_once_def)
  also have "\<dots> \<longleftrightarrow> rev s = rev r @ c # rev l \<and> c \<notin> set r" by (auto simp: str_simps)
  also have "rev s = rev r @ c # rev l \<longleftrightarrow> s = l @ c # r" by (metis append.assoc append_Cons append_Nil rev.simps(2) rev_append rev_rev_ident)
  finally show ?thesis .
qed

lemma split_once_None: "split_once (\<lambda>x. x = c) s = None \<longleftrightarrow> c \<notin> set s"
proof -
  have "split_once (\<lambda>x. x = c) s = None \<longleftrightarrow> dropWhile (\<lambda>x. x \<noteq> c) s = []"
    by (cases "dropWhile (\<lambda>x. x \<noteq> c) s") (simp_all only: split_once_def list.case option.simps list.simps simp_thms)
  then show ?thesis unfolding dropWhile_eq_Nil_conv by blast
qed

lemma rsplit_once_None: "rsplit_once c s = None \<longleftrightarrow> c \<notin> set s"
  by (simp add: rsplit_once_def split_once_None)

text \<open>A repository with nothing to strip, and how the two suffixes are split off it.\<close>

definition bare :: "string \<Rightarrow> bool" where
  "bare repo \<longleftrightarrow> CHR ''@'' \<notin> set repo \<and> (\<forall>l r. repo = l @ CHR '':'' # r \<longrightarrow> CHR ''/'' \<in> set r)"

lemma split_digest_at: "CHR ''@'' \<notin> set l \<Longrightarrow> split_digest (l @ CHR ''@'' # r) = (l, Some r)"
proof -
  assume "CHR ''@'' \<notin> set l"
  then have "split_once (\<lambda>c. c = CHR ''@'') (l @ CHR ''@'' # r) = Some (l, r)" by (auto simp: split_once_Some_iff)
  then show ?thesis by (simp add: split_digest_def)
qed

lemma split_digest_none: "CHR ''@'' \<notin> set img \<Longrightarrow> split_digest img = (img, None)"
  by (simp add: split_digest_def split_once_None [THEN iffD2])

lemma split_digestD: "split_digest img = (body, digest) \<Longrightarrow> CHR ''@'' \<notin> set body \<and> (\<exists>rest. img = body @ rest)"
  by (cases "split_once (\<lambda>c. c = CHR ''@'') img") (auto simp: split_digest_def split_once_None split_once_Some_iff)

lemma split_tag_bare: "bare repo \<Longrightarrow> split_tag repo = (repo, None)"
  by (auto simp: split_tag_def bare_def rsplit_once_Some_iff split: option.split)

lemma split_tag_at: "CHR '':'' \<notin> set t \<Longrightarrow> CHR ''/'' \<notin> set t \<Longrightarrow> split_tag (repo @ CHR '':'' # t) = (repo, Some t)"
proof -
  assume "CHR '':'' \<notin> set t" "CHR ''/'' \<notin> set t"
  moreover have "rsplit_once (CHR '':'') (repo @ CHR '':'' # t) = Some (repo, t)" using calculation(1) by (simp add: rsplit_once_Some_iff)
  ultimately show ?thesis by (simp add: split_tag_def)
qed

lemma split_suffix_digest: "bare repo \<Longrightarrow> split_suffix (repo @ ''@'' @ d) = (repo, None, Some d)"
  using split_tag_bare [of repo] by (simp add: split_suffix_def split_digest_at bare_def)

lemma split_suffix_tag:
  assumes "CHR ''@'' \<notin> set repo" "CHR ''@'' \<notin> set t" "CHR '':'' \<notin> set t" "CHR ''/'' \<notin> set t"
  shows "split_suffix (repo @ '':'' @ t) = (repo, Some t, None)"
  using assms split_digest_none [of "repo @ '':'' @ t"] split_tag_at [OF assms(3,4), of repo] by (simp add: split_suffix_def)

lemma last_split:
  assumes "l @ c # r = l' @ c # r'" "c \<notin> set r'"
  shows "set r' \<subseteq> set r"
proof -
  from assms(1) obtain us where "l = l' @ us \<and> us @ c # r = c # r' \<or> l @ us = l' \<and> c # r = us @ c # r'"
    unfolding append_eq_append_conv2 by blast
  then show ?thesis
  proof
    assume "l = l' @ us \<and> us @ c # r = c # r'"
    with assms(2) show ?thesis by (cases us) auto
  next
    assume "l @ us = l' \<and> c # r = us @ c # r'"
    then show ?thesis by (cases us) auto
  qed
qed

lemma split_tagD:
  assumes "split_tag body = (repo, tag)"
  shows "tag = None \<and> repo = body \<and> (\<forall>l r. body = l @ CHR '':'' # r \<longrightarrow> CHR ''/'' \<in> set r) \<or>
    (\<exists>t. tag = Some t \<and> body = repo @ CHR '':'' # t \<and> CHR '':'' \<notin> set t \<and> CHR ''/'' \<notin> set t)"
proof (cases "rsplit_once (CHR '':'') body")
  case None
  then have "CHR '':'' \<notin> set body" by (simp add: rsplit_once_None)
  moreover have "tag = None" "repo = body" using assms None by (simp_all add: split_tag_def)
  ultimately show ?thesis by auto
next
  case (Some lr)
  obtain l' r' where lr: "lr = (l', r')" by fastforce
  have split: "body = l' @ CHR '':'' # r'" "CHR '':'' \<notin> set r'" using Some lr by (simp_all add: rsplit_once_Some_iff)
  show ?thesis
  proof (cases "CHR ''/'' \<in> set r'")
    case True
    have "CHR ''/'' \<in> set r" if "body = l @ CHR '':'' # r" for l r
    proof -
      have "l @ CHR '':'' # r = l' @ CHR '':'' # r'" using that split(1) by simp
      from last_split [OF this split(2)] True show ?thesis by blast
    qed
    moreover have "tag = None" "repo = body" using assms Some lr True by (simp_all add: split_tag_def)
    ultimately show ?thesis by blast
  next
    case False
    then have "tag = Some r'" "repo = l'" using assms Some lr by (simp_all add: split_tag_def)
    with split False show ?thesis by blast
  qed
qed

lemma split_suffixD:
  assumes "split_suffix img = (repo, tag, digest)"
  shows "CHR ''@'' \<notin> set repo" "\<exists>rest. img = repo @ rest"
    "tag = Some t \<Longrightarrow> CHR ''@'' \<notin> set t \<and> CHR '':'' \<notin> set t \<and> CHR ''/'' \<notin> set t" "tag = None \<Longrightarrow> bare repo"
proof -
  obtain body where body: "split_digest img = (body, digest)" "split_tag body = (repo, tag)"
    using assms by (auto simp: split_suffix_def split: prod.splits)
  note d = split_digestD [OF body(1)] and t = split_tagD [OF body(2)]
  show "CHR ''@'' \<notin> set repo" "\<exists>rest. img = repo @ rest"
    "tag = Some t \<Longrightarrow> CHR ''@'' \<notin> set t \<and> CHR '':'' \<notin> set t \<and> CHR ''/'' \<notin> set t" using d t by auto
  show "bare repo" if "tag = None" using d t that unfolding bare_def by blast
qed

lemma split_registryD:
  assumes "split_registry repo = (registry, path)"
  shows "CHR ''/'' \<notin> set registry \<and> (CHR ''.'' \<in> set registry \<or> CHR '':'' \<in> set registry) \<and>
    (registry = ''docker.io'' \<and> path = repo \<or> repo = registry @ ''/'' @ path)"
proof (cases "registry = ''docker.io'' \<and> path = repo")
  case False
  then have "split_once (\<lambda>c. c = CHR ''/'') repo = Some (registry, path) \<and> (CHR ''.'' \<in> set registry \<or> CHR '':'' \<in> set registry)"
    using assms by (auto simp: split_registry_def split: option.splits if_splits)
  then show ?thesis by (auto simp: split_once_Some_iff)
qed simp

lemma split_registry_at:
  assumes "CHR ''/'' \<notin> set registry" "CHR ''.'' \<in> set registry \<or> CHR '':'' \<in> set registry"
  shows "split_registry (registry @ ''/'' @ path) = (registry, path)"
proof -
  have "split_once (\<lambda>c. c = CHR ''/'') (registry @ ''/'' @ path) = Some (registry, path)" using assms(1) by (auto simp: str_simps)
  then show ?thesis using assms(2) by (simp add: split_registry_def)
qed

section \<open>The canonical form\<close>

text \<open>The registry, the path below it and the suffix of a reference.\<close>

definition image_parts :: "string \<Rightarrow> string \<times> string \<times> string" where
  "image_parts img =
     (case split_suffix (resolve_alias img) of
        (repo, tag, digest) \<Rightarrow> (case split_registry repo of (registry, path) \<Rightarrow> (registry, canonical_path registry path, suffix_of tag digest)))"

lemma normalize_parts:
  "\<not> is_local img \<Longrightarrow> normalize_image_ref img = (case image_parts img of (registry, path, suffix) \<Rightarrow> registry @ ''/'' @ path @ suffix)"
  by (simp add: normalize_image_ref_def image_parts_def split: prod.split)

lemma alias_idem:
  assumes "resolve_alias img = registry @ ''/'' @ rest" "CHR ''/'' \<notin> set registry"
  shows "registry \<noteq> ''index.docker.io''"
proof
  assume "registry = ''index.docker.io''"
  then have r: "resolve_alias img = ''index.docker.io/'' @ rest" using assms(1) by simp
  then show False
    by (cases "strip_prefix ''index.docker.io/'' img") (auto simp: resolve_alias_def strip_prefix_None_iff)
qed

lemma takeWhile_until: "c \<notin> set a \<Longrightarrow> takeWhile (\<lambda>x. x \<noteq> c) (a @ c # r) = a"
  by (induction a) auto

lemma no_alias:
  assumes "registry \<noteq> ''index.docker.io''" "CHR ''/'' \<notin> set registry"
  shows "resolve_alias (registry @ CHR ''/'' # rest) = registry @ CHR ''/'' # rest"
proof -
  have "registry @ CHR ''/'' # rest \<noteq> ''index.docker.io/'' @ r" for r
  proof
    assume "registry @ CHR ''/'' # rest = ''index.docker.io/'' @ r"
    then have "takeWhile (\<lambda>c. c \<noteq> CHR ''/'') (registry @ CHR ''/'' # rest) = ''index.docker.io''" by simp
    with takeWhile_until [OF assms(2)] assms(1) show False by simp
  qed
  then have "strip_prefix ''index.docker.io/'' (registry @ CHR ''/'' # rest) = None" by (simp only: strip_prefix_None_iff) blast
  then show ?thesis by (simp add: resolve_alias_def)
qed

lemma local_registry:
  assumes "starts_with (registry @ CHR ''/'' # rest) p" "CHR ''/'' \<notin> set p"
  shows "starts_with (registry @ rest') p"
proof -
  obtain r where "registry @ CHR ''/'' # rest = p @ r" using assms(1) by (auto simp: starts_with_iff)
  then obtain us where "registry = p @ us \<and> us @ CHR ''/'' # rest = r \<or> registry @ us = p \<and> CHR ''/'' # rest = us @ r"
    unfolding append_eq_append_conv2 by blast
  then have "\<exists>us. registry = p @ us"
  proof
    assume us: "registry @ us = p \<and> CHR ''/'' # rest = us @ r"
    then show ?thesis using assms(2) by (cases us) auto
  qed blast
  then show ?thesis by (auto simp: starts_with_iff)
qed

lemma alias_not_local:
  assumes "\<not> is_local img"
  shows "\<not> is_local (resolve_alias img)"
proof (cases "strip_prefix ''index.docker.io/'' img")
  case None
  with assms show ?thesis by (simp add: resolve_alias_def)
next
  case (Some rest)
  then have "resolve_alias img = ''docker.io/'' @ rest" by (simp add: resolve_alias_def)
  then show ?thesis by (simp add: is_local_def starts_with_iff)
qed

lemma bare_below: "bare path \<Longrightarrow> CHR ''@'' \<notin> set pre \<Longrightarrow> bare (pre @ CHR ''/'' # path)"
  unfolding bare_def
proof (intro conjI allI impI)
  fix l r assume path: "CHR ''@'' \<notin> set path \<and> (\<forall>l r. path = l @ CHR '':'' # r \<longrightarrow> CHR ''/'' \<in> set r)"
    and eq: "pre @ CHR ''/'' # path = l @ CHR '':'' # r"
  from eq obtain us where "pre = l @ us \<and> us @ CHR ''/'' # path = CHR '':'' # r \<or> pre @ us = l \<and> CHR ''/'' # path = us @ CHR '':'' # r"
    unfolding append_eq_append_conv2 by blast
  then show "CHR ''/'' \<in> set r"
  proof
    assume "pre = l @ us \<and> us @ CHR ''/'' # path = CHR '':'' # r"
    then show ?thesis by (cases us) auto
  next
    assume "pre @ us = l \<and> CHR ''/'' # path = us @ CHR '':'' # r"
    with path show ?thesis by (cases us) auto
  qed
qed simp_all

lemma bare_suffix: "bare (pre @ path) \<Longrightarrow> bare path"
  unfolding bare_def
proof (intro conjI allI impI)
  fix l r assume repo: "CHR ''@'' \<notin> set (pre @ path) \<and> (\<forall>l r. pre @ path = l @ CHR '':'' # r \<longrightarrow> CHR ''/'' \<in> set r)"
    and "path = l @ CHR '':'' # r"
  then have "pre @ path = (pre @ l) @ CHR '':'' # r" by simp
  with repo show "CHR ''/'' \<in> set r" by blast
qed simp

text \<open>A reference with a digest has at most one tag before it.\<close>

definition single_tag :: "string \<Rightarrow> bool" where
  "single_tag img =
     (case split_suffix (resolve_alias img) of (repo, tag, digest) \<Rightarrow> digest = None \<or> tag = None \<or> split_suffix repo = (repo, None, None))"

lemma suffix_reparsed:
  assumes suffix: "split_suffix body = (repo, tag, digest)" and reg: "split_registry repo = (registry, path)"
    and single: "digest = None \<or> tag = None \<or> split_suffix repo = (repo, None, None)"
    and R: "R = registry @ CHR ''/'' # canonical_path registry path"
  shows "\<exists>tag'. split_suffix (R @ suffix_of tag digest) = (R, tag', digest) \<and> suffix_of tag' digest = suffix_of tag digest"
proof -
  note sD = split_suffixD [OF suffix] and rD = split_registryD [OF reg]
  have path: "repo = path \<or> repo = (registry @ ''/'') @ path" using rD by (elim conjE disjE) simp_all
  have noat: "CHR ''@'' \<notin> set registry" "CHR ''@'' \<notin> set R" using rD sD(1) unfolding R by (auto simp: canonical_path_def)
  show ?thesis
  proof (cases digest)
    case None
    define t where "t = (case tag of Some t \<Rightarrow> t | None \<Rightarrow> ''latest'')"
    have "CHR ''@'' \<notin> set t \<and> CHR '':'' \<notin> set t \<and> CHR ''/'' \<notin> set t" using sD(3) by (cases tag) (simp_all add: t_def)
    then have "split_suffix (R @ '':'' @ t) = (R, Some t, None)" using noat by (intro split_suffix_tag) simp_all
    with None show ?thesis by (intro exI [of _ "Some t"]) (simp add: suffix_of_def t_def)
  next
    case (Some d)
    with single have "bare repo" using sD(4) split_suffixD(4) [of repo repo None None] by blast
    with path have "bare path" using bare_suffix [of "registry @ ''/''" path] by (elim disjE) (simp_all only:)
    note b = bare_below [OF this]
    have "R = registry @ CHR ''/'' # path \<or> R = (registry @ ''/library'') @ CHR ''/'' # path"
      unfolding R by (simp add: canonical_path_def)
    then have "bare R" using b [OF noat(1)] b [of "registry @ ''/library''"] noat(1) by (elim disjE) (simp_all only:, simp)
    from split_suffix_digest [OF this, of d] Some show ?thesis by (intro exI [of _ None]) (simp add: suffix_of_def)
  qed
qed

lemma parts_normalized:
  assumes "\<not> is_local img" "single_tag img"
  shows "\<not> is_local (normalize_image_ref img)" "image_parts (normalize_image_ref img) = image_parts img"
proof -
  obtain repo tag digest where suffix: "split_suffix (resolve_alias img) = (repo, tag, digest)"
    by (rule prod_cases3)
  obtain registry path where reg: "split_registry repo = (registry, path)" by (rule prod.exhaust)
  define cp R where "cp = canonical_path registry path" and "R = registry @ CHR ''/'' # cp"
  note rD = split_registryD [OF reg]
  obtain rest where rest: "resolve_alias img = repo @ rest" using split_suffixD(2) [OF suffix] by blast
  have parts: "image_parts img = (registry, cp, suffix_of tag digest)" using suffix reg by (simp add: image_parts_def cp_def)
  have out: "normalize_image_ref img = R @ suffix_of tag digest" using normalize_parts [OF assms(1)] parts by (simp add: R_def)
  have named: "registry = ''docker.io'' \<or> resolve_alias img = registry @ CHR ''/'' # path @ rest"
    using rD rest by (elim conjE disjE) simp_all
  then have "registry \<noteq> ''index.docker.io''" using alias_idem [of img registry "path @ rest"] rD by (elim disjE) simp_all
  then have alias2: "resolve_alias (normalize_image_ref img) = R @ suffix_of tag digest"
    unfolding out R_def using no_alias [of registry "cp @ suffix_of tag digest"] rD by simp
  have "starts_with (resolve_alias img) p" if "starts_with (normalize_image_ref img) p" "CHR ''/'' \<notin> set p" "registry \<noteq> ''docker.io''" for p
    using local_registry [of registry "cp @ suffix_of tag digest" p] that named unfolding out R_def by simp
  from this [of "''local:''"] this [of "''local-dir:''"]
  have "\<not> is_local (normalize_image_ref img)" if "registry \<noteq> ''docker.io''"
    using alias_not_local [OF assms(1)] that unfolding is_local_def by simp blast
  moreover have "\<not> is_local (normalize_image_ref img)" if "registry = ''docker.io''"
    unfolding out R_def is_local_def starts_with_iff that by simp
  ultimately show "\<not> is_local (normalize_image_ref img)" by blast
  have "\<exists>tag'. split_suffix (R @ suffix_of tag digest) = (R, tag', digest) \<and> suffix_of tag' digest = suffix_of tag digest"
    by (rule suffix_reparsed [OF suffix reg]) (use assms(2) suffix in \<open>simp_all add: single_tag_def R_def cp_def\<close>)
  then obtain tag' where "split_suffix (R @ suffix_of tag digest) = (R, tag', digest)" "suffix_of tag' digest = suffix_of tag digest" by blast
  moreover have "split_registry R = (registry, cp)" using split_registry_at [of registry cp] rD by (simp add: R_def)
  moreover have "canonical_path registry cp = cp" by (simp add: canonical_path_def cp_def)
  ultimately show "image_parts (normalize_image_ref img) = image_parts img" using alias2 parts by (simp add: image_parts_def)
qed

section \<open>Properties\<close>



end
