(* ===== verification/Supervisor.thy ===== *)
theory Supervisor
  imports Prelude Machine_Ints Memory_Guard
begin

text \<open>
  The supervisor of the API server (\<open>src/api/supervisor.rs\<close>) with the restart configuration of a machine
  (\<open>src/config.rs\<close>), the two copies of it the server keeps (\<open>src/api/state.rs\<close>: the registry in memory and the
  database row) and what stopping, draining and starting a machine write to them
  (\<open>src/api/handlers/machines.rs\<close>). Database operations succeed; processes, locks and the outcome of a
  launch are arguments.
\<close>

section \<open>The restart configuration\<close>

datatype restart_policy = NeverRestart | AlwaysRestart | OnFailure | UnlessStopped

record restart_config =
  rc_policy :: restart_policy
  rc_max_retries :: nat
  rc_max_backoff_secs :: nat
  rc_restart_count :: nat
  rc_user_stopped :: bool

definition should_restart :: "restart_config \<Rightarrow> int option \<Rightarrow> bool" where
  "should_restart c exit_code =
     (if rc_user_stopped c then False
      else if 0 < rc_max_retries c \<and> rc_max_retries c \<le> rc_restart_count c then False
      else case rc_policy c of
             NeverRestart \<Rightarrow> False
           | AlwaysRestart \<Rightarrow> True
           | OnFailure \<Rightarrow> exit_code \<noteq> Some 0
           | UnlessStopped \<Rightarrow> True)"

definition DEFAULT_MAX_BACKOFF_SECS :: nat where "DEFAULT_MAX_BACKOFF_SECS = 300"
definition MAX_BACKOFF_EXPONENT :: nat where "MAX_BACKOFF_EXPONENT = 8"

definition backoff_duration :: "restart_config \<Rightarrow> nat" where
  "backoff_duration c =
     (let max_secs = (if 0 < rc_max_backoff_secs c then rc_max_backoff_secs c else DEFAULT_MAX_BACKOFF_SECS);
          exponent = min (rc_restart_count c) MAX_BACKOFF_EXPONENT
      in secs (min (2 ^ exponent) max_secs))"

section \<open>The restart timer\<close>

definition MIN_RESTART_DELAY :: nat where "MIN_RESTART_DELAY = secs 1"

datatype timing = Fire | Armed | Waiting

type_synonym schedule = "string \<Rightarrow> instant option"

definition restart_timing :: "schedule \<Rightarrow> string \<Rightarrow> nat \<Rightarrow> instant \<Rightarrow> timing \<times> schedule" where
  "restart_timing schedule name backoff now =
     (if backoff \<le> MIN_RESTART_DELAY then (Fire, schedule(name := None))
      else case schedule name of
             Some due \<Rightarrow> if now < due then (Waiting, schedule) else (Fire, schedule(name := None))
           | None \<Rightarrow> (Armed, schedule(name := Some (now + backoff))))"

section \<open>The state of the server\<close>

record machine_row =
  row_state :: record_state
  row_pid :: "int option"
  row_paused :: bool
  row_exit_code :: "int option"
  row_nested_virt :: bool
  row_restart :: restart_config

record machine_entry =
  me_restart :: restart_config
  me_alive :: bool

text \<open>The launches are a trace of the calls that start a machine.\<close>

record server =
  srv_rows :: "string \<Rightarrow> machine_row option"
  srv_entries :: "string \<Rightarrow> machine_entry option"
  srv_schedule :: schedule
  srv_launches :: "string list"

definition update_row :: "string \<Rightarrow> (machine_row \<Rightarrow> machine_row) \<Rightarrow> server \<Rightarrow> server" where
  "update_row name f w = w\<lparr>srv_rows := (srv_rows w)(name := map_option f (srv_rows w name))\<rparr>"

definition update_entry :: "string \<Rightarrow> (machine_entry \<Rightarrow> machine_entry) \<Rightarrow> server \<Rightarrow> server" where
  "update_entry name f w = w\<lparr>srv_entries := (srv_entries w)(name := map_option f (srv_entries w name))\<rparr>"

definition unschedule :: "string \<Rightarrow> server \<Rightarrow> server" where
  "unschedule name w = w\<lparr>srv_schedule := (srv_schedule w)(name := None)\<rparr>"

definition update_machine_state :: "string \<Rightarrow> record_state \<Rightarrow> int option \<Rightarrow> server \<Rightarrow> server" where
  "update_machine_state name st pid = update_row name (\<lambda>r. r\<lparr>row_state := st, row_pid := pid\<rparr>)"

text \<open>The count is a \<open>u32\<close> and is incremented in both copies.\<close>

definition count_restart :: "restart_config \<Rightarrow> restart_config" where
  "count_restart c = c\<lparr>rc_restart_count := (rc_restart_count c + 1) mod 2 ^ 32\<rparr>"

definition increment_restart_count :: "string \<Rightarrow> server \<Rightarrow> server" where
  "increment_restart_count name w =
     update_row name (\<lambda>r. r\<lparr>row_restart := count_restart (row_restart r)\<rparr>)
       (update_entry name (\<lambda>e. e\<lparr>me_restart := count_restart (me_restart e)\<rparr>) w)"

text \<open>The last step of an implicit start, by a request that needs the machine.\<close>

definition mark_user_stopped :: "string \<Rightarrow> bool \<Rightarrow> server \<Rightarrow> server" where
  "mark_user_stopped name stopped w =
     update_row name (\<lambda>r. r\<lparr>row_restart := (row_restart r)\<lparr>rc_user_stopped := stopped\<rparr>\<rparr>)
       (update_entry name (\<lambda>e. e\<lparr>me_restart := (me_restart e)\<lparr>rc_user_stopped := stopped\<rparr>\<rparr>) w)"

text \<open>What a check meets: the clock, whether the lifecycle lock and the entry lock are taken, whether the process of
  the row runs, the exit status of a pid, what others do until the lifecycle lock is granted, the machines that depend on
  the disks (\<open>None\<close> if that cannot be read), whether nested virtualization is allowed, and the outcome of a launch.\<close>

record check_env =
  su_now :: instant
  su_locked :: bool
  su_busy :: bool
  su_process :: bool
  su_wait :: "int \<Rightarrow> int option"
  su_during :: "server \<Rightarrow> server"
  su_clones :: "string list option"
  su_nested :: bool
  su_launch :: "string + int option"

definition is_machine_alive :: "check_env \<Rightarrow> string \<Rightarrow> server \<Rightarrow> bool" where
  "is_machine_alive E name w =
     (case srv_entries w name of Some e \<Rightarrow> su_busy E \<or> me_alive e | None \<Rightarrow> False)"

section \<open>A check\<close>

definition restart_machine :: "check_env \<Rightarrow> string \<Rightarrow> server \<Rightarrow> (string + unit) \<times> server" where
  "restart_machine E name w0 =
     (let w = su_during E w0
      in if is_machine_alive E name w then (Inr (), w)
         else case (srv_entries w name, srv_rows w name) of
                (Some e, Some r) \<Rightarrow>
                  if (case su_clones E of Some clones \<Rightarrow> clones \<noteq> [] | None \<Rightarrow> False) then (Inr (), w)
                  else if row_nested_virt r \<and> \<not> su_nested E then (Inr (), w)
                  else
                    let w1 = w\<lparr>srv_launches := srv_launches w @ [name]\<rparr>
                    in (case su_launch E of
                          Inr pid \<Rightarrow>
                            (Inr (), update_machine_state name Running pid (update_entry name (\<lambda>e. e\<lparr>me_alive := True\<rparr>) w1))
                        | Inl err \<Rightarrow> (Inl err, update_machine_state name Failed None w1))
              | _ \<Rightarrow> (Inr (), w))"

definition apply_policy :: "check_env \<Rightarrow> string \<Rightarrow> server \<Rightarrow> (string + unit) \<times> server" where
  "apply_policy E name w =
     (case srv_entries w name of
        None \<Rightarrow> (Inr (), unschedule name w)
      | Some e \<Rightarrow>
          if \<not> should_restart (me_restart e) (Option.bind (srv_rows w name) row_exit_code)
          then (Inr (), update_machine_state name Stopped None (unschedule name w))
          else case restart_timing (srv_schedule w) name (backoff_duration (me_restart e)) (su_now E) of
                 (Fire, s) \<Rightarrow> restart_machine E name (increment_restart_count name (w\<lparr>srv_schedule := s\<rparr>))
               | (_, s) \<Rightarrow> (Inr (), w\<lparr>srv_schedule := s\<rparr>))"

definition note_exit :: "check_env \<Rightarrow> string \<Rightarrow> machine_row \<Rightarrow> server \<Rightarrow> server" where
  "note_exit E name r w =
     (case row_pid r of Some pid \<Rightarrow> update_row name (\<lambda>r. r\<lparr>row_exit_code := su_wait E pid\<rparr>) w | None \<Rightarrow> w)"

definition check_machine :: "check_env \<Rightarrow> string \<Rightarrow> server \<Rightarrow> (string + unit) \<times> server" where
  "check_machine E name w =
     (if su_locked E then (Inr (), w)
      else if srv_rows w name = None \<and> (srv_entries w name = None \<or> \<not> su_busy E)
      then (Inr (), unschedule name (w\<lparr>srv_entries := (srv_entries w)(name := None)\<rparr>))
      else if is_machine_alive E name w then (Inr (), unschedule name w)
      else case srv_rows w name of
             None \<Rightarrow> apply_policy E name w
           | Some r \<Rightarrow>
               if row_paused r \<or> su_process E then (Inr (), unschedule name w)
               else apply_policy E name (note_exit E name r w))"

definition check_all_machines :: "(string \<Rightarrow> check_env) \<Rightarrow> string list \<Rightarrow> server \<Rightarrow> server" where
  "check_all_machines E names w =
     fold (\<lambda>name w. snd (check_machine (E name) name w)) names
       (w\<lparr>srv_schedule := (\<lambda>n. if n \<in> set names then srv_schedule w n else None)\<rparr>)"

section \<open>Requests that stop and start a machine\<close>

definition reconcile_confirmed_stopped_machine :: "string \<Rightarrow> bool \<Rightarrow> server \<Rightarrow> server" where
  "reconcile_confirmed_stopped_machine name explicitly_stopped w =
     update_row name
       (\<lambda>r. r\<lparr>row_state := Stopped, row_pid := None,
              row_restart := (if explicitly_stopped then (row_restart r)\<lparr>rc_user_stopped := True\<rparr> else row_restart r)\<rparr>)
       (update_entry name (\<lambda>e. e\<lparr>me_alive := False\<rparr>) w)"

datatype stop_error = NoSuchMachine | SavedExecution | BaseOfClones | SyncFailed | StillRunning string

text \<open>\<open>resolved\<close> is the probed state, \<open>clones\<close> the running clones of a frozen base, \<open>synced\<close> whether staged mounts could
  be written back (true if there are none), \<open>outcome\<close> the reason the process could not be stopped.\<close>

definition stop_machine ::
  "record_state \<Rightarrow> string list \<Rightarrow> bool \<Rightarrow> string option \<Rightarrow> string \<Rightarrow> server \<Rightarrow> (stop_error + unit) \<times> server" where
  "stop_machine resolved clones synced outcome name w =
     (case srv_rows w name of
        None \<Rightarrow> (Inl NoSuchMachine, w)
      | Some r \<Rightarrow>
          if row_paused r then (Inl SavedExecution, w)
          else if resolved = Frozen \<and> clones \<noteq> [] then (Inl BaseOfClones, w)
          else if resolved \<notin> {Running, Frozen, Unreachable} then
            (Inr (), if row_state r = Running \<or> row_state r = Stopped then reconcile_confirmed_stopped_machine name True w else w)
          else if resolved \<noteq> Unreachable \<and> \<not> synced then (Inl SyncFailed, w)
          else case outcome of
                 Some why \<Rightarrow> (Inl (StillRunning why), w)
               | None \<Rightarrow> (Inr (), reconcile_confirmed_stopped_machine name True w))"

text \<open>A machine of \<open>drain_machines\<close>, and the registration of a booted machine by \<open>start_machine\<close> with the write that
  follows it.\<close>

definition drain_machine :: "bool \<Rightarrow> string \<Rightarrow> server \<Rightarrow> bool \<times> server" where
  "drain_machine stopped name w =
     (stopped,
      if stopped then
        update_row name
          (\<lambda>r. r\<lparr>row_state := Stopped, row_pid := None, row_restart := (row_restart r)\<lparr>rc_user_stopped := True\<rparr>\<rparr>)
          (update_entry name (\<lambda>e. e\<lparr>me_alive := False\<rparr>) w)
      else w)"

definition register_started :: "int option \<Rightarrow> string \<Rightarrow> server \<Rightarrow> server" where
  "register_started pid name w =
     (case srv_rows w name of
        None \<Rightarrow> w
      | Some r \<Rightarrow>
          update_row name
            (\<lambda>r. r\<lparr>row_state := Running, row_pid := pid,
                   row_restart := (row_restart r)\<lparr>rc_user_stopped := False, rc_restart_count := 0\<rparr>\<rparr>)
            (w\<lparr>srv_entries := (srv_entries w)(name := Some \<lparr>me_restart = row_restart r, me_alive = True\<rparr>)\<rparr>))"

text \<open>The process of a machine ends on its own.\<close>

definition process_ends :: "string \<Rightarrow> server \<Rightarrow> server" where
  "process_ends name = update_entry name (\<lambda>e. e\<lparr>me_alive := False\<rparr>)"

lemmas server_ops = update_row_def update_entry_def unschedule_def update_machine_state_def increment_restart_count_def

lemma drain_as_stop: "snd (drain_machine True name w) = reconcile_confirmed_stopped_machine name True w"
  by (simp add: drain_machine_def reconcile_confirmed_stopped_machine_def)

section \<open>What a launch needs\<close>

lemma restart_machine_launches:
  "srv_launches (snd (restart_machine E name w)) = srv_launches (su_during E w) \<or>
   srv_launches (snd (restart_machine E name w)) = srv_launches (su_during E w) @ [name] \<and> (su_clones E = None \<or> su_clones E = Some [])"
  by (auto simp: restart_machine_def server_ops Let_def split: option.splits sum.splits if_splits)

lemma restart_timing_Fire:
  "restart_timing s name b now = (Fire, s') \<Longrightarrow> b \<le> MIN_RESTART_DELAY \<or> (\<exists>due. s name = Some due \<and> due \<le> now)"
  by (auto simp: restart_timing_def split: if_splits option.splits)

lemma should_restart_needs:
  "should_restart c code \<Longrightarrow> \<not> rc_user_stopped c \<and> rc_policy c \<noteq> NeverRestart \<and> (rc_max_retries c = 0 \<or> rc_restart_count c < rc_max_retries c) \<and>
     (rc_policy c = OnFailure \<longrightarrow> code \<noteq> Some 0)"
  by (auto simp: should_restart_def split: if_splits restart_policy.splits)

lemma apply_policy_launches:
  assumes "\<And>v. srv_launches (su_during E v) = srv_launches v"
    and "srv_launches (snd (apply_policy E name w)) \<noteq> srv_launches w"
  shows "srv_launches (snd (apply_policy E name w)) = srv_launches w @ [name] \<and> (su_clones E = None \<or> su_clones E = Some []) \<and>
    (\<exists>e. srv_entries w name = Some e \<and> should_restart (me_restart e) (Option.bind (srv_rows w name) row_exit_code) \<and>
       (backoff_duration (me_restart e) \<le> MIN_RESTART_DELAY \<or> (\<exists>due. srv_schedule w name = Some due \<and> due \<le> su_now E)))"
proof (cases "srv_entries w name")
  case None
  with assms(2) show ?thesis by (simp add: apply_policy_def server_ops)
next
  case (Some e)
  let ?b = "backoff_duration (me_restart e)"
  obtain t s where t: "restart_timing (srv_schedule w) name ?b (su_now E) = (t, s)" by (rule prod.exhaust)
  have should: "should_restart (me_restart e) (Option.bind (srv_rows w name) row_exit_code)"
    by (rule ccontr) (use assms(2) Some in \<open>simp add: apply_policy_def server_ops\<close>)
  have fire: "t = Fire" using assms(2) Some should t by (cases t) (auto simp: apply_policy_def)
  let ?w = "increment_restart_count name (w\<lparr>srv_schedule := s\<rparr>)"
  have same: "srv_launches (su_during E ?w) = srv_launches w" by (simp add: assms(1)) (simp add: server_ops)
  have "apply_policy E name w = restart_machine E name ?w" using Some should t fire by (simp add: apply_policy_def)
  with assms(2) restart_machine_launches [of E name ?w] restart_timing_Fire [of "srv_schedule w" name ?b "su_now E" s] t fire Some should
  show ?thesis unfolding same by auto
qed


section \<open>Backoff\<close>

definition undisturbed :: "check_env \<Rightarrow> bool" where
  "undisturbed E \<longleftrightarrow> \<not> su_locked E \<and> \<not> su_busy E \<and> \<not> su_process E"

definition down :: "string \<Rightarrow> machine_entry \<Rightarrow> server \<Rightarrow> bool" where
  "down name e w \<longleftrightarrow> srv_entries w name = Some e \<and> \<not> me_alive e \<and> (\<exists>r. srv_rows w name = Some r \<and> \<not> row_paused r \<and> \<not> row_nested_virt r)"

definition checks :: "string \<Rightarrow> check_env list \<Rightarrow> server \<Rightarrow> server" where
  "checks name envs w = fold (\<lambda>E w. snd (check_machine E name w)) envs w"

lemma checks_simps [simp]:
  "checks name [] w = w" "checks name (E # envs) w = checks name envs (snd (check_machine E name w))"
  "checks name (envs @ envs') w = checks name envs' (checks name envs w)"
  by (simp_all add: checks_def)

lemma note_exit_fields [simp]:
  "srv_entries (note_exit E name r w) = srv_entries w" "srv_schedule (note_exit E name r w) = srv_schedule w"
  "srv_launches (note_exit E name r w) = srv_launches w"
  by (simp_all add: note_exit_def server_ops split: option.split)

lemma down_check:
  assumes "down name e w" "undisturbed E"
  shows "\<exists>r. check_machine E name w = apply_policy E name (note_exit E name r w) \<and> down name e (note_exit E name r w)"
proof -
  obtain r where r: "srv_rows w name = Some r" "\<not> row_paused r" "\<not> row_nested_virt r" using assms(1) by (auto simp: down_def)
  then have "check_machine E name w = apply_policy E name (note_exit E name r w)"
    using assms by (auto simp: check_machine_def down_def undisturbed_def is_machine_alive_def)
  moreover have "down name e (note_exit E name r w)"
    using assms(1) r by (cases "row_pid r") (auto simp: down_def note_exit_def server_ops)
  ultimately show ?thesis by blast
qed

lemma check_waits:
  assumes "down name e w" "undisturbed E" "\<And>c. should_restart (me_restart e) c"
    and "restart_timing (srv_schedule w) name (backoff_duration (me_restart e)) (su_now E) = (t, s)" "t \<noteq> Fire"
  shows "down name e (snd (check_machine E name w)) \<and> srv_schedule (snd (check_machine E name w)) = s \<and>
    srv_launches (snd (check_machine E name w)) = srv_launches w"
proof -
  obtain r where r: "check_machine E name w = apply_policy E name (note_exit E name r w)" "down name e (note_exit E name r w)"
    using down_check [OF assms(1,2)] by blast
  then have "srv_entries w name = Some e" by (simp add: down_def)
  then have "apply_policy E name (note_exit E name r w) = (Inr (), (note_exit E name r w)\<lparr>srv_schedule := s\<rparr>)"
    using assms(3-5) by (cases t) (simp_all add: apply_policy_def)
  with r show ?thesis by (simp add: down_def)
qed

lemma checks_wait:
  assumes "down name e w" "list_all undisturbed envs" "\<And>c. should_restart (me_restart e) c"
    and "MIN_RESTART_DELAY < backoff_duration (me_restart e)" "srv_schedule w name = Some due" "list_all (\<lambda>E. su_now E < due) envs"
  shows "down name e (checks name envs w) \<and> srv_schedule (checks name envs w) name = Some due \<and> srv_launches (checks name envs w) = srv_launches w"
  using assms
proof (induction envs arbitrary: w)
  case (Cons E envs)
  have "restart_timing (srv_schedule w) name (backoff_duration (me_restart e)) (su_now E) = (Waiting, srv_schedule w)"
    using Cons.prems(4-6) by (simp add: restart_timing_def)
  from check_waits [OF Cons.prems(1) _ Cons.prems(3) this] Cons.prems Cons.IH [of "snd (check_machine E name w)"]
  show ?case by simp
qed simp

lemma check_fires:
  assumes "down name e w" "undisturbed E" "\<And>c. should_restart (me_restart e) c"
    and "restart_timing (srv_schedule w) name (backoff_duration (me_restart e)) (su_now E) = (Fire, s)"
    and "\<And>v. su_during E v = v" "su_clones E = Some []" "su_launch E = Inr pid"
  shows "srv_launches (snd (check_machine E name w)) = srv_launches w @ [name] \<and>
    map_option row_state (srv_rows (snd (check_machine E name w)) name) = Some Running"
proof -
  obtain r where r: "check_machine E name w = apply_policy E name (note_exit E name r w)" "down name e (note_exit E name r w)"
    using down_check [OF assms(1,2)] by blast
  then have "apply_policy E name (note_exit E name r w) =
      restart_machine E name (increment_restart_count name ((note_exit E name r w)\<lparr>srv_schedule := s\<rparr>))"
    using assms(3,4) by (simp add: apply_policy_def down_def)
  with r assms(2,5-7) show ?thesis
    by (auto simp: restart_machine_def down_def undisturbed_def is_machine_alive_def Let_def server_ops)
qed

text \<open>C20: Backoff is kept and ends: a machine that is found dead, wants to be restarted and has a backoff of more than a second
  is not launched by that check nor by any later check before the backoff is over, and the first check after it
  launches the machine.\<close>

theorem restart_after_backoff:
  assumes "down name e w" "list_all undisturbed (first # waits @ [final])" "\<And>c. should_restart (me_restart e) c"
    and "MIN_RESTART_DELAY < backoff_duration (me_restart e)" "srv_schedule w name = None"
    and "list_all (\<lambda>E. su_now E < su_now first + backoff_duration (me_restart e)) waits"
    and "su_now first + backoff_duration (me_restart e) \<le> su_now final"
    and "\<And>v. su_during final v = v" "su_clones final = Some []" "su_launch final = Inr pid"
  shows "srv_launches (checks name (first # waits) w) = srv_launches w \<and>
    srv_launches (checks name (first # waits @ [final]) w) = srv_launches w @ [name] \<and>
    map_option row_state (srv_rows (checks name (first # waits @ [final]) w) name) = Some Running"
proof -
  let ?b = "backoff_duration (me_restart e)" and ?w1 = "snd (check_machine first name w)"
  have "restart_timing (srv_schedule w) name ?b (su_now first) = (Armed, (srv_schedule w)(name := Some (su_now first + ?b)))"
    using assms(4,5) by (simp add: restart_timing_def)
  from check_waits [OF assms(1) _ assms(3) this] assms(2)
  have one: "down name e ?w1" "srv_schedule ?w1 name = Some (su_now first + ?b)" "srv_launches ?w1 = srv_launches w" by simp_all
  let ?w2 = "checks name waits ?w1"
  have two: "down name e ?w2" "srv_schedule ?w2 name = Some (su_now first + ?b)" "srv_launches ?w2 = srv_launches w"
    using checks_wait [OF one(1) _ assms(3,4) one(2) assms(6)] assms(2) one(3) by simp_all
  have "restart_timing (srv_schedule ?w2) name ?b (su_now final) = (Fire, (srv_schedule ?w2)(name := None))"
    using assms(4,7) two(2) by (simp add: restart_timing_def)
  from check_fires [OF two(1) _ assms(3) this assms(8-10)] assms(2) two(3) show ?thesis by simp
qed

section \<open>Retries\<close>

text \<open>The launches of a machine and the retries it has left, and a registry in which the machine has a limit of \<open>m\<close>.\<close>

definition launches_and_retries :: "string \<Rightarrow> server \<Rightarrow> nat" where
  "launches_and_retries name w =
     count_list (srv_launches w) name +
     (case srv_entries w name of Some e \<Rightarrow> rc_max_retries (me_restart e) - rc_restart_count (me_restart e) | None \<Rightarrow> 0)"

definition limited :: "nat \<Rightarrow> string \<Rightarrow> server \<Rightarrow> bool" where
  "limited m name w \<longleftrightarrow> (case srv_entries w name of Some e \<Rightarrow> rc_max_retries (me_restart e) = m | None \<Rightarrow> True)"

lemma restart_machine_retries:
  assumes "\<And>v. su_during E v = v"
  shows "launches_and_retries name (snd (restart_machine E other w)) \<le> launches_and_retries name w + (if other = name then 1 else 0)"
    "limited m name (snd (restart_machine E other w)) = limited m name w"
  by (auto simp: restart_machine_def assms Let_def server_ops launches_and_retries_def limited_def split: option.splits sum.splits)

lemma apply_policy_retries:
  assumes "\<And>v. su_during E v = v" "limited m name w" "0 < m" "m < 2 ^ 32"
  shows "launches_and_retries name (snd (apply_policy E other w)) \<le> launches_and_retries name w \<and> limited m name (snd (apply_policy E other w))"
proof (cases "srv_entries w other")
  case None
  with assms(2) show ?thesis by (simp add: apply_policy_def server_ops launches_and_retries_def limited_def)
next
  case (Some e)
  obtain t s where t: "restart_timing (srv_schedule w) other (backoff_duration (me_restart e)) (su_now E) = (t, s)" by (rule prod.exhaust)
  let ?fired = "should_restart (me_restart e) (Option.bind (srv_rows w other) row_exit_code) \<and> t = Fire"
  show ?thesis
  proof (cases ?fired)
    case True
    let ?w = "increment_restart_count other (w\<lparr>srv_schedule := s\<rparr>)"
    have "apply_policy E other w = restart_machine E other ?w" using Some True t by (simp add: apply_policy_def)
    moreover have "launches_and_retries name ?w + (if other = name then 1 else 0) \<le> launches_and_retries name w"
    proof (cases "other = name")
      case same: True
      then have "rc_restart_count (me_restart e) < rc_max_retries (me_restart e)" "rc_max_retries (me_restart e) = m"
        using True should_restart_needs [of "me_restart e" "Option.bind (srv_rows w other) row_exit_code"] assms(2,3) Some
        by (simp_all add: limited_def)
      with same Some assms(4) show ?thesis by (simp add: launches_and_retries_def server_ops count_restart_def)
    qed (simp add: launches_and_retries_def server_ops)
    moreover have "limited m name ?w"
      using assms(2) by (auto simp: limited_def server_ops count_restart_def split: option.splits)
    ultimately show ?thesis using restart_machine_retries(1) [OF assms(1), of name other ?w] restart_machine_retries(2) [OF assms(1), of m name other ?w]
      by (auto intro: order_trans)
  next
    case False
    then have "srv_entries (snd (apply_policy E other w)) = srv_entries w \<and> srv_launches (snd (apply_policy E other w)) = srv_launches w"
      using Some t by (cases t) (auto simp: apply_policy_def server_ops)
    with assms(2) show ?thesis by (simp add: launches_and_retries_def limited_def)
  qed
qed

lemma check_machine_retries:
  assumes "\<And>v. su_during E v = v" "limited m name w" "0 < m" "m < 2 ^ 32"
  shows "launches_and_retries name (snd (check_machine E other w)) \<le> launches_and_retries name w \<and> limited m name (snd (check_machine E other w))"
proof -
  have noted: "launches_and_retries name (note_exit E other r w) = launches_and_retries name w" "limited m name (note_exit E other r w)" for r
    using assms(2) by (simp_all add: launches_and_retries_def limited_def)
  have quiet: "launches_and_retries name (unschedule other w) = launches_and_retries name w" "limited m name (unschedule other w)"
    using assms(2) by (simp_all add: launches_and_retries_def limited_def server_ops)
  have gone: "launches_and_retries name (unschedule other (w\<lparr>srv_entries := (srv_entries w)(other := None)\<rparr>)) \<le> launches_and_retries name w"
    "limited m name (unschedule other (w\<lparr>srv_entries := (srv_entries w)(other := None)\<rparr>))"
    using assms(2) by (simp_all add: launches_and_retries_def limited_def server_ops)
  show ?thesis
    using apply_policy_retries [OF assms] apply_policy_retries [OF assms(1) noted(2) assms(3,4)] assms(2)
    by (auto simp: check_machine_def quiet gone noted(1) split: option.split)
qed

text \<open>Retries are bounded: however many checks of however many machines follow, a machine with a limit of retries is launched
  at most as often as it has retries left, while nobody else changes the configuration.\<close>

theorem retries_bounded:
  assumes "srv_entries w name = Some e" "0 < rc_max_retries (me_restart e)" "rc_max_retries (me_restart e) < 2 ^ 32"
    and "list_all (\<lambda>(other, E). su_during E = (\<lambda>v. v)) run"
  shows "count_list (srv_launches (fold (\<lambda>(other, E) w. snd (check_machine E other w)) run w)) name \<le>
    count_list (srv_launches w) name + (rc_max_retries (me_restart e) - rc_restart_count (me_restart e))"
proof -
  let ?m = "rc_max_retries (me_restart e)" and ?after = "\<lambda>run w. fold (\<lambda>(other, E) w. snd (check_machine E other w)) run w"
  have step: "launches_and_retries name (?after run w) \<le> launches_and_retries name w"
    if "limited ?m name w" "list_all (\<lambda>(other, E). su_during E = (\<lambda>v. v)) run" for run w
    using that
  proof (induction run arbitrary: w)
    case (Cons c run)
    obtain other E where c: "c = (other, E)" by (rule prod.exhaust)
    have "\<And>v. su_during E v = v" using Cons.prems(2) c by simp
    from check_machine_retries [OF this Cons.prems(1) assms(2,3), of other] Cons.IH [of "snd (check_machine E other w)"] Cons.prems(2) c
    show ?case by simp
  qed simp
  have "limited ?m name w" using assms(1) by (simp add: limited_def)
  from step [OF this assms(4)] show ?thesis using assms(1) by (simp add: launches_and_retries_def)
qed

section \<open>Stopping and starting by request\<close>

text \<open>C10: A stop by the user is undone: when a machine that its user had not stopped before is started and, later, stopped by
  request, the row says it was stopped by its user, but the copy of the configuration in memory does not; with a policy to
  restart it always, the next check launches it again.\<close>

theorem stop_undone:
  assumes "srv_rows w name = Some r" "\<not> row_paused r" "\<not> row_nested_virt r"
    and "\<not> rc_user_stopped (row_restart r)" "rc_policy (row_restart r) \<in> {AlwaysRestart, UnlessStopped}"
    and "rc_max_retries (row_restart r) = 0" "rc_restart_count (row_restart r) = 0"
    and "stop_machine Running clones True None name (register_started pid name w) = (res, w')"
    and "undisturbed E" "\<And>v. su_during E v = v" "su_clones E = Some []" "su_launch E = Inr pid'"
  shows "res = Inr () \<and>
    map_option (\<lambda>r. (row_state r, rc_user_stopped (row_restart r))) (srv_rows w' name) = Some (Stopped, True) \<and>
    srv_launches w' = srv_launches w \<and> srv_launches (snd (check_machine E name w')) = srv_launches w @ [name] \<and>
    map_option row_state (srv_rows (snd (check_machine E name w')) name) = Some Running"
proof -
  have stop: "res = Inr ()" "w' = reconcile_confirmed_stopped_machine name True (register_started pid name w)"
    using assms(1,2,8) by (auto simp: stop_machine_def register_started_def server_ops)
  let ?e = "\<lparr>me_restart = row_restart r, me_alive = False\<rparr>"
  have down: "down name ?e w'" using assms(1-3)
    by (simp add: stop(2) reconcile_confirmed_stopped_machine_def register_started_def server_ops down_def)
  have should: "should_restart (me_restart ?e) c" for c using assms(4-6) by (auto simp: should_restart_def)
  have "min (2 ^ 0) k \<le> (1 :: nat)" for k by simp
  then have "backoff_duration (me_restart ?e) \<le> MIN_RESTART_DELAY"
    using assms(7) by (auto simp: backoff_duration_def MIN_RESTART_DELAY_def Let_def secs_def)
  then have "restart_timing (srv_schedule w') name (backoff_duration (me_restart ?e)) (su_now E) = (Fire, (srv_schedule w')(name := None))"
    by (simp add: restart_timing_def)
  from check_fires [OF down assms(9) should this assms(10-12)] stop assms(1) show ?thesis
    by (simp add: reconcile_confirmed_stopped_machine_def register_started_def server_ops)
qed

text \<open>C28: A start does not resume supervision: when a machine that its user had stopped is started again, the row is cleared, but
  the copy in memory is taken before and still says that the user stopped it; when the process of the machine then ends, the
  supervisor does not launch it, whatever its policy.\<close>

theorem start_unsupervised:
  assumes "srv_rows w name = Some r" "\<not> row_paused r" "rc_user_stopped (row_restart r)" "undisturbed E"
    and "w' = process_ends name (register_started pid name w)"
  shows "map_option (\<lambda>r. (row_state r, rc_user_stopped (row_restart r))) (srv_rows w' name) = Some (Running, False) \<and>
    srv_launches (snd (check_machine E name w')) = srv_launches w \<and>
    map_option row_state (srv_rows (snd (check_machine E name w')) name) = Some Stopped"
proof -
  have w': "srv_rows w' name = Some (r\<lparr>row_state := Running, row_pid := pid,
      row_restart := (row_restart r)\<lparr>rc_user_stopped := False, rc_restart_count := 0\<rparr>\<rparr>)" "srv_launches w' = srv_launches w"
    "srv_entries w' name = Some \<lparr>me_restart = row_restart r, me_alive = False\<rparr>"
    using assms(1) by (simp_all add: assms(5) process_ends_def register_started_def server_ops)
  then show ?thesis using assms(2-4)
    by (auto simp: check_machine_def is_machine_alive_def undisturbed_def apply_policy_def should_restart_def note_exit_def server_ops split: option.split)
qed

text \<open>An implicit start after it makes the two copies agree on that flag again.\<close>

lemma implicit_start_supervises:
  assumes "srv_rows w name = Some r" "rc_policy (row_restart r) = AlwaysRestart" "rc_max_retries (row_restart r) = 0"
  shows "\<exists>e. srv_entries (mark_user_stopped name False (register_started pid name w)) name = Some e \<and> should_restart (me_restart e) c"
  using assms by (simp add: mark_user_stopped_def register_started_def server_ops should_restart_def)

section \<open>A sample server\<close>

definition always :: restart_config where
  "always = \<lparr>rc_policy = AlwaysRestart, rc_max_retries = 0, rc_max_backoff_secs = 0, rc_restart_count = 0, rc_user_stopped = False\<rparr>"

definition quiet_env :: "instant \<Rightarrow> check_env" where
  "quiet_env now = \<lparr>su_now = now, su_locked = False, su_busy = False, su_process = False, su_wait = (\<lambda>_. None), su_during = (\<lambda>v. v),
     su_clones = Some [], su_nested = False, su_launch = Inr (Some 7)\<rparr>"

definition one_machine :: "restart_config \<Rightarrow> bool \<Rightarrow> server" where
  "one_machine c up =
     \<lparr>srv_rows = [''m'' \<mapsto> \<lparr>row_state = Running, row_pid = None, row_paused = False, row_exit_code = None, row_nested_virt = False, row_restart = c\<rparr>],
      srv_entries = [''m'' \<mapsto> \<lparr>me_restart = c, me_alive = up\<rparr>], srv_schedule = (\<lambda>_. None), srv_launches = []\<rparr>"

lemma quiet_undisturbed [simp]: "undisturbed (quiet_env now)" "su_now (quiet_env now) = now" "su_during (quiet_env now) v = v"
  "su_clones (quiet_env now) = Some []" "su_launch (quiet_env now) = Inr (Some 7)"
  by (simp_all add: undisturbed_def quiet_env_def)

lemma one_machine_fields [simp]:
  "srv_launches (one_machine c up) = []" "srv_schedule (one_machine c up) = (\<lambda>_. None)"
  "srv_entries (one_machine c up) ''m'' = Some \<lparr>me_restart = c, me_alive = up\<rparr>"
  "srv_rows (one_machine c up) ''m'' =
     Some \<lparr>row_state = Running, row_pid = None, row_paused = False, row_exit_code = None, row_nested_virt = False, row_restart = c\<rparr>"
  by (simp_all add: one_machine_def)


theorem restart_after_backoff_witness:
  "srv_launches (checks ''m'' [quiet_env 0, quiet_env (secs 3)] (one_machine (always\<lparr>rc_restart_count := 2\<rparr>) False)) = [] \<and>
   srv_launches (checks ''m'' [quiet_env 0, quiet_env (secs 3), quiet_env (secs 4)] (one_machine (always\<lparr>rc_restart_count := 2\<rparr>) False)) = [''m'']"
proof -
  let ?c = "always\<lparr>rc_restart_count := 2\<rparr>"
  have b: "backoff_duration ?c = secs 4"
    by (simp add: backoff_duration_def always_def Let_def MAX_BACKOFF_EXPONENT_def DEFAULT_MAX_BACKOFF_SECS_def)
  have "down ''m'' \<lparr>me_restart = ?c, me_alive = False\<rparr> (one_machine ?c False)" by (simp add: down_def)
  moreover have "should_restart ?c code" for code by (simp add: should_restart_def always_def)
  ultimately show ?thesis
    using restart_after_backoff [of "''m''" "\<lparr>me_restart = ?c, me_alive = False\<rparr>" "one_machine ?c False" "quiet_env 0" "[quiet_env (secs 3)]" "quiet_env (secs 4)"]
    by (simp add: b MIN_RESTART_DELAY_def secs_def)
qed

theorem retries_bounded_witness:
  "count_list (srv_launches (fold (\<lambda>(other, E) w. snd (check_machine E other w)) [(''m'', quiet_env 0), (''m'', quiet_env (secs 9))]
     (one_machine (always\<lparr>rc_max_retries := 3, rc_restart_count := 2\<rparr>) False))) ''m'' \<le> 1"
  using retries_bounded [of "one_machine (always\<lparr>rc_max_retries := 3, rc_restart_count := 2\<rparr>) False" "''m''"
      "\<lparr>me_restart = always\<lparr>rc_max_retries := 3, rc_restart_count := 2\<rparr>, me_alive = False\<rparr>" "[(''m'', quiet_env 0), (''m'', quiet_env (secs 9))]"]
  by (simp add: quiet_env_def)

theorem stop_undone_witness:
  "srv_launches (snd (check_machine (quiet_env 5) ''m'' (snd (stop_machine Running [] True None ''m'' (register_started (Some 6) ''m'' (one_machine always False)))))) = [''m'']"
  using stop_undone [of "one_machine always False" "''m''" _ "[]" "Some 6" _ _ "quiet_env 5" "Some 7", OF _ _ _ _ _ _ _ prod.collapse [symmetric]]
  by (simp add: always_def)

theorem start_unsupervised_witness:
  "srv_launches (snd (check_machine (quiet_env 5) ''m''
     (process_ends ''m'' (register_started (Some 6) ''m'' (one_machine (always\<lparr>rc_user_stopped := True\<rparr>) False))))) = []"
  using start_unsupervised [of "one_machine (always\<lparr>rc_user_stopped := True\<rparr>) False" "''m''" _ "quiet_env 5" _ "Some 6", OF _ _ _ _ refl]
  by (simp add: always_def)

end
