(* ===== verification/Fabric_Lease.thy ===== *)
theory Fabric_Lease
  imports Transition Ip_Addr
begin

text \<open>
  Leases of the inter-VM network (\<open>smolvm-network/src/fabric.rs\<close>): a member owns subnet \<open>k\<close> while the socket it bound at
  \<open>k.sock\<close> accepts connections. The allocators that compete for one path run concurrently, and a step is one system call
  (\<open>UnixListener::bind\<close> is a \<open>bind\<close> followed by a \<open>listen\<close>). A connection to a socket that is bound but does not listen is refused.
\<close>

section \<open>Addresses\<close>

definition FABRIC_OCTETS :: "u8 \<times> u8" where "FABRIC_OCTETS = (100, 96)"

definition lease_guest_ip :: "u8 \<Rightarrow> u32" where
  "lease_guest_ip index = ipv4 (fst FABRIC_OCTETS) (snd FABRIC_OCTETS) index 2"

definition lease_gateway_ip :: "u8 \<Rightarrow> u32" where
  "lease_gateway_ip index = ipv4 (fst FABRIC_OCTETS) (snd FABRIC_OCTETS) index 1"

definition fabric_index :: "u32 \<Rightarrow> u8 option" where
  "fabric_index ip = (case v4_octets ip of (a, b, k, _) \<Rightarrow> if (a, b) = FABRIC_OCTETS then Some k else None)"

text \<open>The part of \<open>classify_guest_frame\<close> that forwards an IPv4 packet to another member.\<close>

definition fabric_target :: "u8 option \<Rightarrow> u32 \<Rightarrow> u8 option" where
  "fabric_target own dst =
     (case own of
        None \<Rightarrow> None
      | Some k \<Rightarrow> (case fabric_index dst of Some index \<Rightarrow> if index \<noteq> k \<and> index \<noteq> 0 then Some index else None | None \<Rightarrow> None))"

lemma v4_octets_ipv4: "v4_octets (ipv4 a b c d) = (a, b, c, d)"
  unfolding v4_octets_def ipv4_def
  by (auto simp: bit_eq_iff bit_simps dest: bit_imp_le_length)

section \<open>Allocators\<close>

datatype lease_phase =
    Outside
  | Binding | BoundAt nat | InUse | Probed | Cleared
  | Leased nat | Closing nat

record fabric_state =
  ls_path :: "nat option"
  ls_listening :: "nat \<Rightarrow> bool"
  ls_next :: nat
  ls_procs :: "nat \<Rightarrow> lease_phase"

definition move :: "nat \<Rightarrow> lease_phase \<Rightarrow> fabric_state \<Rightarrow> fabric_state" where
  "move p ph s = s\<lparr>ls_procs := (ls_procs s)(p := ph)\<rparr>"

definition bind_socket :: "fabric_state \<Rightarrow> fabric_state" where
  "bind_socket s = s\<lparr>ls_path := Some (ls_next s), ls_next := Suc (ls_next s)\<rparr>"

definition refused :: "fabric_state \<Rightarrow> bool" where
  "refused s \<longleftrightarrow> (case ls_path s of Some n \<Rightarrow> \<not> ls_listening s n | None \<Rightarrow> True)"

definition set_listening :: "nat \<Rightarrow> bool \<Rightarrow> fabric_state \<Rightarrow> fabric_state" where
  "set_listening n b s = s\<lparr>ls_listening := (ls_listening s)(n := b)\<rparr>"

text \<open>With \<open>crashes\<close> a member may end without unlinking its path.\<close>

inductive lease_step :: "bool \<Rightarrow> fabric_state \<Rightarrow> fabric_state \<Rightarrow> bool" for crashes where
  enter: "ls_procs s p = Outside \<Longrightarrow> lease_step crashes s (move p Binding s)"
| bind_ok: "ls_procs s p = Binding \<Longrightarrow> ls_path s = None \<Longrightarrow> lease_step crashes s (move p (BoundAt (ls_next s)) (bind_socket s))"
| bind_in_use: "ls_procs s p = Binding \<Longrightarrow> ls_path s \<noteq> None \<Longrightarrow> lease_step crashes s (move p InUse s)"
| listen: "ls_procs s p = BoundAt n \<Longrightarrow> lease_step crashes s (move p (Leased n) (set_listening n True s))"
| connect_ok: "ls_procs s p = InUse \<Longrightarrow> \<not> refused s \<Longrightarrow> lease_step crashes s (move p Outside s)"
| connect_refused: "ls_procs s p = InUse \<Longrightarrow> refused s \<Longrightarrow> lease_step crashes s (move p Probed s)"
| unlink: "ls_procs s p = Probed \<Longrightarrow> lease_step crashes s (move p Cleared (s\<lparr>ls_path := None\<rparr>))"
| rebind_ok: "ls_procs s p = Cleared \<Longrightarrow> ls_path s = None \<Longrightarrow> lease_step crashes s (move p (BoundAt (ls_next s)) (bind_socket s))"
| rebind_lost: "ls_procs s p = Cleared \<Longrightarrow> ls_path s \<noteq> None \<Longrightarrow> lease_step crashes s (move p Outside s)"
| drop_unlink: "ls_procs s p = Leased n \<Longrightarrow> lease_step crashes s (move p (Closing n) (s\<lparr>ls_path := None\<rparr>))"
| drop_close: "ls_procs s p = Closing n \<Longrightarrow> lease_step crashes s (move p Outside (set_listening n False s))"
| crash: "crashes \<Longrightarrow> ls_procs s p = BoundAt n \<or> ls_procs s p = Leased n \<Longrightarrow> lease_step crashes s (move p Outside (set_listening n False s))"

definition no_sockets :: fabric_state where
  "no_sockets = \<lparr>ls_path = None, ls_listening = (\<lambda>_. False), ls_next = 0, ls_procs = (\<lambda>_. Outside)\<rparr>"

text \<open>Allocations one at a time: at most one process is between entering and holding the lease.\<close>

fun allocating :: "lease_phase \<Rightarrow> bool" where
  "allocating Binding = True"
| "allocating (BoundAt _) = True"
| "allocating InUse = True"
| "allocating Probed = True"
| "allocating Cleared = True"
| "allocating _ = False"

definition one_allocator :: "fabric_state \<Rightarrow> bool" where
  "one_allocator s \<longleftrightarrow> (\<forall>p q. allocating (ls_procs s p) \<longrightarrow> allocating (ls_procs s q) \<longrightarrow> p = q)"

definition serial_step :: "fabric_state \<Rightarrow> fabric_state \<Rightarrow> bool" where
  "serial_step s s' \<longleftrightarrow> lease_step True s s' \<and> one_allocator s'"

definition lease_initial :: "fabric_state \<Rightarrow> bool" where
  "lease_initial s \<longleftrightarrow> (\<forall>p. ls_procs s p = Outside) \<and> (\<forall>n. \<not> ls_listening s n) \<and> (\<forall>n. ls_path s = Some n \<longrightarrow> n < ls_next s)"

text \<open>A leased or bound socket is the one at the path, a leased one listens and is the only one, and an allocator that is about to
  unlink or bind again or that has bound competes with no lease. Sockets are numbered below the next number.\<close>

fun leased :: "lease_phase \<Rightarrow> bool" where
  "leased (Leased _) = True"
| "leased _ = False"

fun late :: "lease_phase \<Rightarrow> bool" where
  "late (BoundAt _) = True"
| "late Probed = True"
| "late Cleared = True"
| "late _ = False"

fun socket_ok :: "fabric_state \<Rightarrow> lease_phase \<Rightarrow> bool" where
  "socket_ok s (Leased n) \<longleftrightarrow> ls_path s = Some n \<and> ls_listening s n"
| "socket_ok s (BoundAt n) \<longleftrightarrow> ls_path s = Some n"
| "socket_ok s (Closing n) \<longleftrightarrow> ls_path s \<noteq> Some n \<and> n < ls_next s"
| "socket_ok s _ \<longleftrightarrow> True"

definition lease_ok :: "fabric_state \<Rightarrow> bool" where
  "lease_ok s \<longleftrightarrow> one_allocator s \<and> (\<forall>p. socket_ok s (ls_procs s p)) \<and> (\<forall>n. ls_path s = Some n \<longrightarrow> n < ls_next s) \<and>
     (\<forall>p q. leased (ls_procs s p) \<and> (leased (ls_procs s q) \<or> late (ls_procs s q)) \<longrightarrow> p = q)"

lemma lease_okD:
  assumes "lease_ok s"
  shows "one_allocator s" "socket_ok s (ls_procs s p)" "ls_path s = Some n \<Longrightarrow> n < ls_next s"
    "leased (ls_procs s p) \<Longrightarrow> leased (ls_procs s q) \<or> late (ls_procs s q) \<Longrightarrow> p = q"
  using assms unfolding lease_ok_def by blast+

lemma late_allocating: "late ph \<Longrightarrow> allocating ph"
  by (cases ph) auto

lemma lease_ok_move:
  assumes "lease_ok s" "one_allocator (move p ph t)" "ls_procs t = ls_procs s"
    and "\<And>q. q \<noteq> p \<Longrightarrow> socket_ok t (ls_procs s q)" "socket_ok t ph" "\<And>n. ls_path t = Some n \<Longrightarrow> n < ls_next t"
    and "\<And>q. q \<noteq> p \<Longrightarrow> leased ph \<Longrightarrow> \<not> leased (ls_procs s q) \<and> \<not> late (ls_procs s q)"
    and "\<And>q. q \<noteq> p \<Longrightarrow> late ph \<Longrightarrow> \<not> leased (ls_procs s q)"
  shows "lease_ok (move p ph t)"
proof -
  have sockets: "socket_ok (move p ph t) = socket_ok t"
  proof (intro ext)
    fix x show "socket_ok (move p ph t) x = socket_ok t x" by (cases x) (simp_all add: move_def)
  qed
  have fields: "ls_procs (move p ph t) = (ls_procs s)(p := ph)" "ls_path (move p ph t) = ls_path t" "ls_next (move p ph t) = ls_next t"
    using assms(3) by (simp_all add: move_def)
  have unique: "a = b" if "leased (((ls_procs s)(p := ph)) a)" "leased (((ls_procs s)(p := ph)) b) \<or> late (((ls_procs s)(p := ph)) b)" for a b
    using that assms(7) [of b] assms(7) [of a] assms(8) [of a] lease_okD(4) [OF assms(1), of a b] by (cases "a = p"; cases "b = p") auto
  have procs: "socket_ok t (((ls_procs s)(p := ph)) q)" for q using assms(4) [of q] assms(5) by simp
  show ?thesis unfolding lease_ok_def sockets fields
    by (intro conjI allI impI assms(2) procs assms(6)) (blast intro: unique)+
qed

lemma lease_ok_stay:
  assumes "lease_ok s" "one_allocator (move p ph s)" "socket_ok s ph" "\<not> leased ph" "late ph \<Longrightarrow> refused s"
  shows "lease_ok (move p ph s)"
proof (rule lease_ok_move [OF assms(1,2) refl])
  fix q assume "late ph"
  then have "refused s" by (rule assms(5))
  then show "\<not> leased (ls_procs s q)" using lease_okD(2) [OF assms(1), of q] by (cases "ls_procs s q") (auto simp: refused_def)
qed (use assms(3,4) lease_okD(2,3) [OF assms(1)] in simp_all)

lemma lease_ok_bind:
  assumes "lease_ok s" "one_allocator (move p (BoundAt (ls_next s)) (bind_socket s))" "ls_path s = None"
  shows "lease_ok (move p (BoundAt (ls_next s)) (bind_socket s))"
proof (rule lease_ok_move [OF assms(1,2)])
  fix q show "socket_ok (bind_socket s) (ls_procs s q)" "\<not> leased (ls_procs s q)"
    using lease_okD(2) [OF assms(1), of q] assms(3) by (cases "ls_procs s q"; simp add: bind_socket_def)+
qed (simp_all add: bind_socket_def)

lemma lease_ok_listen:
  assumes "lease_ok s" "one_allocator (move p (Leased n) (set_listening n True s))" "ls_procs s p = BoundAt n"
  shows "lease_ok (move p (Leased n) (set_listening n True s))"
proof (rule lease_ok_move [OF assms(1,2)])
  fix q assume q: "q \<noteq> p"
  show "socket_ok (set_listening n True s) (ls_procs s q)"
    using lease_okD(2) [OF assms(1), of q] by (cases "ls_procs s q") (simp_all add: set_listening_def)
  have "\<not> allocating (ls_procs s q)" using lease_okD(1) [OF assms(1)] assms(3) q by (auto simp: one_allocator_def)
  then show "\<not> leased (ls_procs s q) \<and> \<not> late (ls_procs s q)"
    using lease_okD(4) [OF assms(1), of q p] assms(3) q late_allocating by auto
qed (use lease_okD(2) [OF assms(1), of p] lease_okD(3) [OF assms(1)] assms(3) in \<open>simp_all add: set_listening_def\<close>)

lemma lease_ok_unlink:
  assumes "lease_ok s" "one_allocator (move p ph (s\<lparr>ls_path := None\<rparr>))"
    and "ls_procs s p = Probed \<and> ph = Cleared \<or> ls_procs s p = Leased n \<and> ph = Closing n"
  shows "lease_ok (move p ph (s\<lparr>ls_path := None\<rparr>))"
proof (rule lease_ok_move [OF assms(1,2)])
  show "socket_ok (s\<lparr>ls_path := None\<rparr>) ph"
    using assms(3) lease_okD(2) [OF assms(1), of p] lease_okD(3) [OF assms(1), of n] by (elim disjE conjE) simp_all
  fix q assume q: "q \<noteq> p"
  have p: "leased (ls_procs s p) \<or> late (ls_procs s p)" using assms(3) by auto
  then have leased: "\<not> leased (ls_procs s q)" using lease_okD(4) [OF assms(1), of q p] q by blast
  then show "\<not> leased (ls_procs s q)" .
  have free: "ls_procs s q \<noteq> BoundAt m" for m
    using lease_okD(1) [OF assms(1)] lease_okD(4) [OF assms(1), of p q] assms(3) q by (auto simp: one_allocator_def)
  show "socket_ok (s\<lparr>ls_path := None\<rparr>) (ls_procs s q)"
    using leased lease_okD(2) [OF assms(1), of q] by (cases "ls_procs s q") (simp_all add: free)
qed (use assms(3) in \<open>elim disjE conjE; simp\<close>)+

lemma lease_ok_close:
  assumes "lease_ok s" "one_allocator (move p Outside (set_listening n False s))"
    and "ls_procs s p = BoundAt n \<or> ls_procs s p = Leased n \<or> ls_procs s p = Closing n"
  shows "lease_ok (move p Outside (set_listening n False s))"
proof (rule lease_ok_move [OF assms(1,2)])
  fix q assume q: "q \<noteq> p"
  have "ls_procs s q \<noteq> Leased n"
    using lease_okD(4) [OF assms(1), of q p] lease_okD(2) [OF assms(1), of q] lease_okD(2) [OF assms(1), of p] assms(3) q by auto
  then show "socket_ok (set_listening n False s) (ls_procs s q)"
    using lease_okD(2) [OF assms(1), of q] by (cases "ls_procs s q") (simp_all add: set_listening_def)
qed (use lease_okD(3) [OF assms(1)] in \<open>simp_all add: set_listening_def\<close>)

lemma lease_step_ok:
  assumes "lease_step True s s'" "lease_ok s" "one_allocator s'"
  shows "lease_ok s'"
  using assms(1)
proof (cases rule: lease_step.cases)
  case (listen p n)
  with assms(2,3) show ?thesis by (simp add: lease_ok_listen)
next
  case (connect_refused p)
  with assms(2,3) show ?thesis by (simp add: lease_ok_stay)
next
  case (unlink p)
  with assms(2,3) show ?thesis by (simp add: lease_ok_unlink)
next
  case (drop_unlink p n)
  with assms(2,3) show ?thesis by (simp add: lease_ok_unlink)
next
  case (drop_close p n)
  with assms(2,3) show ?thesis by (simp add: lease_ok_close)
next
  case (crash p n)
  with assms(3) lease_ok_close [OF assms(2), of p n] show ?thesis by auto
next
  case (bind_ok p)
  with assms(2,3) show ?thesis by (simp add: lease_ok_bind)
next
  case (rebind_ok p)
  with assms(2,3) show ?thesis by (simp add: lease_ok_bind)
qed (use assms(3) in \<open>auto intro!: lease_ok_stay [OF assms(2)]\<close>)

interpretation lease_runs: invariant_system serial_step lease_initial lease_ok
proof
  show "lease_ok s" if "lease_initial s" for s using that by (auto simp: lease_initial_def lease_ok_def one_allocator_def)
  show "lease_ok s'" if "serial_step s s'" "lease_ok s" for s s' using that by (auto simp: serial_step_def intro: lease_step_ok)
qed

section \<open>Properties\<close>

text \<open>C21: Members that are allocated one at a time have subnets of their own: in every run in which no two allocations
  overlap, with members leaving and crashing at any moment, at most one member holds the lease of a subnet, and its
  socket is the one at the path and accepts connections.\<close>

theorem serial_leases_exclusive:
  assumes "lease_initial s0" "serial_step\<^sup>*\<^sup>* s0 s" "ls_procs s p = Leased m" "ls_procs s q = Leased n"
  shows "p = q \<and> m = n \<and> ls_path s = Some m \<and> \<not> refused s"
proof -
  have ok: "lease_ok s" by (rule lease_runs.reachable_inv [OF assms(1,2)])
  with lease_okD(4) [OF ok, of p q] lease_okD(2) [OF ok, of p] assms(3,4) show ?thesis by (auto simp: refused_def)
qed

text \<open>C23: Two members can hold the same subnet: although no member crashed and there was no leftover, when two allocators run
  at the same time the second can probe the socket of the first after it was bound and before it listens, take it for a
  leftover, unlink it and bind its own. Both then hold the lease, and the first member is no longer reachable by the path.\<close>

theorem concurrent_leases_collide:
  "\<exists>s. (lease_step False)\<^sup>*\<^sup>* no_sockets s \<and> ls_procs s 0 = Leased 0 \<and> ls_procs s 1 = Leased 1 \<and> ls_listening s 0 \<and> ls_path s = Some 1"
proof -
  let ?s1 = "move 0 Binding no_sockets"
  let ?s2 = "move 0 (BoundAt 0) (bind_socket ?s1)"
  let ?s3 = "move 1 Binding ?s2"
  let ?s4 = "move 1 InUse ?s3"
  let ?s5 = "move 1 Probed ?s4"
  let ?s6 = "move 0 (Leased 0) (set_listening 0 True ?s5)"
  let ?s7 = "move 1 Cleared (?s6\<lparr>ls_path := None\<rparr>)"
  let ?s8 = "move 1 (BoundAt 1) (bind_socket ?s7)"
  let ?s9 = "move 1 (Leased 1) (set_listening 1 True ?s8)"
  note step_simps = move_def bind_socket_def set_listening_def refused_def no_sockets_def
  have "lease_step False no_sockets ?s1" by (rule enter) (simp add: step_simps)
  moreover have "lease_step False ?s1 ?s2" using bind_ok [of ?s1 0 False] by (simp add: step_simps)
  moreover have "lease_step False ?s2 ?s3" by (rule enter) (simp add: step_simps)
  moreover have "lease_step False ?s3 ?s4" by (rule bind_in_use) (simp_all add: step_simps)
  moreover have "lease_step False ?s4 ?s5" by (rule connect_refused) (simp_all add: step_simps)
  moreover have "lease_step False ?s5 ?s6" by (rule listen) (simp add: step_simps)
  moreover have "lease_step False ?s6 ?s7" by (rule unlink) (simp add: step_simps)
  moreover have "lease_step False ?s7 ?s8" using rebind_ok [of ?s7 1 False] by (simp add: step_simps)
  moreover have "lease_step False ?s8 ?s9" by (rule listen) (simp add: step_simps)
  ultimately have "(lease_step False)\<^sup>*\<^sup>* no_sockets ?s9" by (meson converse_rtranclp_into_rtranclp rtranclp.rtrancl_refl)
  moreover have "ls_procs ?s9 0 = Leased 0 \<and> ls_procs ?s9 1 = Leased 1 \<and> ls_listening ?s9 0 \<and> ls_path ?s9 = Some 1" by (simp add: step_simps)
  ultimately show ?thesis by blast
qed

text \<open>Every subnet has addresses of its own: packets to the guest or gateway address of a lease are forwarded to that lease by
  every other member and by no member to itself; subnet \<open>0\<close> is never a target.\<close>

theorem fabric_routes:
  "fabric_index (lease_guest_ip k) = Some k \<and> fabric_index (lease_gateway_ip k) = Some k \<and>
   fabric_target (Some own) (lease_guest_ip k) = (if k \<noteq> own \<and> k \<noteq> 0 then Some k else None) \<and>
   (lease_guest_ip k = lease_guest_ip own \<longleftrightarrow> k = own)"
proof -
  have index: "fabric_index (lease_guest_ip j) = Some j" "fabric_index (lease_gateway_ip j) = Some j" for j
    by (simp_all add: fabric_index_def lease_guest_ip_def lease_gateway_ip_def v4_octets_ipv4)
  then have "lease_guest_ip k = lease_guest_ip own \<longleftrightarrow> k = own" by (metis option.inject)
  with index show ?thesis by (simp add: fabric_target_def)
qed

text \<open>A member that crashed and one that replaces it.\<close>

theorem serial_leases_exclusive_witness:
  "\<exists>s. ls_procs s 1 = Leased 1 \<and> ls_path s = Some 1 \<and> \<not> refused s"
proof -
  define leftover where "leftover = no_sockets\<lparr>ls_path := Some 0, ls_next := 1\<rparr>"
  let ?s1 = "move 1 Binding leftover"
  let ?s2 = "move 1 InUse ?s1"
  let ?s3 = "move 1 Probed ?s2"
  let ?s4 = "move 1 Cleared (?s3\<lparr>ls_path := None\<rparr>)"
  let ?s5 = "move 1 (BoundAt 1) (bind_socket ?s4)"
  let ?s6 = "move 1 (Leased 1) (set_listening 1 True ?s5)"
  note step_simps = move_def bind_socket_def set_listening_def refused_def no_sockets_def leftover_def
  have "lease_step True leftover ?s1" by (rule enter) (simp add: step_simps)
  moreover have "lease_step True ?s1 ?s2" by (rule bind_in_use) (simp_all add: step_simps)
  moreover have "lease_step True ?s2 ?s3" by (rule connect_refused) (simp_all add: step_simps)
  moreover have "lease_step True ?s3 ?s4" by (rule unlink) (simp add: step_simps)
  moreover have "lease_step True ?s4 ?s5" using rebind_ok [of ?s4 1 True] by (simp add: step_simps)
  moreover have "lease_step True ?s5 ?s6" by (rule listen) (simp add: step_simps)
  moreover have "one_allocator ?s1" "one_allocator ?s2" "one_allocator ?s3" "one_allocator ?s4" "one_allocator ?s5" "one_allocator ?s6"
    by (auto simp: one_allocator_def step_simps)
  ultimately have "serial_step leftover ?s1" "serial_step ?s1 ?s2" "serial_step ?s2 ?s3" "serial_step ?s3 ?s4" "serial_step ?s4 ?s5" "serial_step ?s5 ?s6"
    by (simp_all only: serial_step_def simp_thms)
  then have "serial_step\<^sup>*\<^sup>* leftover ?s6" by (meson converse_rtranclp_into_rtranclp rtranclp.rtrancl_refl)
  moreover have "lease_initial leftover" by (simp add: lease_initial_def step_simps)
  moreover have "ls_procs ?s6 1 = Leased 1" by (simp add: step_simps)
  ultimately show ?thesis using serial_leases_exclusive by blast
qed

end
