(* ===== verification/Fabric_Stream.thy ===== *)
theory Fabric_Stream
  imports Bytes
begin

text \<open>
  The packet streams between the members of an inter-VM network (\<open>smolvm-network/src/fabric.rs\<close>) and the frame stream of
  a virtual machine (\<open>smolvm-network/src/frame_stream.rs\<close>): a four byte length and the packet. What a socket returns
  from one read or write is an event; the events of a connection are a list whose end is the shutdown of the stack.
\<close>

section \<open>Framing\<close>

definition MAX_PACKET :: nat where "MAX_PACKET = 65536"

text \<open>Both writers cast the length to a \<open>u32\<close>; \<open>write_packet\<close> refuses a longer packet.\<close>

definition framed :: "bytes \<Rightarrow> bytes" where
  "framed packet = nat_be 4 (length packet) @ packet"

definition write_packet :: "bytes \<Rightarrow> bytes option" where
  "write_packet packet = (if length packet < 2 ^ 32 then Some (framed packet) else None)"

datatype packet_result = EndOfStream | BadPacket | Packet bytes

definition read_packet :: "bytes \<Rightarrow> packet_result \<times> bytes" where
  "read_packet s =
     (case read_exact 4 s of
        None \<Rightarrow> (EndOfStream, [])
      | Some (header, s1) \<Rightarrow>
          let len = be_nat header
          in if len = 0 \<or> MAX_PACKET < len then (BadPacket, s1)
             else case read_exact len s1 of None \<Rightarrow> (BadPacket, []) | Some (packet, s2) \<Rightarrow> (Packet packet, s2))"

definition ethernet_frame_for_guest :: "bytes \<Rightarrow> bytes \<Rightarrow> bytes \<Rightarrow> bytes" where
  "ethernet_frame_for_guest gateway_mac guest_mac ip_packet = guest_mac @ gateway_mac @ [0x08, 0x00] @ ip_packet"

definition MAX_FRAME_LEN :: nat where "MAX_FRAME_LEN = 64 * 1024"

definition read_frame :: "bytes \<Rightarrow> (bytes \<times> bytes) option" where
  "read_frame s =
     (case read_exact 4 s of
        None \<Rightarrow> None
      | Some (header, s1) \<Rightarrow>
          let frame_len = be_nat header in if frame_len = 0 \<or> MAX_FRAME_LEN < frame_len then None else read_exact frame_len s1)"

definition write_frame :: "bytes \<Rightarrow> bytes option" where
  "write_frame frame = (if frame = [] \<or> MAX_FRAME_LEN < length frame then None else Some (framed frame))"

section \<open>The receiving side\<close>

text \<open>\<open>Arrived bs\<close> is a read of \<open>length bs\<close> bytes and more waiting, so that a read for fewer bytes leaves the rest;
  \<open>Arrived []\<close> is the end of the stream.\<close>

datatype read_event = Arrived bytes | NotReady | ReadFailed

datatype read_outcome = Filled bytes | CleanEof | Broken

fun read_full :: "nat \<Rightarrow> bytes \<Rightarrow> read_event list \<Rightarrow> read_outcome \<times> read_event list" where
  "read_full want filled [] = (if length filled < want then (Broken, []) else (Filled filled, []))"
| "read_full want filled (ev # evs) =
     (if want \<le> length filled then (Filled filled, ev # evs)
      else case ev of
             NotReady \<Rightarrow> read_full want filled evs
           | ReadFailed \<Rightarrow> (Broken, evs)
           | Arrived bs \<Rightarrow>
               if bs = [] then (if filled = [] then CleanEof else Broken, evs)
               else if length filled + length bs \<le> want then read_full want (filled @ bs) evs
               else (Filled (filled @ take (want - length filled) bs), Arrived (drop (want - length filled) bs) # evs))"

fun waiting :: "read_event list \<Rightarrow> nat" where
  "waiting [] = 0"
| "waiting (Arrived bs # evs) = length bs + waiting evs"
| "waiting (_ # evs) = waiting evs"

lemma read_full_consumes:
  "read_full want filled evs = (Filled b, evs') \<Longrightarrow> length filled \<le> want \<Longrightarrow> waiting evs' + want \<le> waiting evs + length filled"
proof (induction want filled evs rule: read_full.induct)
  case (2 want filled ev evs)
  then show ?case by (cases ev) (auto split: if_splits)
qed (auto split: if_splits)

text \<open>The frames offered to the queue of the guest, in order.\<close>

function run_peer_reader :: "bytes \<Rightarrow> bytes \<Rightarrow> read_event list \<Rightarrow> bytes list" where
  "run_peer_reader gateway_mac guest_mac evs =
     (case read_full 4 [] evs of
        (Filled header, evs1) \<Rightarrow>
          let len = be_nat header
          in if len = 0 \<or> MAX_PACKET < len then []
             else (case read_full len [] evs1 of
                     (Filled packet, evs2) \<Rightarrow>
                       ethernet_frame_for_guest gateway_mac guest_mac packet # run_peer_reader gateway_mac guest_mac evs2
                   | _ \<Rightarrow> [])
      | _ \<Rightarrow> [])"
  by auto
termination
  by (relation "measure (\<lambda>(_, _, evs). waiting evs)") (auto dest!: read_full_consumes [OF sym])

declare run_peer_reader.simps [simp del]

section \<open>The sending side\<close>

text \<open>\<open>Accepted n\<close> is a write of at most \<open>n\<close> bytes, \<open>Stalled\<close> a timeout with whether the limit of a frame has passed. The result of
  \<open>write_full\<close> is what went out on the connection and whether all of it did.\<close>

datatype write_event = Accepted nat | Stalled bool | WriteFailed

fun write_full :: "bytes \<Rightarrow> write_event list \<Rightarrow> bytes \<times> bool" where
  "write_full buf [] = ([], buf = [])"
| "write_full buf (ev # evs) =
     (if buf = [] then ([], True)
      else case ev of
             Accepted n \<Rightarrow>
               if n = 0 then ([], False)
               else (case write_full (drop n buf) evs of (sent, ok) \<Rightarrow> (take n buf @ sent, ok))
           | Stalled over_limit \<Rightarrow> if over_limit then ([], False) else write_full buf evs
           | WriteFailed \<Rightarrow> ([], False))"

text \<open>A connection is what was written on it. An attempt is whether a new connection succeeds and the writes on it.\<close>

type_synonym connections = "u8 \<Rightarrow> bytes option"
type_synonym attempt = "bool \<times> write_event list"

definition send_to_peer :: "attempt \<Rightarrow> u8 \<Rightarrow> bytes \<Rightarrow> connections \<Rightarrow> bool \<times> connections" where
  "send_to_peer att index packet conns =
     (case att of (connects, evs) \<Rightarrow>
        (case conns index of
           None \<Rightarrow>
             if \<not> connects then (False, conns)
             else (case write_full (framed packet) evs of (sent, ok) \<Rightarrow> (ok, conns(index := Some sent)))
         | Some wire \<Rightarrow> (case write_full (framed packet) evs of (sent, ok) \<Rightarrow> (ok, conns(index := Some (wire @ sent))))))"

definition forward_packet :: "u8 \<Rightarrow> bytes \<Rightarrow> attempt \<Rightarrow> attempt \<Rightarrow> connections \<Rightarrow> connections" where
  "forward_packet index packet first second conns =
     (case send_to_peer first index packet conns of
        (True, conns1) \<Rightarrow> conns1
      | (False, conns1) \<Rightarrow> snd (send_to_peer second index packet (conns1(index := None))))"

fun run_sender :: "(u8 \<times> bytes \<times> attempt \<times> attempt) list \<Rightarrow> connections \<Rightarrow> connections" where
  "run_sender [] conns = conns"
| "run_sender ((index, packet, first, second) # more_packets) conns =
     run_sender more_packets (forward_packet index packet first second conns)"

section \<open>What arrives\<close>

text \<open>The bytes that arrive before the stream ends or fails.\<close>

fun data_of :: "read_event list \<Rightarrow> bytes" where
  "data_of [] = []"
| "data_of (Arrived bs # evs) = (if bs = [] then [] else bs @ data_of evs)"
| "data_of (NotReady # evs) = data_of evs"
| "data_of (ReadFailed # evs) = []"

lemma read_full_data:
  assumes "length filled \<le> want"
  shows "want \<le> length filled + length (data_of evs) \<Longrightarrow>
      \<exists>evs'. read_full want filled evs = (Filled (filled @ take (want - length filled) (data_of evs)), evs') \<and>
        data_of evs' = drop (want - length filled) (data_of evs)"
    and "length filled + length (data_of evs) < want \<Longrightarrow> fst (read_full want filled evs) = CleanEof \<or> fst (read_full want filled evs) = Broken"
  using assms
proof (induction want filled evs rule: read_full.induct)
  case (2 want filled ev evs)
  {
    case 1
    with 2 show ?case by (cases ev) (auto split: if_splits)
  next
    case 2
    with "2.IH" show ?case by (cases ev) (auto split: if_splits)
  }
qed auto

lemma length_framed [simp]: "length (framed p) = 4 + length p"
  by (simp add: framed_def)

lemma framed_header: "length p \<le> MAX_PACKET \<Longrightarrow> be_nat (take 4 (framed p @ rest)) = length p"
  by (simp add: framed_def MAX_PACKET_def be_simps)

lemma nat_be_small: "n < 256 \<Longrightarrow> nat_be 4 n = [0, 0, 0, of_nat n]"
proof -
  assume "n < 256"
  moreover have "(4 :: nat) = Suc (Suc (Suc (Suc 0)))" by simp
  ultimately show ?thesis by (simp only: nat_be.simps append.simps div_less mod_less div_0 mod_0 semiring_1_class.of_nat_0)
qed

definition sendable :: "bytes \<Rightarrow> bool" where
  "sendable p \<longleftrightarrow> p \<noteq> [] \<and> length p \<le> MAX_PACKET"

lemma reader_next:
  assumes "sendable p" "data_of evs = framed p @ rest"
  shows "\<exists>evs'. run_peer_reader g m evs = ethernet_frame_for_guest g m p # run_peer_reader g m evs' \<and> data_of evs' = rest"
proof -
  obtain evs1 where 1: "read_full 4 [] evs = (Filled (take 4 (framed p @ rest)), evs1)" "data_of evs1 = drop 4 (framed p @ rest)"
    using read_full_data(1) [of "[]" 4 evs] assms(2) by auto
  have "data_of evs1 = p @ rest" using 1(2) by (simp add: framed_def)
  then obtain evs2 where 2: "read_full (length p) [] evs1 = (Filled p, evs2)" "data_of evs2 = rest"
    using read_full_data(1) [of "[]" "length p" evs1] by auto
  have "be_nat (take 4 (framed p @ rest)) = length p" using assms(1) framed_header by (simp add: sendable_def)
  with 1 2 assms(1) show ?thesis by (subst run_peer_reader.simps) (auto simp: sendable_def)
qed

lemma reader_stops:
  assumes "sendable p" "data_of evs @ missing = framed p @ rest" "length (data_of evs) < length (framed p)"
  shows "run_peer_reader g m evs = []"
proof (cases "length (data_of evs) < 4")
  case True
  then have "fst (read_full 4 [] evs) = CleanEof \<or> fst (read_full 4 [] evs) = Broken" using read_full_data(2) [of "[]" 4 evs] by simp
  then show ?thesis by (subst run_peer_reader.simps) (auto split: prod.split read_outcome.split)
next
  case False
  obtain evs1 where 1: "read_full 4 [] evs = (Filled (take 4 (data_of evs)), evs1)" "data_of evs1 = drop 4 (data_of evs)"
    using read_full_data(1) [of "[]" 4 evs] False by auto
  have "take 4 (data_of evs) = take 4 (framed p @ rest)" using False assms(2) [symmetric] by simp
  then have len: "be_nat (take 4 (data_of evs)) = length p" using assms(1) framed_header by (simp add: sendable_def)
  have "length (data_of evs1) < length p" using 1(2) assms(3) False by simp
  then have "fst (read_full (length p) [] evs1) = CleanEof \<or> fst (read_full (length p) [] evs1) = Broken"
    using read_full_data(2) [of "[]" "length p" evs1] by simp
  with 1(1) len show ?thesis by (subst run_peer_reader.simps) (auto simp: Let_def split: prod.split read_outcome.split)
qed

text \<open>C22: Packets arrive whole, in order and once: however the socket cuts up the stream of a connection and whatever timeouts come
  between, a peer delivers to its guest exactly the packets that have arrived completely, each in a frame from the gateway, and all
  of them when nothing is missing.\<close>

theorem fabric_stream_exact:
  assumes "list_all sendable ps" "data_of evs @ missing = concat (map framed ps)"
  shows "\<exists>n\<le>length ps. run_peer_reader g m evs = map (ethernet_frame_for_guest g m) (take n ps) \<and>
    (n < length ps \<longrightarrow> length (data_of evs) < length (concat (map framed (take (Suc n) ps)))) \<and> (missing = [] \<longrightarrow> n = length ps)"
  using assms
proof (induction ps arbitrary: evs)
  case Nil
  then have "length (data_of evs) < 4" by simp
  then have "fst (read_full 4 [] evs) = CleanEof \<or> fst (read_full 4 [] evs) = Broken" using read_full_data(2) [of "[]" 4 evs] by simp
  then have "run_peer_reader g m evs = []" by (subst run_peer_reader.simps) (auto split: prod.split read_outcome.split)
  then show ?case by simp
next
  case (Cons p ps)
  have data: "data_of evs @ missing = framed p @ concat (map framed ps)" using Cons.prems(2) by simp
  show ?case
  proof (cases "length (framed p) \<le> length (data_of evs)")
    case True
    define rest where "rest = drop (length (framed p)) (data_of evs)"
    have "take (length (framed p)) (data_of evs) = framed p" using True arg_cong [OF data, of "take (length (framed p))"] by simp
    then have split: "data_of evs = framed p @ rest" unfolding rest_def by (metis append_take_drop_id)
    then have "rest @ missing = concat (map framed ps)" using data by simp
    moreover obtain evs' where evs': "run_peer_reader g m evs = ethernet_frame_for_guest g m p # run_peer_reader g m evs'" "data_of evs' = rest"
      using reader_next [OF _ split] Cons.prems(1) by auto
    ultimately obtain n where "n \<le> length ps" "run_peer_reader g m evs' = map (ethernet_frame_for_guest g m) (take n ps)"
      "n < length ps \<longrightarrow> length rest < length (concat (map framed (take (Suc n) ps)))" "missing = [] \<longrightarrow> n = length ps"
      using Cons.IH [of evs'] Cons.prems(1) by auto
    then show ?thesis using evs'(1) split by (intro exI [of _ "Suc n"]) auto
  next
    case False
    then have "run_peer_reader g m evs = []" using reader_stops [OF _ data] Cons.prems(1) by auto
    moreover have "missing \<noteq> []"
    proof
      assume "missing = []"
      then have "length (data_of evs) = length (framed p @ concat (map framed ps))" using data by simp
      with False show False by simp
    qed
    ultimately show ?thesis using False by (intro exI [of _ 0]) auto
  qed
qed


theorem fabric_stream_exact_witness:
  "run_peer_reader [1] [2] [Arrived [0, 0], NotReady, Arrived [0, 2, 5], Arrived [6, 0, 0, 0], NotReady, Arrived [1, 9], Arrived []] =
     map (ethernet_frame_for_guest [1] [2]) [[5, 6], [9]]"
proof -
  let ?evs = "[Arrived [0, 0], NotReady, Arrived [0, 2, 5], Arrived [6, 0, 0, 0], NotReady, Arrived [1, 9], Arrived []]"
  have "list_all sendable [[5, 6], [9]]" by (simp add: sendable_def MAX_PACKET_def)
  moreover have "data_of ?evs @ [] = concat (map framed [[5, 6], [9]])" by (simp add: framed_def nat_be_small)
  ultimately show ?thesis using fabric_stream_exact [of "[[5, 6], [9]]" ?evs "[]" "[1]" "[2]"] by auto
qed

lemma frame_roundtrip: "write_frame frame = Some w \<Longrightarrow> read_frame (w @ rest) = Some (frame, rest)"
  by (auto simp: write_frame_def read_frame_def framed_def MAX_FRAME_LEN_def be_simps split: if_splits)

lemma torn_header_is_clean: "length torn < 4 \<Longrightarrow> read_packet torn = (EndOfStream, [])"
  by (simp add: read_packet_def read_exact_def)

end
