(* ===== verification/Port_Mapping.thy ===== *)
theory Port_Mapping
  imports Prelude Ip_Addr Image_Ref
begin

text \<open>
  Published ports (\<open>src/data/network.rs\<close>): parsing of mappings and of ranges with their protocol, their expansion, the check
  for duplicates and the printed form, and the choice of the resolver of a guest.
\<close>

section \<open>Mappings\<close>

datatype port_protocol = TcpPort | UdpPort

datatype port_error =
    UnsupportedProtocol string | InvalidPort string string | PortZero string | RangeReversed string string
  | RangesDiffer string | TooManyMappings nat | DuplicateHostPort nat port_protocol

record port_mapping =
  pm_host :: nat
  pm_guest :: nat
  pm_protocol :: port_protocol

record mapped_range =
  pr_start :: nat
  pr_end :: nat

record port_mapping_spec =
  ps_host :: mapped_range
  ps_guest :: mapped_range
  ps_protocol :: port_protocol

definition MAX_PORT_MAPPINGS :: nat where "MAX_PORT_MAPPINGS = 64"

definition split_protocol :: "string \<Rightarrow> port_error + string \<times> port_protocol" where
  "split_protocol spec =
     (case rsplit_once (CHR ''/'') spec of
        None \<Rightarrow> Inr (spec, TcpPort)
      | Some (ports, proto) \<Rightarrow>
          if proto = ''tcp'' then Inr (ports, TcpPort)
          else if proto = ''udp'' then Inr (ports, UdpPort)
          else Inl (UnsupportedProtocol proto))"

definition parse_port :: "string \<Rightarrow> string \<Rightarrow> port_error + nat" where
  "parse_port spec kind =
     (case parse_uint 65536 spec of
        None \<Rightarrow> Inl (InvalidPort kind spec)
      | Some port \<Rightarrow> if port = 0 then Inl (PortZero kind) else Inr port)"

definition parse_range :: "string \<Rightarrow> string \<Rightarrow> port_error + mapped_range" where
  "parse_range spec kind =
     (case (case split_once (\<lambda>c. c = CHR ''-'') spec of
              Some (start, finish) \<Rightarrow>
                (case parse_port start kind of
                   Inl e \<Rightarrow> Inl e
                 | Inr a \<Rightarrow> (case parse_port finish kind of Inl e \<Rightarrow> Inl e | Inr b \<Rightarrow> Inr (a, b)))
            | None \<Rightarrow> (case parse_port spec kind of Inl e \<Rightarrow> Inl e | Inr a \<Rightarrow> Inr (a, a))) of
        Inl e \<Rightarrow> Inl e
      | Inr (a, b) \<Rightarrow> if b < a then Inl (RangeReversed kind spec) else Inr \<lparr>pr_start = a, pr_end = b\<rparr>)"

definition range_len :: "mapped_range \<Rightarrow> nat" where
  "range_len r = pr_end r - pr_start r + 1"

definition parse_spec :: "string \<Rightarrow> port_error + port_mapping_spec" where
  "parse_spec full =
     (case split_protocol full of
        Inl e \<Rightarrow> Inl e
      | Inr (spec, protocol) \<Rightarrow>
          (case (case split_once (\<lambda>c. c = CHR '':'') spec of
                   Some (host, guest) \<Rightarrow>
                     (case parse_range host ''host'' of
                        Inl e \<Rightarrow> Inl e
                      | Inr h \<Rightarrow> (case parse_range guest ''guest'' of Inl e \<Rightarrow> Inl e | Inr g \<Rightarrow> Inr (h, g)))
                 | None \<Rightarrow> (case parse_range spec '''' of Inl e \<Rightarrow> Inl e | Inr r \<Rightarrow> Inr (r, r))) of
             Inl e \<Rightarrow> Inl e
           | Inr (h, g) \<Rightarrow>
               if range_len h \<noteq> range_len g then Inl (RangesDiffer spec)
               else Inr \<lparr>ps_host = h, ps_guest = g, ps_protocol = protocol\<rparr>))"

definition expand_spec :: "port_mapping_spec \<Rightarrow> port_mapping list" where
  "expand_spec s =
     map (\<lambda>(h, g). \<lparr>pm_host = h, pm_guest = g, pm_protocol = ps_protocol s\<rparr>)
       (zip [pr_start (ps_host s)..<pr_end (ps_host s) + 1] [pr_start (ps_guest s)..<pr_end (ps_guest s) + 1])"

definition expand_all :: "port_mapping_spec list \<Rightarrow> port_error + port_mapping list" where
  "expand_all specs =
     (let count = sum_list (map (\<lambda>s. range_len (ps_host s)) specs)
      in if MAX_PORT_MAPPINGS < count then Inl (TooManyMappings count) else Inr (concat (map expand_spec specs)))"

fun check_from :: "(nat \<times> port_protocol) list \<Rightarrow> port_mapping list \<Rightarrow> port_error + unit" where
  "check_from seen [] = Inr ()"
| "check_from seen (p # ps) =
     (if (pm_host p, pm_protocol p) \<in> set seen then Inl (DuplicateHostPort (pm_host p) (pm_protocol p))
      else check_from ((pm_host p, pm_protocol p) # seen) ps)"

definition check_duplicates :: "port_mapping list \<Rightarrow> port_error + unit" where
  "check_duplicates ports = check_from [] ports"

definition split_tuples :: "port_mapping list \<Rightarrow> (nat \<times> nat) list \<times> (nat \<times> nat) list" where
  "split_tuples ports =
     (let of_protocol = (\<lambda>protocol. map (\<lambda>p. (pm_host p, pm_guest p)) (filter (\<lambda>p. pm_protocol p = protocol) ports))
      in (of_protocol TcpPort, of_protocol UdpPort))"

definition mapping_label :: "port_mapping \<Rightarrow> string" where
  "mapping_label m =
     (case pm_protocol m of
        TcpPort \<Rightarrow> show_radix 10 (pm_host m) @ '':'' @ show_radix 10 (pm_guest m)
      | UdpPort \<Rightarrow> show_radix 10 (pm_host m) @ '':'' @ show_radix 10 (pm_guest m) @ ''/udp'')"

definition parse_ports :: "string \<Rightarrow> port_error + nat \<times> nat" where
  "parse_ports spec =
     (case split_once (\<lambda>c. c = CHR '':'') spec of
        Some (host, guest) \<Rightarrow>
          (case parse_port host ''host'' of
             Inl e \<Rightarrow> Inl e
           | Inr h \<Rightarrow> (case parse_port guest ''guest'' of Inl e \<Rightarrow> Inl e | Inr g \<Rightarrow> Inr (h, g)))
      | None \<Rightarrow> (case parse_port spec '''' of Inl e \<Rightarrow> Inl e | Inr p \<Rightarrow> Inr (p, p)))"

definition parse_mapping :: "string \<Rightarrow> port_error + port_mapping" where
  "parse_mapping full =
     (case split_protocol full of
        Inl e \<Rightarrow> Inl e
      | Inr (spec, protocol) \<Rightarrow>
          (case parse_ports spec of
             Inl e \<Rightarrow> Inl e
           | Inr (h, g) \<Rightarrow> Inr \<lparr>pm_host = h, pm_guest = g, pm_protocol = protocol\<rparr>))"

definition port_ok :: "nat \<Rightarrow> bool" where
  "port_ok p \<longleftrightarrow> 1 \<le> p \<and> p \<le> 65535"

definition mapping_ok :: "port_mapping \<Rightarrow> bool" where
  "mapping_ok m \<longleftrightarrow> port_ok (pm_host m) \<and> port_ok (pm_guest m)"

section \<open>Well-formed mappings\<close>

lemma parse_port_ok: "parse_port spec kind = Inr p \<Longrightarrow> port_ok p"
  using parse_uint_bound [of 65536 spec] by (auto simp: parse_port_def port_ok_def split: option.splits if_splits)

lemma parse_range_ok: "parse_range spec kind = Inr r \<Longrightarrow> port_ok (pr_start r) \<and> port_ok (pr_end r) \<and> pr_start r \<le> pr_end r"
  by (auto simp: parse_range_def parse_port_ok split: option.splits sum.splits if_splits dest!: parse_port_ok)

definition spec_ok :: "port_mapping_spec \<Rightarrow> bool" where
  "spec_ok s \<longleftrightarrow> port_ok (pr_start (ps_host s)) \<and> port_ok (pr_end (ps_host s)) \<and> port_ok (pr_start (ps_guest s)) \<and> port_ok (pr_end (ps_guest s)) \<and>
     pr_start (ps_host s) \<le> pr_end (ps_host s) \<and> pr_start (ps_guest s) \<le> pr_end (ps_guest s) \<and> range_len (ps_host s) = range_len (ps_guest s)"

lemma parse_spec_ok: "parse_spec full = Inr s \<Longrightarrow> spec_ok s"
  by (auto simp: parse_spec_def spec_ok_def split: option.splits sum.splits if_splits dest!: parse_range_ok)

lemma length_expand_spec: "spec_ok s \<Longrightarrow> length (expand_spec s) = range_len (ps_host s)"
  by (simp add: expand_spec_def spec_ok_def range_len_def)

lemma expand_spec_ok: "spec_ok s \<Longrightarrow> list_all mapping_ok (expand_spec s)"
  by (auto simp: expand_spec_def list_all_iff mapping_ok_def spec_ok_def port_ok_def dest!: set_zip_leftD set_zip_rightD elim!: in_set_zipE)

lemma check_from_distinct:
  "check_from seen ps = Inr () \<longleftrightarrow> distinct (map (\<lambda>p. (pm_host p, pm_protocol p)) ps) \<and> (\<forall>p\<in>set ps. (pm_host p, pm_protocol p) \<notin> set seen)"
  by (induction ps arbitrary: seen) (auto simp: image_iff)

lemma expand_all_ok:
  "list_all spec_ok specs \<Longrightarrow> length (concat (map expand_spec specs)) = sum_list (map (\<lambda>s. range_len (ps_host s)) specs) \<and>
     list_all mapping_ok (concat (map expand_spec specs))"
  by (induction specs) (auto simp: length_expand_spec expand_spec_ok)


section \<open>Printing and parsing\<close>

lemma digit_roundtrip: "d < 10 \<Longrightarrow> to_digit 10 (digit_char d) = Some d"
  by (simp add: to_digit_def Let_def)

lemma digits_value_snoc: "digits_value 10 (ds @ [c]) = digits_value 10 ds * 10 + (case to_digit 10 c of Some d \<Rightarrow> d | None \<Rightarrow> 0)"
  by (simp add: digits_value_def)

lemma show_radix_digits: "show_radix 10 n \<noteq> [] \<and> list_all (is_digit_of 10) (show_radix 10 n) \<and> digits_value 10 (show_radix 10 n) = n"
proof (induction n rule: less_induct)
  case (less n)
  show ?case
  proof (cases "n < 10")
    case True
    then have "show_radix 10 n = [digit_char n]" by (subst show_radix.simps) simp
    with digit_roundtrip [OF True] show ?thesis by (simp add: is_digit_of_def digits_value_def del: digit_char.simps)
  next
    case False
    then have "show_radix 10 n = show_radix 10 (n div 10) @ [digit_char (n mod 10)]" by (subst show_radix.simps) simp
    with less [of "n div 10"] False digit_roundtrip [of "n mod 10"] show ?thesis
      by (simp add: digits_value_snoc is_digit_of_def del: digit_char.simps)
  qed
qed

lemma digit_plain: "is_digit_of 10 c \<Longrightarrow> c \<noteq> CHR ''+'' \<and> c \<noteq> CHR '':'' \<and> c \<noteq> CHR ''/'' \<and> c \<noteq> CHR ''-''"
  by (auto simp: is_digit_of_def to_digit_def)

lemma show_radix_plain: "CHR '':'' \<notin> set (show_radix 10 n)" "CHR ''/'' \<notin> set (show_radix 10 n)" "CHR ''-'' \<notin> set (show_radix 10 n)"
  using show_radix_digits [of n] digit_plain by (auto simp: list_all_iff)

lemma parse_port_show: "port_ok n \<Longrightarrow> parse_port (show_radix 10 n) kind = Inr n"
proof -
  assume n: "port_ok n"
  obtain c r where cr: "show_radix 10 n = c # r" using show_radix_digits [of n] by (cases "show_radix 10 n") auto
  then have "c \<noteq> CHR ''+''" using show_radix_digits [of n] digit_plain [of c] by simp
  then have "parse_uint 65536 (show_radix 10 n) = Some n"
    using show_radix_digits [of n] n cr by (auto simp: parse_uint_def Let_def port_ok_def)
  with n show ?thesis by (simp add: parse_port_def port_ok_def)
qed

lemma split_once_at: "c \<notin> set a \<Longrightarrow> split_once (\<lambda>x. x = c) (a @ c # b) = Some (a, b)"
  by (auto simp: split_once_Some_iff)

lemma split_protocol_label: "split_protocol (mapping_label m) = Inr (show_radix 10 (pm_host m) @ '':'' @ show_radix 10 (pm_guest m), pm_protocol m)"
proof (cases "pm_protocol m")
  case TcpPort
  have "rsplit_once (CHR ''/'') (show_radix 10 (pm_host m) @ '':'' @ show_radix 10 (pm_guest m)) = None"
    by (simp add: rsplit_once_None show_radix_plain)
  with TcpPort show ?thesis by (simp add: split_protocol_def mapping_label_def)
next
  case UdpPort
  have "rsplit_once (CHR ''/'') ((show_radix 10 (pm_host m) @ '':'' @ show_radix 10 (pm_guest m)) @ CHR ''/'' # ''udp'') =
      Some (show_radix 10 (pm_host m) @ '':'' @ show_radix 10 (pm_guest m), ''udp'')"
    by (subst rsplit_once_Some_iff) simp
  with UdpPort show ?thesis by (simp add: split_protocol_def mapping_label_def)
qed

text \<open>The printed form of a mapping parses back to it, as a mapping and as a specification that expands to nothing else.\<close>

theorem label_roundtrip:
  assumes "mapping_ok m"
  shows "parse_mapping (mapping_label m) = Inr m \<and> (\<exists>s. parse_spec (mapping_label m) = Inr s \<and> expand_all [s] = Inr [m])"
proof -
  let ?h = "show_radix 10 (pm_host m)" and ?g = "show_radix 10 (pm_guest m)"
  have ports: "port_ok (pm_host m)" "port_ok (pm_guest m)" using assms by (simp_all add: mapping_ok_def)
  have split: "split_once (\<lambda>c. c = CHR '':'') (?h @ '':'' @ ?g) = Some (?h, ?g)" using split_once_at [OF show_radix_plain(1)] by simp
  have mapping: "parse_mapping (mapping_label m) = Inr m"
    using split ports by (simp add: parse_mapping_def split_protocol_label parse_ports_def parse_port_show)
  have range: "parse_range (show_radix 10 n) kind = Inr \<lparr>pr_start = n, pr_end = n\<rparr>" if "port_ok n" for n kind
  proof -
    have "split_once (\<lambda>c. c = CHR ''-'') (show_radix 10 n) = None" by (simp add: split_once_None show_radix_plain)
    with that show ?thesis by (simp add: parse_range_def parse_port_show)
  qed
  let ?s = "\<lparr>ps_host = \<lparr>pr_start = pm_host m, pr_end = pm_host m\<rparr>, ps_guest = \<lparr>pr_start = pm_guest m, pr_end = pm_guest m\<rparr>, ps_protocol = pm_protocol m\<rparr>"
  have "parse_spec (mapping_label m) = Inr ?s"
    using split ports by (simp add: parse_spec_def split_protocol_label range range_len_def)
  moreover have "expand_all [?s] = Inr [m]" by (simp add: expand_all_def expand_spec_def range_len_def MAX_PORT_MAPPINGS_def)
  ultimately show ?thesis using mapping by blast
qed


theorem label_roundtrip_witness:
  "parse_mapping (mapping_label \<lparr>pm_host = 8080, pm_guest = 80, pm_protocol = UdpPort\<rparr>) = Inr \<lparr>pm_host = 8080, pm_guest = 80, pm_protocol = UdpPort\<rparr>"
  using label_roundtrip [of "\<lparr>pm_host = 8080, pm_guest = 80, pm_protocol = UdpPort\<rparr>"] by (simp add: mapping_ok_def port_ok_def)

section \<open>The resolver of a guest\<close>

datatype network_backend = NoBackend | TsiBackend | VirtioBackend

datatype dns_source = DnsOverride | HostResolvConf | SystemdUplink | BackendDefault

definition resolv_conf_nameservers :: "string \<Rightarrow> ip_addr list" where
  "resolv_conf_nameservers contents =
     List.map_filter (\<lambda>line. Option.bind (strip_prefix ''nameserver'' (trim line)) (\<lambda>rest. parse_ip (trim rest))) (lines contents)"

definition v4_only :: "ip_addr list \<Rightarrow> u32 list" where
  "v4_only addrs = List.map_filter (\<lambda>a. case a of V4 ip \<Rightarrow> Some ip | V6 _ \<Rightarrow> None) addrs"

definition select_dns ::
  "u32 option \<Rightarrow> network_backend \<Rightarrow> ip_addr list \<Rightarrow> ip_addr list \<Rightarrow> (u32 \<Rightarrow> bool) \<Rightarrow> u32 option \<times> dns_source" where
  "select_dns dns_override backend host systemd_uplink reachable =
     (case dns_override of
        Some addr \<Rightarrow> (Some addr, DnsOverride)
      | None \<Rightarrow>
          let usable = (\<lambda>addr. \<not> v4_is_loopback addr \<and> reachable addr);
              found =
                (case backend of
                   NoBackend \<Rightarrow> None
                 | VirtioBackend \<Rightarrow> (case v4_only host of addr # _ \<Rightarrow> Some (addr, HostResolvConf) | [] \<Rightarrow> None)
                 | TsiBackend \<Rightarrow>
                     (case find usable (v4_only host) of
                        Some addr \<Rightarrow> Some (addr, HostResolvConf)
                      | None \<Rightarrow> map_option (\<lambda>addr. (addr, SystemdUplink)) (find usable (v4_only systemd_uplink))))
          in (case found of Some (addr, source) \<Rightarrow> (Some addr, source) | None \<Rightarrow> (None, BackendDefault)))"

lemma tsi_resolver_usable:
  "select_dns None TsiBackend host uplink reachable = (Some addr, source) \<Longrightarrow> \<not> v4_is_loopback addr \<and> reachable addr"
  by (auto simp: select_dns_def Let_def find_Some_iff split: option.splits)

end
