(* ===== verification/Spec2Isabelle.thy ===== *)
theory Spec2Isabelle
  imports Egress_Safety Mediation Gateway Service_Safety Oci_Layer Memory_Guard Pin_Lock Retention Image_Ref
    Supervisor Fabric_Lease Fabric_Stream Port_Mapping
begin

text \<open>
  A verification of the parts of \<open>smolvm\<close> whose answers other parts rely on without checking them again:
  which destinations a virtual machine may reach, which worker a request may have, what extracting
  an untrusted image layer may touch, what a node that runs short of memory or disk may pause or remove, and when
  a machine that died is launched again. The sources are Rust files under \<open>src/\<close>; a name in typewriter below is a
  file or a function there.

  \<^bold>\<open>The parts and how they interact.\<close> The network stack of a machine (\<open>smolvm-network\<close>) terminates the guest's
  traffic on the host. Its poll loop asks the egress policy (\<open>egress.rs\<close>) about every flow. The policy combines
  a list of networks and host names, the addresses learned from the DNS answers for allowed names
  (\<open>dns.rs\<close>), the ordered rules of \<open>egress_rule.rs\<close> with patterns stored by \<open>host_pattern.rs\<close>, and a floor under
  everything; the list can be replaced while the machine runs. DNS queries pass the gateway of \<open>stack.rs\<close>, which
  refuses, answers or relays them and hands answers to the policy. A watchlist (\<open>watchlist.rs\<close>) names destinations
  to report or block. Flows for a credential proxy carry a handshake (\<open>mediated_egress.rs\<close>, \<open>intercept.rs\<close>), and
  \<open>sni.rs\<close> and \<open>opening.rs\<close> read the first bytes of a connection. Machines of one inter-VM network hold leases of
  its subnets and send each other packets over streams (\<open>fabric.rs\<close>); \<open>data/network.rs\<close> reads the ports a machine
  publishes and chooses its resolver. Independently, the API server keeps pools of forked
  workers: the rows and transactions of \<open>db.rs\<close>, the request handlers of \<open>pools.rs\<close>, a controller that fills
  and cleans the pools (\<open>pool_controller.rs\<close>), and an admission controller (\<open>admission.rs\<close>) whose device limits
  the claims must respect. \<open>smolvm-oci-layer\<close> extracts image layers as root on the host, and the images are named by
  the canonical references of \<open>image_ref.rs\<close>. Last, four background tasks keep a node usable: \<open>memory_pressure.rs\<close>
  pauses and resumes branch children, \<open>cache_base_budget.rs\<close> removes cache disk bases, \<open>checkpoint_retention.rs\<close>
  forgets stored checkpoints that no machine needs, and \<open>supervisor.rs\<close> launches dead machines again as their restart
  policy and the requests to stop and start them say.

  \<^bold>\<open>Shared theories.\<close> \<open>Prelude\<close> has the lemma collections and the generic facts on lists, options and maps; \<open>Bytes\<close>
  the byte strings and the functions of \<open>str\<close> the sources call; \<open>Ip_Addr\<close> the standard library's addresses, their
  parsing and printing; \<open>Machine_Ints\<close> the saturating and wrapping integers; \<open>File_System\<close> a Linux
  file system with symbolic links; \<open>Transition\<close> the locale of a step relation with an invariant, in which
  reachability is treated once and which is interpreted for the gateway, the pools, the admission
  registry, the controller, the whole pool service, the locks of a pin and the leases of a subnet.

  \<^bold>\<open>Network.\<close>
  \<^item> \<open>Host_Pattern\<close> (\<open>host_pattern.rs\<close>): encoder and matcher; a strict pattern means what its labels say.
  \<^item> \<open>Dns_Wire\<close> (\<open>dns.rs\<close>): names with compression, questions, answers, refusals; decoding inverts encoding, ends
    within sixteen jumps and makes progress inside the packet.
  \<^item> \<open>Watchlist\<close> (\<open>watchlist.rs\<close>): parsing, matching, reloading, reports limited in time; the source stays
    well-formed whatever its file becomes.
  \<^item> \<open>Egress_Policy\<close> (\<open>egress.rs\<close>, \<open>egress_rule.rs\<close>) defines the policy and its step relation; \<open>Egress_Safety\<close> shows over
    every reachable policy that metadata addresses and, on the strict floor, all reserved ones stay
    closed, that each allowed flow has a reason, that a replacement revokes, that answers cannot open the
    floor, and the two cases in which an address survives its name.
  \<^item> \<open>Mediation\<close> and \<open>Opening\<close> (\<open>mediated_egress.rs\<close>, \<open>intercept.rs\<close>, \<open>sni.rs\<close>, \<open>opening.rs\<close>): readers accept exactly
    what the writers produce; the server name of a ClientHello is read exactly.
  \<^item> \<open>Gateway\<close> (\<open>stack.rs\<close>, \<open>dns_relay.rs\<close>): the DNS side of the poll loop as a step relation; only allowed names are
    relayed, an answer reaches only who asked, and a framed answer is written whole.
  \<^item> \<open>Fabric_Lease\<close> (\<open>fabric.rs\<close>): the allocators of one subnet as a step relation whose steps are system calls. One
    allocation at a time gives each subnet one owner, also after crashes; two at a time can both succeed.
  \<^item> \<open>Fabric_Stream\<close> (\<open>fabric.rs\<close>, \<open>frame_stream.rs\<close>): framing, the reader and the sender of a connection. A reader delivers
    exactly the packets that arrived, however they are cut up; a sender can go on in the middle of a torn frame.
  \<^item> \<open>Port_Mapping\<close> (\<open>data/network.rs\<close>): what is accepted and expanded is well-formed, and labels parse back.

  \<^bold>\<open>Worker pools.\<close>
  \<^item> \<open>Fork_Pool\<close>, \<open>Pool_Invariant\<close>, \<open>Pool_Safety\<close> (\<open>pool.rs\<close>, \<open>db.rs\<close>): each transaction as a function on the
    tables, the invariant of the tables, and idempotent claims, harmless refusals, complete expiry.
  \<^item> \<open>Admission\<close>, \<open>Admission_Invariant\<close>, \<open>Admission_Shares\<close>, \<open>Admission_Safety\<close> (\<open>admission.rs\<close>): sampling, the
    search for a probe, the controller and the registry; ticks return, limits stay within ceilings,
    a raise keeps the memory reserve, shares are max-min fair.
  \<^item> \<open>Lease_Payload\<close>, \<open>Retry\<close>, \<open>Pool_Handlers\<close>, \<open>Pool_Controller\<close> (\<open>pools.rs\<close>, \<open>retry.rs\<close>, \<open>pool_controller.rs\<close>): the
    handlers and the passes of the controller with every early return. What other requests do while one
    waits is an argument, a function on the state at each point where the code gives up its locks.
  \<^item> \<open>Pool_Service\<close> and \<open>Service_Safety\<close> compose them: every handler and every part of a pass is a sequence of steps
    of one service, so its invariant holds whatever the order of requests, passes, fills and recoveries.

  \<^bold>\<open>Image layers.\<close> \<open>Oci_Layer\<close> (\<open>smolvm-oci-layer/src/lib.rs\<close>) models the extraction of a layer entry by entry. A layer
  cannot change what lies outside its directory under stated conditions, and two of these conditions
  are shown to be needed by layers that escape when they fail.

  \<^bold>\<open>Image references.\<close> \<open>Image_Ref\<close> (\<open>image_ref.rs\<close>): the canonical form is a fixed point and separates references exactly by
  registry, path and tag or digest, if a digest follows at most one tag.

  \<^bold>\<open>Node resources.\<close>
  \<^item> \<open>Memory_Guard\<close> (\<open>memory_pressure.rs\<close>): one tick of the guard on the machine records. Under pressure the newest eligible
    child is paused, nothing else is touched, and a resumed one fits; a pause by the user can be undone.
  \<^item> \<open>Cache_Budget\<close> (\<open>cache_base_budget.rs\<close>, the selection of \<open>checkpoint_retention.rs\<close>): removal in order of last use until a budget
    fits. The loop is treated once, in the locale \<open>sweep\<close>, interpreted for bases and for checkpoints: the removals are the
    shortest sufficient prefix.
  \<^item> \<open>Retention\<close> (\<open>checkpoint_retention.rs\<close>): forgetting and a run on the directories and records of the store. What a machine
    needs or something pins stays, and a deferred forget is completed.
  \<^item> \<open>Pin_Lock\<close>: pins and claims at the granularity of system calls, by any number of processes; a held pin protects.
  \<^item> \<open>Supervisor\<close> (\<open>supervisor.rs\<close>, \<open>config.rs\<close>, \<open>state.rs\<close>, \<open>handlers/machines.rs\<close>): a check of a machine and what stop, drain and
    start write to the copy in memory and to the row. Every launch has its reasons and waits for the backoff, retries are
    bounded, and two cases are shown in which the copies disagree about a stop.

  \<^bold>\<open>Conventions.\<close> A struct is a record, an enum a datatype, an error a value of a sum type. Strings are lists of
  the bytes of their UTF-8 encoding. Times are natural numbers, nanoseconds in the network part and seconds
  in the tables. Integers are words, or naturals with the saturation of the source written out. A
  loop that the code does not bound is a \<open>partial_function\<close> whose value \<open>None\<close> is not returning, and the
  theorems about it show that it returns. The bounds are the code's own: sixteen compression
  jumps, the attempts of a retry; the forty links of a path resolution are the kernel's.

  \<^bold>\<open>Parameters.\<close> Code outside the repository is an argument: JSON, Base64, SHA-256, floating point
  products, the tar library, telemetry of devices, the outcome of starting or deleting a machine.
  What a theorem needs of it is a named hypothesis, satisfied by the instance of its witness.

  \<^bold>\<open>Not modelled.\<close> Virtual machines, processes and sockets themselves: the relays and the interface set-up of the
  network stack, the threads of the inter-VM network, the guest agent, the machine lifecycle but for what it writes for the
  supervisor, CUDA remoting, the S3 file system, the containerd
  shim and the command line are mostly calls of the operating system or of foreign functions. The registry
  client, the packed artifacts, the objects of the checkpoint store, the Smolfile parser and the small message parsers of the
  protocol crate are not treated here. Of the pool part, rollout access of a lease, the read-only
  views, metrics and the \<open>select!\<close> loop that schedules passes are left out; of the database, the tables
  of machines are seen only through the columns the pools read.
\<close>

end
